(* ===== verification/TV_Prelude.thy ===== *)
theory TV_Prelude
  imports Main "HOL-Library.Word" "HOL-Library.Multiset" "HOL-Library.Option_ord"
    "HOL-Library.Product_Lexorder" "HOL-Library.Sublist"
begin

text \<open>
  Shared vocabulary of the development: the machine integers of the source, Rust's checked and
  saturating arithmetic, indexing that panics, little-endian byte encodings, decimal printing
  and parsing of unsigned integers, and the generic list and multiset facts that several
  components use.

  Conventions. \<open>u64\<close>, \<open>u32\<close> and \<open>u8\<close> are words of their width, so \<open>+\<close> wraps as it does in
  the release build. \<open>usize\<close> is \<open>nat\<close> on a 64-bit target: conversions from \<open>u64\<close> go through
  \<open>to_usize\<close> and additions that the code checks go through \<open>checked_add_usize\<close>. A
  \<open>Result<T, E>\<close> is the sum \<open>'e + 'a\<close> with \<open>Inl\<close> for the error.
\<close>

unbundle bit_operations_syntax

named_theorems result_elims \<open>elimination of successful runs of fallible operations\<close>

type_synonym u8 = "8 word"
type_synonym u32 = "32 word"
type_synonym u64 = "64 word"
type_synonym bytes = "u8 list"

section \<open>Results\<close>

abbreviation is_ok :: "'e + 'a \<Rightarrow> bool" where
  "is_ok r \<equiv> (\<exists>x. r = Inr x)"

text \<open>The \<open>?\<close> operator: run the rest on the value, or return the error.\<close>

definition rbind :: "'e + 'a \<Rightarrow> ('a \<Rightarrow> 'e + 'b) \<Rightarrow> 'e + 'b" where
  "rbind m f = (case m of Inl e \<Rightarrow> Inl e | Inr x \<Rightarrow> f x)"

lemma rbind_simps [simp]:
  "rbind (Inl e) f = Inl e"
  "rbind (Inr x) f = f x"
  by (simp_all add: rbind_def)

lemma rbind_Inr_iff: "rbind m f = Inr y \<longleftrightarrow> (\<exists>x. m = Inr x \<and> f x = Inr y)"
  by (cases m) simp_all

lemma rbind_InrE [elim!, result_elims]:
  assumes "rbind m f = Inr y"
  obtains x where "m = Inr x" and "f x = Inr y"
  using assms by (auto simp: rbind_Inr_iff)

text \<open>
  Where the code can panic (\<open>expect\<close>, an index out of range), the error is either the code's
  own error value or the panic.
\<close>

datatype 'e failure = Failed 'e | Panic

text \<open>Lift a result without panics.\<close>

definition checked :: "'e + 'a \<Rightarrow> 'e failure + 'a" where
  "checked r = (case r of Inl e \<Rightarrow> Inl (Failed e) | Inr x \<Rightarrow> Inr x)"

lemma checked_simps [simp]:
  "checked (Inl e) = Inl (Failed e)"
  "checked (Inr x) = Inr x"
  by (simp_all add: checked_def)

lemma checked_Inr_iff [simp]: "checked r = Inr x \<longleftrightarrow> r = Inr x"
  by (cases r) simp_all

lemma checked_no_panic [simp]: "checked r \<noteq> Inl Panic"
  by (cases r) simp_all

section \<open>Machine integers\<close>

definition checked_add_u64 :: "u64 \<Rightarrow> u64 \<Rightarrow> u64 option" where
  "checked_add_u64 a b = (if unat a + unat b < 2 ^ 64 then Some (a + b) else None)"

lemma unat_plus_lt_u64: "unat (a :: u64) + unat b < 2 ^ 64 \<Longrightarrow> unat (a + b) = unat a + unat b"
  by (simp add: unat_word_ariths)

lemma checked_add_u64_Some: "checked_add_u64 a b = Some c \<Longrightarrow> unat c = unat a + unat b"
  by (auto simp: checked_add_u64_def unat_plus_lt_u64 split: if_splits)

lemma checked_add_u64_None: "checked_add_u64 a b = None \<longleftrightarrow> 2 ^ 64 \<le> unat a + unat b"
  by (auto simp: checked_add_u64_def)

text \<open>Evaluated on integers: \<open>nat\<close> numerals of this size must never be unfolded.\<close>

lemma checked_add_u64_code [code]:
  "checked_add_u64 a b = (if uint a + uint b < 2 ^ 64 then Some (a + b) else None)"
proof -
  have "unat a + unat b < 2 ^ 64 \<longleftrightarrow> int (unat a + unat b) < int (2 ^ 64)"
    by (simp only: of_nat_less_iff)
  then show ?thesis
    by (simp add: checked_add_u64_def)
qed

definition usize_limit :: nat where
  "usize_limit = 2 ^ 64"

definition to_usize :: "u64 \<Rightarrow> nat option" where
  "to_usize w = (if unat w < usize_limit then Some (unat w) else None)"

lemma to_usize_Some [simp, code]: "to_usize w = Some (unat w)"
  using unsigned_less [of w] by (simp add: to_usize_def usize_limit_def)

definition checked_add_usize :: "nat \<Rightarrow> nat \<Rightarrow> nat option" where
  "checked_add_usize a b = (if a + b < usize_limit then Some (a + b) else None)"

lemma checked_add_usize_Some [simp]:
  "checked_add_usize a b = Some c \<longleftrightarrow> c = a + b \<and> a + b < usize_limit"
  by (auto simp: checked_add_usize_def)

lemma checked_add_usize_code [code]:
  "checked_add_usize a b = (if int a + int b < 2 ^ 64 then Some (a + b) else None)"
proof -
  have "a + b < 2 ^ 64 \<longleftrightarrow> int (a + b) < int (2 ^ 64)"
    by (simp only: of_nat_less_iff)
  then show ?thesis
    by (simp add: checked_add_usize_def usize_limit_def)
qed

definition saturating_add_u64 :: "u64 \<Rightarrow> u64 \<Rightarrow> u64" where
  "saturating_add_u64 a b = (case checked_add_u64 a b of Some c \<Rightarrow> c | None \<Rightarrow> - 1)"

text \<open>A \<open>nat\<close> count stored in a \<open>u64\<close> field (\<open>as u64\<close>).\<close>

abbreviation as_u64 :: "nat \<Rightarrow> u64" where
  "as_u64 n \<equiv> word_of_nat n"

lemma unat_as_u64: "n < 2 ^ 64 \<Longrightarrow> unat (as_u64 n) = n"
  by (simp add: unat_of_nat take_bit_nat_eq_self)

section \<open>Indexing\<close>

definition nth_opt :: "'a list \<Rightarrow> nat \<Rightarrow> 'a option" where
  "nth_opt xs i = (if i < length xs then Some (xs ! i) else None)"

lemma nth_opt_Some: "nth_opt xs i = Some x \<longleftrightarrow> i < length xs \<and> xs ! i = x"
  by (auto simp: nth_opt_def)

lemma nth_opt_None [simp]: "nth_opt xs i = None \<longleftrightarrow> length xs \<le> i"
  by (auto simp: nth_opt_def)

lemma nth_opt_in_range [simp]: "i < length xs \<Longrightarrow> nth_opt xs i = Some (xs ! i)"
  by (simp add: nth_opt_def)

section \<open>Little-endian bytes\<close>

fun le_bytes :: "nat \<Rightarrow> nat \<Rightarrow> bytes" where
  "le_bytes 0 v = []"
| "le_bytes (Suc n) v = word_of_nat (v mod 256) # le_bytes n (v div 256)"

fun le_value :: "bytes \<Rightarrow> nat" where
  "le_value [] = 0"
| "le_value (b # bs) = unat b + 256 * le_value bs"

lemma length_le_bytes [simp]: "length (le_bytes n v) = n"
  by (induction n arbitrary: v) auto

lemma unat_byte_of_mod: "unat (word_of_nat (v mod 256) :: u8) = v mod 256"
  by (simp add: unat_of_nat take_bit_nat_def)

lemma le_value_le_bytes: "v < 256 ^ n \<Longrightarrow> le_value (le_bytes n v) = v"
proof (induction n arbitrary: v)
  case 0
  then show ?case by simp
next
  case (Suc n)
  then have "v div 256 < 256 ^ n" by (simp add: less_mult_imp_div_less mult.commute)
  with Suc.IH have "le_value (le_bytes n (v div 256)) = v div 256" by blast
  then show ?case by (simp add: unat_byte_of_mod)
qed

definition u64_to_le_bytes :: "u64 \<Rightarrow> bytes" where
  "u64_to_le_bytes w = le_bytes 8 (unat w)"

definition u64_from_le_bytes :: "bytes \<Rightarrow> u64" where
  "u64_from_le_bytes bs = word_of_nat (le_value bs)"

definition u32_to_le_bytes :: "u32 \<Rightarrow> bytes" where
  "u32_to_le_bytes w = le_bytes 4 (unat w)"

definition u32_from_le_bytes :: "bytes \<Rightarrow> u32" where
  "u32_from_le_bytes bs = word_of_nat (le_value bs)"

lemma u64_le_roundtrip [simp]: "u64_from_le_bytes (u64_to_le_bytes w) = w"
proof -
  have "unat w < 256 ^ 8" using unsigned_less [of w, where ?'a = nat] by simp
  then show ?thesis
    by (simp add: u64_from_le_bytes_def u64_to_le_bytes_def le_value_le_bytes)
qed

lemma u32_le_roundtrip [simp]: "u32_from_le_bytes (u32_to_le_bytes w) = w"
proof -
  have "unat w < 256 ^ 4" using unsigned_less [of w, where ?'a = nat] by simp
  then show ?thesis
    by (simp add: u32_from_le_bytes_def u32_to_le_bytes_def le_value_le_bytes)
qed

lemma length_u64_to_le_bytes [simp]: "length (u64_to_le_bytes w) = 8"
  by (simp add: u64_to_le_bytes_def)

lemma length_u32_to_le_bytes [simp]: "length (u32_to_le_bytes w) = 4"
  by (simp add: u32_to_le_bytes_def)

section \<open>Decimal text of unsigned integers\<close>

definition digit_char :: "nat \<Rightarrow> char" where
  "digit_char d = char_of (48 + d)"

definition is_digit :: "char \<Rightarrow> bool" where
  "is_digit c \<longleftrightarrow> 48 \<le> (of_char c :: nat) \<and> (of_char c :: nat) \<le> 57"

fun show_nat :: "nat \<Rightarrow> string" where
  "show_nat n = (if n < 10 then [digit_char n] else show_nat (n div 10) @ [digit_char (n mod 10)])"

declare show_nat.simps [simp del]

fun digits_value :: "nat \<Rightarrow> string \<Rightarrow> nat" where
  "digits_value acc [] = acc"
| "digits_value acc (c # cs) = digits_value (10 * acc + (of_char c - 48)) cs"

text \<open>
  Rust's \<open>u64::from_str\<close>: an optional \<open>+\<close>, then one or more ASCII digits, checked one by one
  for being a digit and for overflow.
\<close>

datatype parse_int_error = EmptyInput | InvalidDigit | PosOverflow

fun parse_digits :: "nat \<Rightarrow> string \<Rightarrow> parse_int_error + nat" where
  "parse_digits acc [] = Inr acc"
| "parse_digits acc (c # cs) =
     (if \<not> is_digit c then Inl InvalidDigit
      else if 2 ^ 64 \<le> 10 * acc + (of_char c - 48) then Inl PosOverflow
      else parse_digits (10 * acc + (of_char c - 48)) cs)"

definition parse_u64 :: "string \<Rightarrow> parse_int_error + u64" where
  "parse_u64 s =
     (if s = [] then Inl EmptyInput
      else if s = ''+'' then Inl InvalidDigit
      else rbind (parse_digits 0 (if hd s = CHR ''+'' then tl s else s)) (\<lambda>n. Inr (word_of_nat n)))"

text \<open>Evaluated with the bound on integers.\<close>

lemma parse_digits_code [code]:
  "parse_digits acc [] = Inr acc"
  "parse_digits acc (c # cs) =
     (if \<not> is_digit c then Inl InvalidDigit
      else if 2 ^ 64 \<le> 10 * int acc + int (of_char c - 48) then Inl PosOverflow
      else parse_digits (10 * acc + (of_char c - 48)) cs)"
proof -
  have "2 ^ 64 \<le> n \<longleftrightarrow> int (2 ^ 64) \<le> int n" for n :: nat
    by (simp only: of_nat_le_iff)
  from this [of "10 * acc + (of_char c - 48)"]
  show "parse_digits acc (c # cs) =
     (if \<not> is_digit c then Inl InvalidDigit
      else if 2 ^ 64 \<le> 10 * int acc + int (of_char c - 48) then Inl PosOverflow
      else parse_digits (10 * acc + (of_char c - 48)) cs)"
    by simp
qed simp

lemma of_char_digit_char: "d < 10 \<Longrightarrow> (of_char (digit_char d) :: nat) = 48 + d"
  by (simp add: digit_char_def)

lemma is_digit_digit_char: "d < 10 \<Longrightarrow> is_digit (digit_char d)"
  by (simp add: is_digit_def of_char_digit_char)

lemma digits_value_append:
  "digits_value acc (xs @ [c]) = 10 * digits_value acc xs + (of_char c - 48)"
  by (induction acc xs rule: digits_value.induct) auto

lemma digits_value_show_nat: "digits_value 0 (show_nat n) = n"
proof (induction n rule: show_nat.induct)
  case (1 n)
  show ?case
    by (cases "n < 10")
      (use 1 in \<open>simp_all add: show_nat.simps [of n] of_char_digit_char digits_value_append\<close>)
qed

lemma show_nat_digits: "list_all is_digit (show_nat n)"
proof (induction n rule: show_nat.induct)
  case (1 n)
  then show ?case
    by (cases "n < 10") (simp_all add: show_nat.simps [of n] is_digit_digit_char)
qed

lemma show_nat_nonempty [simp]: "show_nat n \<noteq> []"
  by (simp add: show_nat.simps [of n])

lemma not_digit_plus: "\<not> is_digit (CHR ''+'')"
  by (simp add: is_digit_def)

lemma digits_value_ge: "acc \<le> digits_value acc ds"
  by (induction acc ds rule: digits_value.induct) (auto intro: order_trans [rotated])

lemma parse_digits_value:
  "list_all is_digit ds \<Longrightarrow> digits_value acc ds < 2 ^ 64 \<Longrightarrow> parse_digits acc ds = Inr (digits_value acc ds)"
proof (induction acc ds rule: parse_digits.induct)
  case (2 acc c cs)
  then have "10 * acc + (of_char c - 48) < 2 ^ 64"
    using digits_value_ge [of "10 * acc + (of_char c - 48)" cs] by simp
  with 2 show ?case by simp
qed simp

lemma parse_u64_show_nat:
  assumes "n < 2 ^ 64"
  shows "parse_u64 (show_nat n) = Inr (word_of_nat n)"
proof -
  have "is_digit (hd (show_nat n))"
    using show_nat_digits [of n] by (cases "show_nat n") auto
  then have "hd (show_nat n) \<noteq> CHR ''+''"
    using not_digit_plus by metis
  moreover have "show_nat n \<noteq> ''+''"
    using calculation by auto
  ultimately show ?thesis
    using assms show_nat_digits [of n]
    by (simp add: parse_u64_def parse_digits_value digits_value_show_nat)
qed

lemma parse_u64_show_word: "parse_u64 (show_nat (unat w)) = Inr w"
  using unsigned_less [of w, where ?'a = nat] parse_u64_show_nat [of "unat w"] by simp

section \<open>Lists and multisets\<close>

lemma sum_list_take_drop: "sum_list (take n xs) + sum_list (drop n xs) = sum_list (xs :: nat list)"
  by (metis append_take_drop_id sum_list_append)

lemma list_all_nth_iff: "list_all P xs \<longleftrightarrow> (\<forall>i < length xs. P (xs ! i))"
  by (simp add: list_all_length)

lemma count_list_replicate [simp]: "count_list (replicate n x) x = n"
  by (induction n) auto

lemma count_list_update_False:
  assumes "i < length bs" and "\<not> bs ! i"
  shows "Suc (count_list (bs[i := True]) False) = count_list bs False"
  using assms
proof (induction bs arbitrary: i)
  case Nil
  then show ?case by simp
next
  case (Cons b bs)
  then show ?case by (cases i) auto
qed

lemma count_list_zero_iff: "count_list bs x = 0 \<longleftrightarrow> x \<notin> set bs"
  by (simp add: count_list_0_iff)

end
