(* ===== verification/F32.thy ===== *)
theory F32
  imports TV_Prelude
begin

text \<open>
  IEEE-754 single precision as its bit pattern. The source compares scores in two ways: the
  numeric comparisons \<open><\<close>, \<open>>\<close>, \<open>>=\<close> (false on NaN, with \<open>-0.0 = 0.0\<close>) for floors, and
  \<open>f32::total_cmp\<close> for the heap. Both are modelled on the bits, as the standard library
  defines them, and the relation between the two orders that the search depends on is proved.
\<close>

datatype f32 = F32 (to_bits: u32)

text \<open>The sign bit and the 31 magnitude bits.\<close>

definition f32_negative :: "f32 \<Rightarrow> bool" where
  "f32_negative x \<longleftrightarrow> bit (to_bits x) 31"

definition f32_magnitude :: "f32 \<Rightarrow> nat" where
  "f32_magnitude x = unat (take_bit 31 (to_bits x))"

definition is_nan :: "f32 \<Rightarrow> bool" where
  "is_nan x \<longleftrightarrow> 0x7F800000 < f32_magnitude x"

definition is_finite :: "f32 \<Rightarrow> bool" where
  "is_finite x \<longleftrightarrow> f32_magnitude x < 0x7F800000"

definition neg_infinity :: f32 where
  "neg_infinity = F32 0xFF800000"

text \<open>
  Numeric order of two numbers that are not NaN: the bit patterns are sign and magnitude, so
  the order is that of the signed magnitudes, and both zeros have key 0.
\<close>

definition f32_key :: "f32 \<Rightarrow> int" where
  "f32_key x = (if f32_negative x then - int (f32_magnitude x) else int (f32_magnitude x))"

definition f32_lt :: "f32 \<Rightarrow> f32 \<Rightarrow> bool" where
  "f32_lt a b \<longleftrightarrow> \<not> is_nan a \<and> \<not> is_nan b \<and> f32_key a < f32_key b"

definition f32_le :: "f32 \<Rightarrow> f32 \<Rightarrow> bool" where
  "f32_le a b \<longleftrightarrow> \<not> is_nan a \<and> \<not> is_nan b \<and> f32_key a \<le> f32_key b"

abbreviation f32_gt :: "f32 \<Rightarrow> f32 \<Rightarrow> bool" where
  "f32_gt a b \<equiv> f32_lt b a"

abbreviation f32_ge :: "f32 \<Rightarrow> f32 \<Rightarrow> bool" where
  "f32_ge a b \<equiv> f32_le b a"

text \<open>
  \<open>f32::total_cmp\<close>: read the bits as \<open>i32\<close>, flip the magnitude bits of negative numbers
  (\<open>left ^= (((left >> 31) as u32) >> 1) as i32\<close>) and compare as \<open>i32\<close>.
\<close>

definition total_bits :: "f32 \<Rightarrow> u32" where
  "total_bits x = to_bits x XOR drop_bit 1 (signed_drop_bit 31 (to_bits x))"

definition total_key :: "f32 \<Rightarrow> int" where
  "total_key x = sint (total_bits x)"

lemma signed_drop_bit_31:
  "signed_drop_bit 31 (w :: u32) = (if bit w 31 then - 1 else 0)"
proof (rule bit_eqI)
  fix n :: nat
  assume "possible_bit TYPE(u32) n"
  then have "n < 32" by simp
  moreover have "bit w (31 + n) \<Longrightarrow> n = 0"
    using bit_imp_le_length [of w "31 + n"] by simp
  ultimately show "bit (signed_drop_bit 31 w) n \<longleftrightarrow> bit (if bit w 31 then - 1 else 0 :: u32) n"
    by (cases "n = 0") (auto simp: bit_signed_drop_bit_iff)
qed

lemma drop_bit_minus_one: "drop_bit 1 (- 1 :: u32) = mask 31"
  by (rule bit_eqI) (auto simp: bit_drop_bit_eq bit_mask_iff)

lemma total_bits_eq:
  "total_bits x = (if f32_negative x then to_bits x XOR mask 31 else to_bits x)"
  by (simp only: total_bits_def signed_drop_bit_31 f32_negative_def drop_bit_minus_one
      drop_bit_of_0 xor.right_neutral split: if_split) simp

lemma magnitude_mod: "f32_magnitude x = unat (to_bits x) mod 2 ^ 31"
  unfolding f32_magnitude_def unsigned_take_bit_eq by (simp only: take_bit_eq_mod)

lemma magnitude_bound: "f32_magnitude x < 2 ^ 31"
  by (simp add: magnitude_mod)

lemma bits_split: "unat (to_bits x) = (if f32_negative x then 2 ^ 31 else 0) + f32_magnitude x"
proof -
  have lt: "unat (to_bits x) < 2 * 2 ^ 31"
    using unsigned_less [of "to_bits x", where ?'a = nat] by simp
  have b: "bit (to_bits x) 31 \<longleftrightarrow> odd (unat (to_bits x) div 2 ^ 31)"
    by (metis bit_iff_odd bit_unsigned_iff possible_bit_nat)
  have "unat (to_bits x) div 2 ^ 31 = 0 \<or> unat (to_bits x) div 2 ^ 31 = 1"
    using lt by (simp add: less_mult_imp_div_less less_2_cases_iff [symmetric])
  then have "unat (to_bits x) div 2 ^ 31 = (if f32_negative x then 1 else 0)"
    unfolding f32_negative_def b by auto
  then show ?thesis
    using div_mult_mod_eq [of "unat (to_bits x)" "2 ^ 31"] magnitude_mod [of x] by auto
qed

lemma sint_bits: "sint (to_bits x) = int (f32_magnitude x) - (if f32_negative x then 2 ^ 31 else 0)"
proof -
  have "sint (to_bits x) = uint (to_bits x) - 2 ^ 32 * of_bool (bit (to_bits x) 31)"
    using unsigned_less [of "to_bits x", where ?'a = int]
    by (simp add: sint_uint signed_take_bit_eq_take_bit_minus bit_unsigned_iff take_bit_int_eq_self)
  also have "uint (to_bits x) = int (unat (to_bits x))"
    by simp
  finally show ?thesis
    by (auto simp: bits_split f32_negative_def)
qed

lemma int_magnitude: "int (f32_magnitude x) = take_bit 31 (uint (to_bits x))"
  by (simp add: f32_magnitude_def unsigned_take_bit_eq of_nat_take_bit)

lemma magnitude_flip:
  "f32_magnitude (F32 (w XOR mask 31)) = 2 ^ 31 - 1 - f32_magnitude (F32 w)"
proof -
  have "take_bit 31 (w XOR mask 31) = (NOT w) AND mask 31"
    by (rule bit_eqI) (auto simp: bit_take_bit_iff bit_xor_iff bit_mask_iff bit_and_iff bit_not_iff)
  then have "take_bit 31 (uint (w XOR mask 31)) = take_bit 31 (NOT (uint w))"
    by (intro bit_eqI) (auto simp: bit_take_bit_iff bit_unsigned_iff bit_xor_iff bit_mask_iff bit_not_iff)
  also have "\<dots> = mask 31 - take_bit 31 (uint w)"
    by (simp only: take_bit_not_eq_mask_diff)
  finally have "int (f32_magnitude (F32 (w XOR mask 31))) = 2 ^ 31 - 1 - int (f32_magnitude (F32 w))"
    unfolding int_magnitude f32.sel mask_eq_exp_minus_1 .
  moreover have "f32_magnitude (F32 w) \<le> 2 ^ 31 - 1"
    using magnitude_bound [of "F32 w"] by linarith
  ultimately have "int (f32_magnitude (F32 (w XOR mask 31))) = int (2 ^ 31 - 1 - f32_magnitude (F32 w))"
    by (simp add: of_nat_diff)
  then show ?thesis by (simp only: of_nat_eq_iff)
qed

text \<open>The key that \<open>total_cmp\<close> compares, in terms of sign and magnitude.\<close>

lemma total_key_eq:
  "total_key x = (if f32_negative x then - 1 - int (f32_magnitude x) else int (f32_magnitude x))"
proof (cases "f32_negative x")
  case False
  then show ?thesis
    using sint_bits [of x] by (simp add: total_key_def total_bits_eq)
next
  case True
  let ?y = "F32 (to_bits x XOR mask 31)"
  have neg: "f32_negative ?y"
    using True by (simp add: f32_negative_def bit_xor_iff bit_mask_iff)
  have "total_key x = sint (to_bits ?y)"
    using True by (simp add: total_key_def total_bits_eq)
  also have "\<dots> = int (f32_magnitude ?y) - 2 ^ 31"
    using neg sint_bits [of ?y] by (simp del: f32.sel)
  also have "f32_magnitude ?y = 2 ^ 31 - 1 - f32_magnitude x"
    using magnitude_flip [of "to_bits x"] by simp
  finally show ?thesis
    using True magnitude_bound [of x] by (simp add: of_nat_diff)
qed

lemma total_key_inj: "total_key x = total_key y \<longleftrightarrow> x = y"
proof
  assume k: "total_key x = total_key y"
  have "f32_negative x = f32_negative y \<and> f32_magnitude x = f32_magnitude y"
    using k by (auto simp: total_key_eq split: if_splits)
  then have "unat (to_bits x) = unat (to_bits y)"
    by (simp add: bits_split)
  then show "x = y"
    by (simp add: f32.expand unsigned_word_eqI)
qed simp

text \<open>Code equations that evaluate on the integer value of the pattern, never on \<open>Suc\<close>.\<close>

lemma f32_code [code]:
  "is_nan x \<longleftrightarrow> 0x7F800000 < uint (take_bit 31 (to_bits x))"
  "is_finite x \<longleftrightarrow> uint (take_bit 31 (to_bits x)) < 0x7F800000"
  "f32_key x = (let m = uint (take_bit 31 (to_bits x)) in if f32_negative x then - m else m)"
  "total_key x = (let m = uint (take_bit 31 (to_bits x)) in if f32_negative x then - 1 - m else m)"
proof -
  have "int (f32_magnitude x) = uint (take_bit 31 (to_bits x))"
    by (simp add: f32_magnitude_def)
  then show
    "is_nan x \<longleftrightarrow> 0x7F800000 < uint (take_bit 31 (to_bits x))"
    "is_finite x \<longleftrightarrow> uint (take_bit 31 (to_bits x)) < 0x7F800000"
    "f32_key x = (let m = uint (take_bit 31 (to_bits x)) in if f32_negative x then - m else m)"
    "total_key x = (let m = uint (take_bit 31 (to_bits x)) in if f32_negative x then - 1 - m else m)"
    by (simp_all add: is_nan_def is_finite_def f32_key_def total_key_eq Let_def
        of_nat_less_iff [where 'a = int, symmetric] del: of_nat_less_iff)
qed

text \<open>\<open>total_cmp\<close> is a total order on bit patterns; the type's order is that one.\<close>

instantiation f32 :: linorder
begin

definition less_eq_f32 :: "f32 \<Rightarrow> f32 \<Rightarrow> bool" where
  "less_eq_f32 a b \<longleftrightarrow> total_key a \<le> total_key b"

definition less_f32 :: "f32 \<Rightarrow> f32 \<Rightarrow> bool" where
  "less_f32 a b \<longleftrightarrow> total_key a < total_key b"

instance
  by standard (auto simp: less_eq_f32_def less_f32_def total_key_inj)

end

text \<open>How the numeric comparisons relate to the total order.\<close>

lemma f32_lt_imp_less: "f32_lt a b \<Longrightarrow> a < b"
  by (auto simp: f32_lt_def f32_key_def less_f32_def total_key_eq split: if_splits)

lemma f32_le_of_le: "a \<le> b \<Longrightarrow> \<not> is_nan a \<Longrightarrow> \<not> is_nan b \<Longrightarrow> f32_le a b"
  by (auto simp: f32_le_def f32_key_def less_eq_f32_def total_key_eq split: if_splits)

lemma f32_not_le: "\<not> is_nan a \<Longrightarrow> \<not> is_nan b \<Longrightarrow> \<not> f32_le a b \<longleftrightarrow> f32_lt b a"
  by (auto simp: f32_le_def f32_lt_def)

lemma f32_not_lt: "\<not> is_nan a \<Longrightarrow> \<not> is_nan b \<Longrightarrow> \<not> f32_lt a b \<longleftrightarrow> f32_le b a"
  by (auto simp: f32_le_def f32_lt_def)

lemma f32_lt_irrefl [simp]: "\<not> f32_lt a a"
  by (simp add: f32_lt_def)

lemma f32_le_refl: "\<not> is_nan a \<Longrightarrow> f32_le a a"
  by (simp add: f32_le_def)

lemma f32_lt_trans: "f32_lt a b \<Longrightarrow> f32_lt b c \<Longrightarrow> f32_lt a c"
  by (auto simp: f32_lt_def)

lemma f32_le_trans: "f32_le a b \<Longrightarrow> f32_le b c \<Longrightarrow> f32_le a c"
  by (auto simp: f32_le_def)

lemma f32_lt_le_trans: "f32_lt a b \<Longrightarrow> f32_le b c \<Longrightarrow> f32_lt a c"
  by (auto simp: f32_lt_def f32_le_def)

lemma f32_le_lt_trans: "f32_le a b \<Longrightarrow> f32_lt b c \<Longrightarrow> f32_lt a c"
  by (auto simp: f32_lt_def f32_le_def)

lemma f32_lt_imp_le: "f32_lt a b \<Longrightarrow> f32_le a b"
  by (auto simp: f32_lt_def f32_le_def)

lemma not_nan_neg_infinity [simp]: "\<not> is_nan neg_infinity"
  by (simp add: is_nan_def neg_infinity_def f32_magnitude_def)

section \<open>The bit order is the order of the represented numbers\<close>

text \<open>
  The value of a finite pattern in units of \<open>2^-149\<close>: exponent field \<open>e\<close> and fraction \<open>m\<close>
  give \<open>m\<close> when \<open>e = 0\<close> (subnormal) and \<open>(2^23 + m) * 2^(e-1)\<close> otherwise. It shows that the
  comparisons above are those of the numbers the patterns stand for.
\<close>

definition scaled_magnitude :: "nat \<Rightarrow> nat" where
  "scaled_magnitude g = (let e = g div 2 ^ 23; m = g mod 2 ^ 23
     in if e = 0 then m else (2 ^ 23 + m) * 2 ^ (e - 1))"

definition scaled_value :: "f32 \<Rightarrow> int" where
  "scaled_value x = (if f32_negative x then - int (scaled_magnitude (f32_magnitude x))
                     else int (scaled_magnitude (f32_magnitude x)))"

lemma scaled_magnitude_Suc: "scaled_magnitude g < scaled_magnitude (Suc g)"
proof (cases "Suc (g mod 2 ^ 23) = 2 ^ 23")
  case True
  then have d: "Suc g div 2 ^ 23 = Suc (g div 2 ^ 23)" and m: "Suc g mod 2 ^ 23 = 0"
    by (simp_all add: div_Suc mod_Suc)
  have gm: "g mod 2 ^ 23 = 2 ^ 23 - 1"
    using True by simp
  show ?thesis
  proof (cases "g div 2 ^ 23")
    case 0
    then show ?thesis
      unfolding scaled_magnitude_def Let_def d m gm by simp
  next
    case (Suc e)
    have "(2 ^ 23 + (2 ^ 23 - 1)) * 2 ^ e < (2 ^ 23 :: nat) * 2 ^ Suc e"
      by simp
    then show ?thesis
      unfolding scaled_magnitude_def Let_def d m gm Suc by simp
  qed
next
  case False
  then have d: "Suc g div 2 ^ 23 = g div 2 ^ 23" and m: "Suc g mod 2 ^ 23 = Suc (g mod 2 ^ 23)"
    by (simp_all add: div_Suc mod_Suc)
  show ?thesis
    unfolding scaled_magnitude_def Let_def d m by simp
qed

lemma scaled_magnitude_less_iff: "scaled_magnitude g < scaled_magnitude h \<longleftrightarrow> g < h"
  using strict_mono_less [of scaled_magnitude] scaled_magnitude_Suc
  by (simp add: strict_mono_Suc_iff)

lemma scaled_magnitude_eq_iff: "scaled_magnitude g = scaled_magnitude h \<longleftrightarrow> g = h"
  using scaled_magnitude_less_iff by (metis linorder_neqE_nat nat_neq_iff)

lemma scaled_magnitude_zero [simp]: "scaled_magnitude 0 = 0"
  by (simp add: scaled_magnitude_def)

lemma scaled_magnitude_zero_iff [simp]: "scaled_magnitude g = 0 \<longleftrightarrow> g = 0"
  using scaled_magnitude_eq_iff [of g 0] by simp

lemma f32_lt_finite_iff:
  assumes "is_finite a" and "is_finite b"
  shows "f32_lt a b \<longleftrightarrow> scaled_value a < scaled_value b"
proof -
  have "\<not> is_nan a" "\<not> is_nan b"
    using assms by (simp_all add: is_finite_def is_nan_def)
  moreover have "f32_key a < f32_key b \<longleftrightarrow> scaled_value a < scaled_value b"
    using scaled_magnitude_zero_iff [of "f32_magnitude a"] scaled_magnitude_zero_iff [of "f32_magnitude b"]
    unfolding f32_key_def scaled_value_def
    by (auto simp del: scaled_magnitude_zero_iff simp: scaled_magnitude_less_iff)
  ultimately show ?thesis
    by (simp add: f32_lt_def)
qed

end
