(* ===== verification/Errors.thy ===== *)
theory Errors
  imports F32
begin

text \<open>
  \<^verbatim>\<open>src/src/errors.rs\<close>: gRPC statuses and the closed list of refusal names. A message is the
  text the code formats, kept as fragments: literal text (integers are printed in decimal by
  \<open>show_nat\<close>), the \<open>f32\<close> values that \<open>format!\<close> prints with \<open>{}\<close>, whose shortest decimal
  rendering is not modelled, and the strings printed with \<open>{:?}\<close>, that is, quoted. Neither
  rendering starts with a colon, a space or the beginning of a refusal name, so prefix tests
  only look at the leading text.
\<close>

datatype code =
    Ok | Cancelled | Unknown | InvalidArgument | DeadlineExceeded | NotFound | AlreadyExists
  | PermissionDenied | ResourceExhausted | FailedPrecondition | Aborted | OutOfRange
  | Unimplemented | Internal | Unavailable | DataLoss | Unauthenticated

datatype frag = Lit string | Flt f32 | Dbg string

type_synonym message = "frag list"

record status =
  st_code :: code
  st_message :: message

abbreviation num :: "nat \<Rightarrow> frag" where
  "num n \<equiv> Lit (show_nat n)"

abbreviation num64 :: "u64 \<Rightarrow> frag" where
  "num64 w \<equiv> num (unat w)"

definition mk_status :: "code \<Rightarrow> message \<Rightarrow> status" where
  "mk_status c m = \<lparr>st_code = c, st_message = m\<rparr>"

lemma mk_status_sel [simp]:
  "st_code (mk_status c m) = c"
  "st_message (mk_status c m) = m"
  by (simp_all add: mk_status_def)

abbreviation invalid_argument :: "message \<Rightarrow> status" where
  "invalid_argument \<equiv> mk_status InvalidArgument"

abbreviation failed_precondition :: "message \<Rightarrow> status" where
  "failed_precondition \<equiv> mk_status FailedPrecondition"

abbreviation internal :: "message \<Rightarrow> status" where
  "internal \<equiv> mk_status Internal"

section \<open>The refusal names\<close>

definition MIXED_CALIBRATION :: string where
  "MIXED_CALIBRATION = ''mixed_calibration''"

definition DIMENSION_MISMATCH :: string where
  "DIMENSION_MISMATCH = ''dimension_mismatch''"

definition BIT_WIDTH_MISMATCH :: string where
  "BIT_WIDTH_MISMATCH = ''bit_width_mismatch''"

definition NODE_UNREACHABLE :: string where
  "NODE_UNREACHABLE = ''node_unreachable''"

definition EMPTY_COLLECTION :: string where
  "EMPTY_COLLECTION = ''empty_collection''"

definition AMBIGUOUS_INDEX :: string where
  "AMBIGUOUS_INDEX = ''ambiguous_index''"

definition POSITIONAL_INDEX_REQUIRED :: string where
  "POSITIONAL_INDEX_REQUIRED = ''positional_index_required''"

definition INDEX_NOT_EMPTY :: string where
  "INDEX_NOT_EMPTY = ''index_not_empty''"

definition LABELLED_INDEX_IMMUTABLE :: string where
  "LABELLED_INDEX_IMMUTABLE = ''labelled_index_immutable''"

definition ROW_COUNT_MISMATCH :: string where
  "ROW_COUNT_MISMATCH = ''row_count_mismatch''"

definition INVALID_CALIBRATION :: string where
  "INVALID_CALIBRATION = ''invalid_calibration''"

definition NAMES :: "string list" where
  "NAMES =
     [MIXED_CALIBRATION, DIMENSION_MISMATCH, BIT_WIDTH_MISMATCH, NODE_UNREACHABLE,
      EMPTY_COLLECTION, AMBIGUOUS_INDEX, POSITIONAL_INDEX_REQUIRED, INDEX_NOT_EMPTY,
      LABELLED_INDEX_IMMUTABLE, ROW_COUNT_MISMATCH, INVALID_CALIBRATION]"

lemmas error_names =
  MIXED_CALIBRATION_def DIMENSION_MISMATCH_def BIT_WIDTH_MISMATCH_def NODE_UNREACHABLE_def
  EMPTY_COLLECTION_def AMBIGUOUS_INDEX_def POSITIONAL_INDEX_REQUIRED_def INDEX_NOT_EMPTY_def
  LABELLED_INDEX_IMMUTABLE_def ROW_COUNT_MISMATCH_def INVALID_CALIBRATION_def

lemma names_in_NAMES [simp]:
  "MIXED_CALIBRATION \<in> set NAMES" "DIMENSION_MISMATCH \<in> set NAMES"
  "BIT_WIDTH_MISMATCH \<in> set NAMES" "NODE_UNREACHABLE \<in> set NAMES"
  "EMPTY_COLLECTION \<in> set NAMES" "AMBIGUOUS_INDEX \<in> set NAMES"
  "POSITIONAL_INDEX_REQUIRED \<in> set NAMES" "INDEX_NOT_EMPTY \<in> set NAMES"
  "LABELLED_INDEX_IMMUTABLE \<in> set NAMES" "ROW_COUNT_MISMATCH \<in> set NAMES"
  "INVALID_CALIBRATION \<in> set NAMES"
  by (simp_all add: NAMES_def)

section \<open>Recognising a named refusal\<close>

fun strip_prefix :: "string \<Rightarrow> string \<Rightarrow> string option" where
  "strip_prefix [] s = Some s"
| "strip_prefix (p # ps) [] = None"
| "strip_prefix (p # ps) (c # cs) = (if p = c then strip_prefix ps cs else None)"

lemma strip_prefix_Some: "strip_prefix p s = Some r \<longleftrightarrow> s = p @ r"
  by (induction p s rule: strip_prefix.induct) auto

lemma strip_prefix_append [simp]: "strip_prefix p (p @ r) = Some r"
  by (simp add: strip_prefix_Some)

fun leading_text :: "message \<Rightarrow> string" where
  "leading_text (Lit s # m) = s @ leading_text m"
| "leading_text _ = []"

definition is_named :: "message \<Rightarrow> bool" where
  "is_named m =
     list_ex (\<lambda>name. case strip_prefix name (leading_text m) of
                        None \<Rightarrow> False
                      | Some rest \<Rightarrow> strip_prefix '': '' rest \<noteq> None) NAMES"

lemma is_named_iff:
  "is_named m \<longleftrightarrow> (\<exists>name \<in> set NAMES. \<exists>detail. leading_text m = name @ '': '' @ detail)"
  unfolding is_named_def list_ex_iff
proof (rule bex_cong [OF refl])
  fix name
  show "(case strip_prefix name (leading_text m) of None \<Rightarrow> False
          | Some rest \<Rightarrow> strip_prefix '': '' rest \<noteq> None)
        \<longleftrightarrow> (\<exists>detail. leading_text m = name @ '': '' @ detail)"
    by (auto simp: strip_prefix_Some split: option.splits)
qed

section \<open>Building statuses\<close>

definition precondition :: "string \<Rightarrow> message \<Rightarrow> status" where
  "precondition name detail = mk_status FailedPrecondition (Lit name # Lit '': '' # detail)"

definition invalid :: "string \<Rightarrow> message \<Rightarrow> status" where
  "invalid name detail = mk_status InvalidArgument (Lit name # Lit '': '' # detail)"

definition unavailable :: "string \<Rightarrow> message \<Rightarrow> status" where
  "unavailable name detail = mk_status Unavailable (Lit name # Lit '': '' # detail)"

lemma status_builders_code [simp]:
  "st_code (precondition n d) = FailedPrecondition"
  "st_code (invalid n d) = InvalidArgument"
  "st_code (unavailable n d) = Unavailable"
  by (simp_all add: precondition_def invalid_def unavailable_def)

lemma is_named_prefix [intro]: "name \<in> set NAMES \<Longrightarrow> is_named (Lit name # Lit '': '' # detail)"
  by (auto simp: is_named_iff)

lemma status_builders_named [simp]:
  assumes "name \<in> set NAMES"
  shows "is_named (st_message (precondition name d))"
    and "is_named (st_message (invalid name d))"
    and "is_named (st_message (unavailable name d))"
  using assms by (auto simp: precondition_def invalid_def unavailable_def)

lemma is_named_append: "is_named m \<Longrightarrow> is_named (m @ m')"
proof -
  have "\<exists>r. leading_text (m @ m') = leading_text m @ r"
    by (induction m rule: leading_text.induct) auto
  then show "is_named m \<Longrightarrow> is_named (m @ m')"
    unfolding is_named_iff by (metis append.assoc)
qed

section \<open>Carrying a node's failure to the caller\<close>

text \<open>The \<open>Debug\<close> names of \<open>tonic::Code\<close>.\<close>

fun show_code :: "code \<Rightarrow> string" where
  "show_code Ok = ''Ok''"
| "show_code Cancelled = ''Cancelled''"
| "show_code Unknown = ''Unknown''"
| "show_code InvalidArgument = ''InvalidArgument''"
| "show_code DeadlineExceeded = ''DeadlineExceeded''"
| "show_code NotFound = ''NotFound''"
| "show_code AlreadyExists = ''AlreadyExists''"
| "show_code PermissionDenied = ''PermissionDenied''"
| "show_code ResourceExhausted = ''ResourceExhausted''"
| "show_code FailedPrecondition = ''FailedPrecondition''"
| "show_code Aborted = ''Aborted''"
| "show_code OutOfRange = ''OutOfRange''"
| "show_code Unimplemented = ''Unimplemented''"
| "show_code Internal = ''Internal''"
| "show_code Unavailable = ''Unavailable''"
| "show_code DataLoss = ''DataLoss''"
| "show_code Unauthenticated = ''Unauthenticated''"

definition node_error :: "string \<Rightarrow> status \<Rightarrow> status" where
  "node_error address st =
     (if is_named (st_message st)
      then mk_status (st_code st) (st_message st @ [Lit '' (shard '', Lit address, Lit '')''])
      else unavailable NODE_UNREACHABLE
             ([Lit ''node '', Lit address, Lit '' did not answer: ''] @ st_message st
              @ [Lit '' ('', Lit (show_code (st_code st)), Lit '')'']))"

lemma node_error_named [simp]: "is_named (st_message (node_error a st))"
  by (simp add: node_error_def is_named_append)

lemma node_error_code:
  "st_code (node_error a st) = (if is_named (st_message st) then st_code st else Unavailable)"
  by (simp add: node_error_def)

end
