(* ===== verification/Node_Table.thy ===== *)
theory Node_Table
  imports Errors
begin

text \<open>
  The node table of \<^verbatim>\<open>src/src/coordinator/nodes.rs\<close>: shard configurations, the parser of the
  operator's configuration text, and address normalisation. Text is a byte string whose
  whitespace is ASCII; \<open>trim\<close> strips tab, newline, vertical tab, form feed, carriage return
  and space, \<open>split_ascii_whitespace\<close> the same without vertical tab.
\<close>

section \<open>Shard configurations\<close>

record shard_config =
  cfg_address :: string
  cfg_index_id :: "string option"
  cfg_replicas :: "string list"
  cfg_required_generation :: "u64 option"

record node_table =
  table_shards :: "shard_config list"

fun contains_sub :: "string \<Rightarrow> string \<Rightarrow> bool" where
  "contains_sub pat [] \<longleftrightarrow> strip_prefix pat [] \<noteq> None"
| "contains_sub pat (c # cs) \<longleftrightarrow> strip_prefix pat (c # cs) \<noteq> None \<or> contains_sub pat cs"

definition with_scheme :: "string \<Rightarrow> string" where
  "with_scheme address = (if contains_sub ''://'' address then address else ''http://'' @ address)"

definition config_new :: "string \<Rightarrow> shard_config" where
  "config_new address =
     \<lparr>cfg_address = with_scheme address, cfg_index_id = None, cfg_replicas = [],
      cfg_required_generation = None\<rparr>"

definition with_index :: "string \<Rightarrow> string \<Rightarrow> shard_config" where
  "with_index address index_id =
     \<lparr>cfg_address = with_scheme address, cfg_index_id = Some index_id, cfg_replicas = [],
      cfg_required_generation = None\<rparr>"

definition filter_option :: "('a \<Rightarrow> bool) \<Rightarrow> 'a option \<Rightarrow> 'a option" where
  "filter_option P x = (case x of None \<Rightarrow> None | Some v \<Rightarrow> if P v then Some v else None)"

definition with_index_generation :: "string \<Rightarrow> string \<Rightarrow> u64 option \<Rightarrow> shard_config" where
  "with_index_generation address index_id generation =
     (with_index address index_id)
       \<lparr>cfg_required_generation := filter_option (\<lambda>value. 0 < value) generation\<rparr>"

definition table_new :: "shard_config list \<Rightarrow> node_table" where
  "table_new shards = \<lparr>table_shards = shards\<rparr>"

definition table_len :: "node_table \<Rightarrow> nat" where
  "table_len t = length (table_shards t)"

definition table_is_empty :: "node_table \<Rightarrow> bool" where
  "table_is_empty t \<longleftrightarrow> table_shards t = []"

section \<open>Splitting text\<close>

fun split_by :: "(char \<Rightarrow> bool) \<Rightarrow> string \<Rightarrow> string list" where
  "split_by p [] = [[]]"
| "split_by p (c # cs) =
     (if p c then [] # split_by p cs
      else (case split_by p cs of [] \<Rightarrow> [[c]] | w # ws \<Rightarrow> (c # w) # ws))"

definition split_entries :: "string \<Rightarrow> string list" where
  "split_entries = split_by (\<lambda>ch. ch = CHR '','' \<or> ch = CHR 0x0A)"

definition strip_comment :: "string \<Rightarrow> string" where
  "strip_comment entry = takeWhile (\<lambda>ch. ch \<noteq> CHR ''#'') entry"

definition is_whitespace :: "char \<Rightarrow> bool" where
  "is_whitespace c \<longleftrightarrow> c \<in> {CHR 0x09, CHR 0x0A, CHR 0x0B, CHR 0x0C, CHR 0x0D, CHR '' ''}"

definition is_ascii_whitespace :: "char \<Rightarrow> bool" where
  "is_ascii_whitespace c \<longleftrightarrow> c \<in> {CHR 0x09, CHR 0x0A, CHR 0x0C, CHR 0x0D, CHR '' ''}"

definition trim :: "string \<Rightarrow> string" where
  "trim s = rev (dropWhile is_whitespace (rev (dropWhile is_whitespace s)))"

definition split_ascii_whitespace :: "string \<Rightarrow> string list" where
  "split_ascii_whitespace s = filter (\<lambda>w. w \<noteq> []) (split_by is_ascii_whitespace s)"

lemma split_by_not_Nil [simp]: "split_by p s \<noteq> []"
  by (induction p s rule: split_by.induct) (auto split: list.splits)

lemma split_by_none: "list_all (\<lambda>c. \<not> p c) w \<Longrightarrow> split_by p w = [w]"
  by (induction p w rule: split_by.induct) auto

lemma split_by_append:
  "list_all (\<lambda>c. \<not> p c) w \<Longrightarrow> p c \<Longrightarrow> split_by p (w @ c # rest) = w # split_by p rest"
  by (induction w) auto

section \<open>Parsing\<close>

definition parse_int_message :: "parse_int_error \<Rightarrow> string" where
  "parse_int_message e =
     (case e of EmptyInput \<Rightarrow> ''cannot parse integer from empty string''
      | InvalidDigit \<Rightarrow> ''invalid digit found in string''
      | PosOverflow \<Rightarrow> ''number too large to fit in target type'')"

text \<open>\<open>fields.next().map(|value| value.parse()...).transpose()?\<close>\<close>

definition parse_generation :: "nat \<Rightarrow> string option \<Rightarrow> message + u64 option" where
  "parse_generation position field =
     (case field of
        None \<Rightarrow> Inr None
      | Some value \<Rightarrow>
          (case parse_u64 value of
             Inl e \<Rightarrow> Inl [Lit ''shard at position '', num position, Lit '': invalid generation '',
                            Dbg value, Lit '': '', Lit (parse_int_message e)]
           | Inr g \<Rightarrow> Inr (Some g)))"

text \<open>The configuration an entry's fields stand for: addresses, then the remaining fields.\<close>

definition entry_config :: "nat \<Rightarrow> string \<Rightarrow> string list \<Rightarrow> message failure + shard_config" where
  "entry_config position addresses more_fields =
     rbind (checked (parse_generation position (nth_opt more_fields 1))) (\<lambda>generation.
       case nth_opt more_fields 2 of
         Some extra \<Rightarrow>
           Inl (Failed
             [Lit ''shard at position '', num position,
              Lit '': expected addresses, an optional index handle, and an optional generation; found an extra field '',
              Dbg extra])
       | None \<Rightarrow>
           (case split_by (\<lambda>c. c = CHR ''|'') addresses of
              [] \<Rightarrow> Inl Panic
            | primary # rest \<Rightarrow>
                (let replicas = map with_scheme rest in
                 case nth_opt more_fields 0 of
                   Some index_id \<Rightarrow>
                     Inr ((with_index_generation primary index_id generation)\<lparr>cfg_replicas := replicas\<rparr>)
                 | None \<Rightarrow>
                     if generation = None
                     then Inr ((config_new primary)\<lparr>cfg_replicas := replicas\<rparr>)
                     else Inl (Failed [Lit ''shard at position '', num position,
                                       Lit '': generation requires an index handle'']))))"

text \<open>One entry of the loop of \<open>NodeTable::parse\<close>; \<open>None\<close> is \<open>continue\<close>.\<close>

definition parse_entry :: "nat \<Rightarrow> string \<Rightarrow> message failure + shard_config option" where
  "parse_entry position raw =
     (let entry = trim (strip_comment raw) in
      if entry = [] then Inr None
      else
        (case split_ascii_whitespace entry of
           [] \<Rightarrow> Inl Panic
         | addresses # more_fields \<Rightarrow>
             rbind (entry_config position addresses more_fields) (\<lambda>shard. Inr (Some shard))))"

fun parse_entries :: "nat \<Rightarrow> shard_config list \<Rightarrow> string list \<Rightarrow> message failure + shard_config list" where
  "parse_entries position shards [] = Inr shards"
| "parse_entries position shards (entry # entries) =
     rbind (parse_entry position entry) (\<lambda>parsed.
       case parsed of
         None \<Rightarrow> parse_entries (Suc position) shards entries
       | Some shard \<Rightarrow> parse_entries (Suc position) (shards @ [shard]) entries)"

definition parse :: "string \<Rightarrow> message failure + node_table" where
  "parse text =
     rbind (parse_entries 0 [] (split_entries text)) (\<lambda>shards.
       if shards = [] then Inl (Failed [Lit ''no shards configured: the node table is empty''])
       else Inr (table_new shards))"

section \<open>Addresses\<close>

lemma contains_sub_append: "contains_sub pat s \<Longrightarrow> contains_sub pat (xs @ s)"
  by (induction xs) auto

lemma contains_scheme [simp]: "contains_sub ''://'' (with_scheme a)"
proof (cases "contains_sub ''://'' a")
  case False
  have "contains_sub ''://'' (''http'' @ ''://'' @ a)"
    by simp
  with False show ?thesis by (simp add: with_scheme_def)
qed (simp add: with_scheme_def)

lemma with_scheme_idem [simp]: "with_scheme (with_scheme a) = with_scheme a"
  using contains_scheme [of a] by (simp only: with_scheme_def if_True)

lemma with_scheme_id: "contains_sub ''://'' a \<Longrightarrow> with_scheme a = a"
  by (simp add: with_scheme_def)

section \<open>The parser does not panic\<close>

lemma is_ascii_whitespace_imp: "is_ascii_whitespace c \<Longrightarrow> is_whitespace c"
  by (auto simp: is_ascii_whitespace_def is_whitespace_def)

lemma trim_last: "trim s \<noteq> [] \<Longrightarrow> \<not> is_whitespace (last (trim s))"
proof -
  assume "trim s \<noteq> []"
  then have "dropWhile is_whitespace (rev (dropWhile is_whitespace s)) \<noteq> []"
    by (simp add: trim_def)
  then show ?thesis
    by (simp add: trim_def last_rev hd_dropWhile)
qed

lemma split_by_words:
  "\<exists>c \<in> set s. \<not> p c \<Longrightarrow> \<exists>w \<in> set (split_by p s). w \<noteq> []"
  by (induction p s rule: split_by.induct) (auto split: list.splits)

lemma fields_nonempty: "trim s \<noteq> [] \<Longrightarrow> split_ascii_whitespace (trim s) \<noteq> []"
  using split_by_words [of "trim s" is_ascii_whitespace] trim_last [of s] last_in_set [of "trim s"]
    is_ascii_whitespace_imp
  unfolding split_ascii_whitespace_def filter_empty_conv by blast

lemma entry_config_no_panic: "entry_config position addresses more_fields \<noteq> Inl Panic"
proof -
  obtain p rest where parts: "split_by (\<lambda>c. c = CHR ''|'') addresses = p # rest"
    by (cases "split_by (\<lambda>c. c = CHR ''|'') addresses") auto
  show ?thesis
    by (cases "parse_generation position (nth_opt more_fields 1)")
      (simp_all add: entry_config_def Let_def parts split: option.split)
qed

lemma parse_entry_no_panic: "parse_entry position raw \<noteq> Inl Panic"
proof (cases "trim (strip_comment raw) = []")
  case True
  then show ?thesis by (simp add: parse_entry_def)
next
  case False
  then obtain a fs where fields: "split_ascii_whitespace (trim (strip_comment raw)) = a # fs"
    using fields_nonempty [of "strip_comment raw"]
    by (cases "split_ascii_whitespace (trim (strip_comment raw))") auto
  show ?thesis
    using False entry_config_no_panic [of position a fs]
    by (cases "entry_config position a fs") (auto simp: parse_entry_def Let_def fields)
qed

lemma parse_entries_no_panic: "parse_entries position shards entries \<noteq> Inl Panic"
proof (induction entries arbitrary: position shards)
  case (Cons e es)
  then show ?case
    using parse_entry_no_panic [of position e]
    by (cases "parse_entry position e") (auto split: option.splits)
qed simp

lemma parse_no_panic: "parse text \<noteq> Inl Panic"
  using parse_entries_no_panic [of 0 "[]" "split_entries text"]
  by (cases "parse_entries 0 [] (split_entries text)") (auto simp: parse_def)

section \<open>What a parsed table guarantees\<close>

definition config_ok :: "shard_config \<Rightarrow> bool" where
  "config_ok c \<longleftrightarrow>
     contains_sub ''://'' (cfg_address c) \<and>
     list_all (contains_sub ''://'') (cfg_replicas c) \<and>
     (case cfg_required_generation c of None \<Rightarrow> True | Some g \<Rightarrow> 0 < g \<and> cfg_index_id c \<noteq> None)"

lemma config_ok_new: "config_ok ((config_new a)\<lparr>cfg_replicas := map with_scheme rs\<rparr>)"
  by (simp add: config_ok_def config_new_def list_all_iff)

lemma config_ok_generation:
  "config_ok ((with_index_generation a i g)\<lparr>cfg_replicas := map with_scheme rs\<rparr>)"
  by (auto simp: config_ok_def with_index_generation_def with_index_def list_all_iff
      filter_option_def split: option.splits)

lemma entry_config_ok:
  assumes "entry_config position addresses more_fields = Inr c"
  shows "config_ok c"
proof -
  obtain p rest where parts: "split_by (\<lambda>c. c = CHR ''|'') addresses = p # rest"
    by (cases "split_by (\<lambda>c. c = CHR ''|'') addresses") auto
  obtain g where run: "(case nth_opt more_fields 0 of
       Some index_id \<Rightarrow> Inr ((with_index_generation p index_id g)\<lparr>cfg_replicas := map with_scheme rest\<rparr>)
     | None \<Rightarrow> if g = None then Inr ((config_new p)\<lparr>cfg_replicas := map with_scheme rest\<rparr>)
         else Inl (Failed [Lit ''shard at position '', num position,
                           Lit '': generation requires an index handle''])) = Inr c"
    using assms unfolding entry_config_def parts Let_def rbind_Inr_iff
    by (cases "nth_opt more_fields 2") (auto simp del: nth_opt_None)
  then show ?thesis
    by (cases "nth_opt more_fields 0")
      (auto simp del: nth_opt_None simp: config_ok_new config_ok_generation split: if_splits)
qed

lemma parse_entry_ok: "parse_entry position raw = Inr (Some c) \<Longrightarrow> config_ok c"
  by (auto simp: parse_entry_def Let_def intro: entry_config_ok split: if_splits list.splits)

lemma parse_entries_ok:
  "parse_entries position shards entries = Inr out \<Longrightarrow> list_all config_ok shards \<Longrightarrow> list_all config_ok out"
  by (induction entries arbitrary: position shards)
    (auto dest!: parse_entry_ok split: option.splits)

lemma parse_ok: "parse text = Inr t \<Longrightarrow> table_shards t \<noteq> [] \<and> list_all config_ok (table_shards t)"
  using parse_entries_ok [of 0 "[]" "split_entries text"]
  by (auto simp: parse_def table_new_def split: if_splits)

section \<open>Parsing a rendered table\<close>

text \<open>
  The text an operator would write for a list of configurations. It is not code of the program;
  it states what the syntax can express, and the parser reads it back exactly.
\<close>

fun join_with :: "char \<Rightarrow> string list \<Rightarrow> string" where
  "join_with c [] = []"
| "join_with c [w] = w"
| "join_with c (w # ws) = w @ c # join_with c ws"

definition config_fields :: "shard_config \<Rightarrow> string list" where
  "config_fields c =
     join_with (CHR ''|'') (cfg_address c # cfg_replicas c) #
       (case cfg_index_id c of
          None \<Rightarrow> []
        | Some i \<Rightarrow> i # (case cfg_required_generation c of None \<Rightarrow> [] | Some g \<Rightarrow> [show_nat (unat g)]))"

definition render_config :: "shard_config \<Rightarrow> string" where
  "render_config c = join_with (CHR '' '') (config_fields c)"

definition render_table :: "shard_config list \<Rightarrow> string" where
  "render_table cs = join_with (CHR 0x0A) (map render_config cs)"

definition plain_char :: "char \<Rightarrow> bool" where
  "plain_char c \<longleftrightarrow> \<not> is_whitespace c \<and> c \<notin> {CHR '','', CHR ''#''}"

definition plain_word :: "string \<Rightarrow> bool" where
  "plain_word w \<longleftrightarrow> w \<noteq> [] \<and> list_all plain_char w"

definition no_bar :: "string \<Rightarrow> bool" where
  "no_bar w \<longleftrightarrow> list_all (\<lambda>c. c \<noteq> CHR ''|'') w"

definition writable :: "shard_config \<Rightarrow> bool" where
  "writable c \<longleftrightarrow> config_ok c \<and>
     list_all (\<lambda>a. plain_word a \<and> no_bar a) (cfg_address c # cfg_replicas c) \<and>
     (case cfg_index_id c of None \<Rightarrow> True | Some i \<Rightarrow> plain_word i)"

lemma join_with_Cons: "ws \<noteq> [] \<Longrightarrow> join_with c (w # ws) = w @ c # join_with c ws"
  by (cases ws) simp_all

lemma plain_charD:
  assumes "plain_char c"
  shows "\<not> is_whitespace c" "c \<noteq> CHR ''#''" "c \<noteq> CHR '',''" "c \<noteq> CHR 0x0A" "c \<noteq> CHR '' ''"
  using assms by (auto simp: plain_char_def is_whitespace_def)

lemma split_by_join:
  assumes "p c" and "ws \<noteq> []" and "list_all (list_all (\<lambda>x. \<not> p x)) ws"
  shows "split_by p (join_with c ws) = ws"
  using assms(2,3)
proof (induction ws rule: list_nonempty_induct)
  case (single w)
  then show ?case by (simp add: split_by_none)
next
  case (cons w ws)
  then show ?case by (simp add: join_with_Cons split_by_append assms(1))
qed

lemma set_join_with: "set (join_with c ws) \<subseteq> insert c (\<Union> (set ` set ws))"
  by (induction c ws rule: join_with.induct) auto

lemma join_with_last:
  "ws \<noteq> [] \<Longrightarrow> last ws \<noteq> [] \<Longrightarrow> join_with c ws \<noteq> [] \<and> last (join_with c ws) = last (last ws)"
  by (induction c ws rule: join_with.induct) (auto split: if_splits)

lemma join_with_hd:
  "ws \<noteq> [] \<Longrightarrow> hd ws \<noteq> [] \<Longrightarrow> hd (join_with c ws) = hd (hd ws)"
  by (induction c ws rule: join_with.induct) auto

lemma trim_id:
  assumes "s \<noteq> []" and "\<not> is_whitespace (hd s)" and "\<not> is_whitespace (last s)"
  shows "trim s = s"
proof -
  have "dropWhile is_whitespace s = s"
    using assms by (cases s) auto
  moreover have "dropWhile is_whitespace (rev s) = rev s"
    using assms by (cases s rule: rev_cases) auto
  ultimately show ?thesis by (simp add: trim_def)
qed

lemma is_digit_plain: "is_digit c \<Longrightarrow> plain_char c"
  by (auto simp: is_digit_def plain_char_def is_whitespace_def)

lemma show_nat_plain: "plain_word (show_nat n)"
  using show_nat_digits [of n] by (auto simp: plain_word_def list_all_iff is_digit_plain)

lemma join_bar_plain:
  assumes "list_all plain_word ws" and "ws \<noteq> []"
  shows "plain_word (join_with (CHR ''|'') ws)"
proof -
  have "plain_char (CHR ''|'')"
    by (simp add: plain_char_def is_whitespace_def)
  then have "list_all plain_char (join_with (CHR ''|'') ws)"
    using set_join_with [of "CHR ''|''" ws] assms(1)
    unfolding list_all_iff plain_word_def by fastforce
  moreover have "join_with (CHR ''|'') ws \<noteq> []"
    using assms join_with_last [of ws] by (simp add: list_all_iff plain_word_def)
  ultimately show ?thesis by (simp add: plain_word_def)
qed

lemma config_fields_plain: "writable c \<Longrightarrow> list_all plain_word (config_fields c)"
  by (auto simp: config_fields_def writable_def show_nat_plain list_all_iff
      intro!: join_bar_plain split: option.splits)

lemma config_fields_not_Nil [simp]: "config_fields c \<noteq> []"
  by (simp add: config_fields_def)

lemma render_fields:
  assumes "writable c"
  shows "split_ascii_whitespace (render_config c) = config_fields c"
    and "trim (strip_comment (render_config c)) = render_config c"
    and "render_config c \<noteq> []"
    and "list_all (\<lambda>ch. \<not> (ch = CHR '','' \<or> ch = CHR 0x0A)) (render_config c)"
proof -
  note plain = config_fields_plain [OF assms]
  have "list_all (list_all (\<lambda>x. \<not> is_ascii_whitespace x)) (config_fields c)"
    using plain is_ascii_whitespace_imp
    unfolding list_all_iff plain_word_def plain_char_def by blast
  then have "split_by is_ascii_whitespace (render_config c) = config_fields c"
    unfolding render_config_def by (intro split_by_join) (auto simp: is_ascii_whitespace_def)
  moreover have "\<forall>w \<in> set (config_fields c). w \<noteq> []"
    using plain by (simp add: list_all_iff plain_word_def)
  ultimately show "split_ascii_whitespace (render_config c) = config_fields c"
    by (simp add: split_ascii_whitespace_def)
  have chars: "\<forall>ch \<in> set (render_config c). ch = CHR '' '' \<or> plain_char ch"
    using set_join_with [of "CHR '' ''" "config_fields c"] plain
    unfolding render_config_def list_all_iff plain_word_def by fastforce
  have no_sep: "ch \<noteq> CHR ''#'' \<and> ch \<noteq> CHR '','' \<and> ch \<noteq> CHR 0x0A" if "ch \<in> set (render_config c)" for ch
    using chars that plain_charD [of ch] by (cases "ch = CHR '' ''") (simp, blast)
  then show "list_all (\<lambda>ch. \<not> (ch = CHR '','' \<or> ch = CHR 0x0A)) (render_config c)"
    unfolding list_all_iff by blast
  have nonempty: "config_fields c \<noteq> []" "hd (config_fields c) \<noteq> []" "last (config_fields c) \<noteq> []"
    using plain by (auto simp: list_all_iff plain_word_def)
  show ne: "render_config c \<noteq> []"
    unfolding render_config_def using nonempty join_with_last by blast
  have "hd (render_config c) = hd (hd (config_fields c))"
    unfolding render_config_def using nonempty by (intro join_with_hd)
  moreover have "last (render_config c) = last (last (config_fields c))"
    unfolding render_config_def using nonempty join_with_last by blast
  moreover have "plain_char (hd (hd (config_fields c)))" "plain_char (last (last (config_fields c)))"
    using plain nonempty unfolding list_all_iff plain_word_def
    by (metis hd_in_set, metis last_in_set)
  ultimately have "trim (render_config c) = render_config c"
    using ne by (intro trim_id) (auto simp: plain_char_def)
  moreover have "strip_comment (render_config c) = render_config c"
    unfolding strip_comment_def takeWhile_eq_all_conv using no_sep by blast
  ultimately show "trim (strip_comment (render_config c)) = render_config c"
    by simp
qed

lemma writable_parts:
  assumes "writable c"
  shows "split_by (\<lambda>ch. ch = CHR ''|'') (join_with (CHR ''|'') (cfg_address c # cfg_replicas c))
         = cfg_address c # cfg_replicas c"
    and "with_scheme (cfg_address c) = cfg_address c"
    and "map with_scheme (cfg_replicas c) = cfg_replicas c"
proof -
  show "split_by (\<lambda>ch. ch = CHR ''|'') (join_with (CHR ''|'') (cfg_address c # cfg_replicas c))
        = cfg_address c # cfg_replicas c"
    using assms by (intro split_by_join) (auto simp: writable_def no_bar_def list_all_iff)
  show "with_scheme (cfg_address c) = cfg_address c"
    using assms by (simp add: writable_def config_ok_def with_scheme_id)
  show "map with_scheme (cfg_replicas c) = cfg_replicas c"
    using assms by (intro map_idI) (auto simp: writable_def config_ok_def list_all_iff with_scheme_id)
qed

lemma parse_entry_render:
  assumes "writable c"
  shows "parse_entry position (render_config c) = Inr (Some c)"
proof -
  note parts = writable_parts [OF assms]
  note render = render_fields [OF assms]
  have "entry_config position (hd (config_fields c)) (tl (config_fields c)) = Inr c"
    using assms parts
    by (cases "cfg_index_id c"; cases "cfg_required_generation c"; cases c)
      (auto simp: config_fields_def entry_config_def parse_generation_def parse_u64_show_word
        nth_opt_def writable_def config_ok_def config_new_def with_index_generation_def
        with_index_def filter_option_def)
  then show ?thesis
    by (cases "config_fields c") (simp_all add: parse_entry_def render)
qed

lemma parse_entries_render:
  "list_all writable cs \<Longrightarrow> parse_entries position shards (map render_config cs) = Inr (shards @ cs)"
  by (induction cs arbitrary: position shards) (simp_all add: parse_entry_render)

text \<open>
  C7. Round trip: every table whose entries can be written in the configuration syntax (schemes
  present, no separator or comment characters inside the words, a generation only with an index
  handle and positive) is read back by \<open>parse\<close> exactly, in order.
\<close>

theorem parse_render:
  assumes "list_all writable cs" and "cs \<noteq> []"
  shows "parse (render_table cs) = Inr (table_new cs)"
proof -
  have "split_entries (render_table cs) = map render_config cs"
    unfolding split_entries_def render_table_def
    using assms render_fields(4) by (intro split_by_join) (auto simp: list_all_iff)
  then show ?thesis
    using assms by (simp add: parse_def parse_entries_render)
qed

definition example_table :: "shard_config list" where
  "example_table =
     [\<lparr>cfg_address = ''http://a:1'', cfg_index_id = Some ''x'', cfg_replicas = [''http://b:2''],
       cfg_required_generation = Some 7\<rparr>,
      \<lparr>cfg_address = ''https://c:3'', cfg_index_id = None, cfg_replicas = [], cfg_required_generation = None\<rparr>]"

theorem parse_render_witness:
  "parse (render_table example_table) = Inr (table_new example_table)"
proof (rule parse_render)
  show "list_all writable example_table" by code_simp
  show "example_table \<noteq> []" by (simp add: example_table_def)
qed

text \<open>
  Safety of parsing: on every text, however malformed, \<open>parse\<close> returns a table or an error
  message and never panics; a table it returns is not empty, every address in it names a scheme,
  and a required generation is positive and has an index handle.
\<close>

theorem parse_total:
  "case parse text of
     Inr t \<Rightarrow> table_shards t \<noteq> [] \<and> list_all config_ok (table_shards t)
   | Inl f \<Rightarrow> f \<noteq> Panic"
  using parse_no_panic [of "text"] parse_ok [of "text"] by (auto split: sum.splits)

end
