(* ===== verification/Topology_File.thy ===== *)
theory Topology_File
  imports Node_Table
begin

text \<open>
  The durable topology state file (\<^verbatim>\<open>load_or_initialize\<close>, \<^verbatim>\<open>persist_topology\<close> of
  \<^verbatim>\<open>src/src/coordinator/nodes.rs\<close>). The file system answers every call through \<open>fs_env\<close>, an
  argument: \<open>None\<close> is success and \<open>Some e\<close> the text of the error, so a theorem about every
  \<open>fs_env\<close> covers every fault. \<open>serde_json\<close> is an argument too (\<open>encode\<close>, \<open>decode\<close>); what is
  relied on is that decoding inverts encoding. The disk holds the state file and the temporary
  file; \<open>persist_trace\<close> lists every disk a crash can leave behind.
\<close>

definition TOPOLOGY_VERSION :: u32 where
  "TOPOLOGY_VERSION = 1"

record persisted_topology =
  pt_version :: u32
  pt_generation :: u64
  pt_shards :: "shard_config list"
  pt_spares :: "string list"

section \<open>Paths\<close>

text \<open>
  \<open>Path::parent\<close> and \<open>Path::file_name\<close> on Unix paths without \<open>.\<close> components: trailing slashes
  do not count, a single relative component has the empty parent, a root or the empty path has none.
\<close>

definition strip_slashes :: "string \<Rightarrow> string" where
  "strip_slashes p = rev (dropWhile (\<lambda>c. c = CHR ''/'') (rev p))"

definition last_component :: "string \<Rightarrow> string" where
  "last_component p = rev (takeWhile (\<lambda>c. c \<noteq> CHR ''/'') (rev (strip_slashes p)))"

definition path_parent :: "string \<Rightarrow> string option" where
  "path_parent p =
     (if strip_slashes p = [] then None
      else
        (let before = rev (dropWhile (\<lambda>c. c \<noteq> CHR ''/'') (rev (strip_slashes p))) in
         Some (if before \<noteq> [] \<and> strip_slashes before = [] then ''/'' else strip_slashes before)))"

definition path_file_name :: "string \<Rightarrow> string option" where
  "path_file_name p =
     (let name = last_component p in if name = [] \<or> name = ''..'' then None else Some name)"

definition path_join :: "string \<Rightarrow> string \<Rightarrow> string" where
  "path_join dir name =
     (if dir = [] then name else if last dir = CHR ''/'' then dir @ name else dir @ ''/'' @ name)"

section \<open>The file system\<close>

datatype fs_call =
    CreateDirAll string
  | CreateFile string
  | WriteAll string
  | SyncFile string
  | Rename string string
  | SyncDir string
  | ReadFile string

type_synonym fs_env = "fs_call \<Rightarrow> string option"

record disk =
  state_file :: "bytes option"
  temp_file :: "bytes option"

text \<open>The calls of the closure in \<open>persist_topology\<close>, with the message of each failure.\<close>

definition persist_calls :: "string \<Rightarrow> string \<Rightarrow> string \<Rightarrow> (fs_call \<times> string \<times> string) list" where
  "persist_calls temp path parent =
     [(CreateFile temp, ''create topology temp '', temp),
      (WriteAll temp, ''write topology temp '', temp),
      (SyncFile temp, ''sync topology temp '', temp),
      (Rename temp path, ''activate topology state '', path),
      (SyncDir parent, ''sync topology directory '', parent)]"

fun fs_effect :: "bytes \<Rightarrow> fs_call \<Rightarrow> disk \<Rightarrow> disk" where
  "fs_effect data (CreateFile _) d = d\<lparr>temp_file := Some []\<rparr>"
| "fs_effect data (WriteAll _) d = d\<lparr>temp_file := Some data\<rparr>"
| "fs_effect data (Rename _ _) d = d\<lparr>state_file := temp_file d, temp_file := None\<rparr>"
| "fs_effect data _ d = d"

text \<open>What a call that fails may leave behind: \<open>write_all\<close> may have written a prefix.\<close>

fun fs_partial :: "bytes \<Rightarrow> nat \<Rightarrow> fs_call \<Rightarrow> disk \<Rightarrow> disk" where
  "fs_partial data n (WriteAll _) d = d\<lparr>temp_file := Some (take n data)\<rparr>"
| "fs_partial data n _ d = d"

fun run_calls ::
    "fs_env \<Rightarrow> nat \<Rightarrow> bytes \<Rightarrow> (fs_call \<times> string \<times> string) list \<Rightarrow> disk \<Rightarrow> (message + unit) \<times> disk" where
  "run_calls io n data [] d = (Inr (), d)"
| "run_calls io n data ((call, what, arg) # calls) d =
     (case io call of
        Some e \<Rightarrow> (Inl [Lit what, Lit arg, Lit '': '', Lit e], fs_partial data n call d)
      | None \<Rightarrow> run_calls io n data calls (fs_effect data call d))"

definition topology_parent :: "string \<Rightarrow> string" where
  "topology_parent path = (case path_parent path of None \<Rightarrow> ''.'' | Some p \<Rightarrow> p)"

definition topology_temp :: "string \<Rightarrow> string \<Rightarrow> string" where
  "topology_temp path uuid =
     path_join (topology_parent path)
       (''.'' @ (case path_file_name path of None \<Rightarrow> ''topology'' | Some n \<Rightarrow> n) @ ''.tmp-'' @ uuid)"

section \<open>Replacing the state file\<close>

text \<open>\<open>short\<close> is how much a failing write got through; \<open>uuid\<close> the fresh temporary name.\<close>

definition persist_topology ::
    "fs_env \<Rightarrow> (persisted_topology \<Rightarrow> string + bytes) \<Rightarrow> string \<Rightarrow> nat \<Rightarrow> string \<Rightarrow> u64
     \<Rightarrow> shard_config list \<Rightarrow> string list \<Rightarrow> disk \<Rightarrow> (message + unit) \<times> disk" where
  "persist_topology io encode uuid short path generation shards spares d =
     (if generation = 0 \<or> shards = [] then
        (Inl [Lit ''refusing topology generation '', num64 generation, Lit '' with '',
              num (length shards), Lit '' shards''], d)
      else
        (case io (CreateDirAll (topology_parent path)) of
           Some e \<Rightarrow> (Inl [Lit ''create topology directory '', Lit (topology_parent path), Lit '': '', Lit e], d)
         | None \<Rightarrow>
             (case encode \<lparr>pt_version = TOPOLOGY_VERSION, pt_generation = generation,
                            pt_shards = shards, pt_spares = spares\<rparr> of
                Inl e \<Rightarrow> (Inl [Lit ''encode topology generation '', num64 generation, Lit '': '', Lit e], d)
              | Inr data \<Rightarrow>
                  (case run_calls io short data
                          (persist_calls (topology_temp path uuid) path (topology_parent path)) d of
                     (Inl e, d') \<Rightarrow> (Inl e, d'\<lparr>temp_file := None\<rparr>)
                   | (Inr _, d') \<Rightarrow> (Inr (), d')))))"

section \<open>Loading or seeding it\<close>

definition load_or_initialize ::
    "fs_env \<Rightarrow> (persisted_topology \<Rightarrow> string + bytes) \<Rightarrow> (bytes \<Rightarrow> string + persisted_topology)
     \<Rightarrow> string \<Rightarrow> nat \<Rightarrow> string \<Rightarrow> node_table \<Rightarrow> disk
     \<Rightarrow> (message + (u64 \<times> node_table \<times> string list)) \<times> disk" where
  "load_or_initialize io encode decode uuid short path initial d =
     (case state_file d of
        Some data \<Rightarrow>
          (case io (ReadFile path) of
             Some e \<Rightarrow> (Inl [Lit ''read topology state '', Lit path, Lit '': '', Lit e], d)
           | None \<Rightarrow>
               (case decode data of
                  Inl e \<Rightarrow> (Inl [Lit ''decode topology state '', Lit path, Lit '': '', Lit e], d)
                | Inr persisted \<Rightarrow>
                    if pt_version persisted \<noteq> TOPOLOGY_VERSION then
                      (Inl [Lit ''topology state '', Lit path, Lit '' has version '',
                            num (unat (pt_version persisted)), Lit '', expected '',
                            num (unat TOPOLOGY_VERSION)], d)
                    else if pt_generation persisted = 0 \<or> pt_shards persisted = [] then
                      (Inl [Lit ''topology state '', Lit path, Lit '' has generation '',
                            num64 (pt_generation persisted), Lit '' and '',
                            num (length (pt_shards persisted)), Lit '' shards''], d)
                    else (Inr (pt_generation persisted, table_new (pt_shards persisted), pt_spares persisted), d)))
      | None \<Rightarrow>
          if table_is_empty initial then (Inl [Lit ''cannot initialize an empty topology''], d)
          else
            (case persist_topology io encode uuid short path 1 (table_shards initial) [] d of
               (Inl e, d') \<Rightarrow> (Inl e, d')
             | (Inr _, d') \<Rightarrow> (Inr (1, initial, []), d')))"

section \<open>Contract of the encoder\<close>

text \<open>\<open>serde_json\<close>: what \<open>to_vec_pretty\<close> writes, \<open>from_slice\<close> reads back.\<close>

definition serde_inverts ::
    "(persisted_topology \<Rightarrow> string + bytes) \<Rightarrow> (bytes \<Rightarrow> string + persisted_topology) \<Rightarrow> bool" where
  "serde_inverts encode decode \<longleftrightarrow> (\<forall>p data. encode p = Inr data \<longrightarrow> decode data = Inr p)"

lemma serde_invertsD: "serde_inverts encode decode \<Longrightarrow> encode p = Inr data \<Longrightarrow> decode data = Inr p"
  by (simp add: serde_inverts_def)

section \<open>Faults and crashes\<close>

text \<open>The record a call to \<open>persist_topology\<close> writes.\<close>

definition topology_record :: "u64 \<Rightarrow> shard_config list \<Rightarrow> string list \<Rightarrow> persisted_topology" where
  "topology_record generation shards spares =
     \<lparr>pt_version = TOPOLOGY_VERSION, pt_generation = generation, pt_shards = shards, pt_spares = spares\<rparr>"

lemma topology_record_sel [simp]:
  "pt_version (topology_record g s p) = TOPOLOGY_VERSION"
  "pt_generation (topology_record g s p) = g"
  "pt_shards (topology_record g s p) = s"
  "pt_spares (topology_record g s p) = p"
  by (simp_all add: topology_record_def)

text \<open>How a run of \<open>persist_topology\<close> can end, for every fault of the file system.\<close>

lemma persist_topology_cases:
  assumes "persist_topology io encode uuid short path g shards spares d = (r, d')"
  obtains (refused) m where "r = Inl m" "state_file d' = state_file d"
  | (replaced) m data e where "r = Inl m" "encode (topology_record g shards spares) = Inr data"
      "g \<noteq> 0" "shards \<noteq> []" "io (SyncDir (topology_parent path)) = Some e"
      "d' = \<lparr>state_file = Some data, temp_file = None\<rparr>"
  | (stored) data where "r = Inr ()" "encode (topology_record g shards spares) = Inr data"
      "g \<noteq> 0" "shards \<noteq> []" "d' = \<lparr>state_file = Some data, temp_file = None\<rparr>"
  using assms
  by (auto simp: persist_topology_def persist_calls_def topology_record_def
      split: if_splits option.splits sum.splits)

text \<open>Every disk that a crash during the run of the calls can leave behind.\<close>

fun crash_points :: "bytes \<Rightarrow> (fs_call \<times> string \<times> string) list \<Rightarrow> disk \<Rightarrow> disk list" where
  "crash_points data [] d = [d]"
| "crash_points data ((call, _, _) # calls) d =
     d # map (\<lambda>n. fs_partial data n call d) [0..<length data] @
     crash_points data calls (fs_effect data call d)"

definition persist_crashes :: "string \<Rightarrow> string \<Rightarrow> bytes \<Rightarrow> disk \<Rightarrow> disk list" where
  "persist_crashes uuid path data d =
     crash_points data (persist_calls (topology_temp path uuid) path (topology_parent path)) d"

text \<open>
  C9. Atomic replacement: whatever fails and wherever the process dies, the state file holds either
  its previous content or the complete new encoding. Success means the new one; an error means the
  previous one, except when only the final sync of the directory failed.
\<close>

theorem persist_topology_atomic:
  "(\<forall>r d'. persist_topology io encode uuid short path g shards spares d = (r, d') \<longrightarrow>
      (case r of
         Inr _ \<Rightarrow> (\<exists>data. encode (topology_record g shards spares) = Inr data \<and> state_file d' = Some data)
       | Inl _ \<Rightarrow> state_file d' = state_file d \<or>
           (io (SyncDir (topology_parent path)) \<noteq> None \<and>
            (\<exists>data. encode (topology_record g shards spares) = Inr data \<and> state_file d' = Some data)))) \<and>
   (\<forall>data. \<forall>d' \<in> set (persist_crashes uuid path data d).
      state_file d' = state_file d \<or> state_file d' = Some data)"
proof (intro conjI allI impI)
  fix r d'
  assume "persist_topology io encode uuid short path g shards spares d = (r, d')"
  then show "case r of
      Inr _ \<Rightarrow> (\<exists>data. encode (topology_record g shards spares) = Inr data \<and> state_file d' = Some data)
    | Inl _ \<Rightarrow> state_file d' = state_file d \<or>
        (io (SyncDir (topology_parent path)) \<noteq> None \<and>
         (\<exists>data. encode (topology_record g shards spares) = Inr data \<and> state_file d' = Some data))"
    by (cases rule: persist_topology_cases) auto
next
  fix data
  show "\<forall>d' \<in> set (persist_crashes uuid path data d). state_file d' = state_file d \<or> state_file d' = Some data"
    by (auto simp: persist_crashes_def persist_calls_def)
qed

text \<open>A file system without faults and an encoder that inverts, for concrete runs.\<close>

definition example_encode :: "persisted_topology \<Rightarrow> string + bytes" where
  "example_encode p =
     (if pt_shards p = [config_new ''a''] \<and> pt_spares p = [] \<and> pt_version p = 1
      then Inr (u64_to_le_bytes (pt_generation p)) else Inl ''unsupported'')"

definition example_decode :: "bytes \<Rightarrow> string + persisted_topology" where
  "example_decode data =
     Inr \<lparr>pt_version = 1, pt_generation = u64_from_le_bytes data, pt_shards = [config_new ''a''], pt_spares = []\<rparr>"

lemma example_serde: "serde_inverts example_encode example_decode"
  by (auto simp: serde_inverts_def example_encode_def example_decode_def split: if_splits)

theorem persist_topology_atomic_witness:
  "snd (persist_topology (\<lambda>c. if c = SyncDir ''/d'' then Some ''EIO'' else None) example_encode ''u'' 0
      ''/d/t'' 2 [config_new ''a''] [] \<lparr>state_file = Some [], temp_file = None\<rparr>) =
    \<lparr>state_file = Some (u64_to_le_bytes 2), temp_file = None\<rparr>"
proof -
  let ?d = "\<lparr>state_file = Some [], temp_file = None\<rparr>"
  let ?io = "\<lambda>c. if c = SyncDir ''/d'' then Some ''EIO'' else None"
  let ?run = "persist_topology ?io example_encode ''u'' 0 ''/d/t'' 2 [config_new ''a''] [] ?d"
  have run: "?run = (fst ?run, snd ?run)" and err: "fst ?run = Inl (projl (fst ?run))"
    and changed: "state_file (snd ?run) \<noteq> state_file ?d" and tmp: "temp_file (snd ?run) = None"
    and enc: "example_encode (topology_record 2 [config_new ''a''] []) = Inr (u64_to_le_bytes 2)"
    by code_simp+
  have "case fst ?run of
      Inr _ \<Rightarrow> (\<exists>data. example_encode (topology_record 2 [config_new ''a''] []) = Inr data
        \<and> state_file (snd ?run) = Some data)
    | Inl _ \<Rightarrow> state_file (snd ?run) = state_file ?d \<or>
        (?io (SyncDir (topology_parent ''/d/t'')) \<noteq> None \<and>
         (\<exists>data. example_encode (topology_record 2 [config_new ''a''] []) = Inr data
            \<and> state_file (snd ?run) = Some data))"
    using persist_topology_atomic [THEN conjunct1, rule_format, OF run] .
  then have "state_file (snd ?run) = Some (u64_to_le_bytes 2)"
    using changed enc by (subst (asm) err) auto
  with tmp show ?thesis by simp
qed

section \<open>Restarting\<close>

lemma load_persisted:
  assumes "serde_inverts encode decode"
    and "persist_topology io encode uuid short path g shards spares d = (Inr (), d')"
    and "io' (ReadFile path) = None"
  shows "load_or_initialize io' encode' decode uuid' short' path initial d' =
    (Inr (g, table_new shards, spares), d')"
  using assms(2)
proof (cases rule: persist_topology_cases)
  case (stored data)
  then show ?thesis
    using serde_invertsD [OF assms(1) stored(2)] assms(3) by (simp add: load_or_initialize_def)
qed simp_all

lemma load_cases:
  assumes "load_or_initialize io encode decode uuid short path initial d = (Inr (g, t, spares), d')"
  shows "g \<noteq> 0 \<and> table_shards t \<noteq> [] \<and>
    ((\<exists>data p. state_file d = Some data \<and> decode data = Inr p \<and> pt_version p = TOPOLOGY_VERSION \<and>
        g = pt_generation p \<and> t = table_new (pt_shards p) \<and> spares = pt_spares p \<and> d' = d) \<or>
     (state_file d = None \<and> g = 1 \<and> t = initial \<and> spares = [] \<and>
        persist_topology io encode uuid short path 1 (table_shards initial) [] d = (Inr (), d')))"
  using assms
  by (auto simp: load_or_initialize_def table_is_empty_def table_new_def
      split: option.splits sum.splits if_splits prod.splits)

text \<open>
  Idempotent start: whatever a successful start served, the next start on the same disk serves
  again, with the same generation, shards and spares, and writes nothing; its own startup table
  plays no part.
\<close>

theorem load_twice:
  assumes "serde_inverts encode decode"
    and "load_or_initialize io encode decode uuid short path initial d = (Inr r, d')"
    and "io' (ReadFile path) = None"
  shows "load_or_initialize io' encode decode uuid' short' path initial' d' = (Inr r, d')"
proof -
  obtain g t spares where r: "r = (g, t, spares)" by (metis surj_pair)
  note L = load_cases [OF assms(2) [unfolded r]]
  show ?thesis
  proof (cases "state_file d")
    case None
    then have P: "persist_topology io encode uuid short path 1 (table_shards initial) [] d = (Inr (), d')"
      and "t = initial" "g = 1" "spares = []"
      using L by simp_all
    then show ?thesis
      using load_persisted [where io' = io' and path = path, OF assms(1) P assms(3)] r
      by (simp add: table_new_def)
  next
    case (Some data)
    then show ?thesis
      using L assms(3) r by (auto simp: load_or_initialize_def table_new_def)
  qed
qed

theorem load_twice_witness:
  "load_or_initialize (\<lambda>_. None) example_encode example_decode ''v'' 0 ''/d/t'' (table_new [])
      \<lparr>state_file = Some (u64_to_le_bytes 1), temp_file = None\<rparr> =
    (Inr (1, table_new [config_new ''a''], []), \<lparr>state_file = Some (u64_to_le_bytes 1), temp_file = None\<rparr>)"
proof (rule load_twice [OF example_serde])
  show "load_or_initialize (\<lambda>_. None) example_encode example_decode ''u'' 0 ''/d/t''
      (table_new [config_new ''a'']) \<lparr>state_file = None, temp_file = None\<rparr> =
    (Inr (1, table_new [config_new ''a''], []), \<lparr>state_file = Some (u64_to_le_bytes 1), temp_file = None\<rparr>)"
    by code_simp
qed simp

text \<open>
  A bare file name: \<open>Path::parent\<close> of a path without a slash is the empty path, not \<open>None\<close>, so
  the fallback to the current directory is never taken; where the operating system refuses to open
  the empty path, every persist of such a path reports an error although it has already replaced
  the state file with the new generation.
\<close>

theorem persist_bare_file_name:
  assumes "CHR ''/'' \<notin> set path" and "path \<noteq> []"
    and "io (SyncDir []) = Some e" and "\<forall>c. c \<noteq> SyncDir [] \<longrightarrow> io c = None"
    and "g \<noteq> 0" and "shards \<noteq> []" and "encode (topology_record g shards spares) = Inr data"
  shows "persist_topology io encode uuid short path g shards spares d =
    (Inl [Lit ''sync topology directory '', Lit [], Lit '': '', Lit e],
     \<lparr>state_file = Some data, temp_file = None\<rparr>)"
proof -
  have "dropWhile (\<lambda>c. c = CHR ''/'') (rev path) = rev path"
    using assms(1,2) by (cases path rule: rev_cases) auto
  then have strip: "strip_slashes path = path"
    by (simp add: strip_slashes_def)
  have empty: "dropWhile (\<lambda>c. c \<noteq> CHR ''/'') (rev path) = []"
    using assms(1) by (auto simp: dropWhile_eq_Nil_conv)
  have parent: "topology_parent path = []"
    using assms(2) unfolding topology_parent_def path_parent_def Let_def strip empty
    by (simp add: strip_slashes_def)
  show ?thesis
    using assms(3-) unfolding persist_topology_def parent
    by (simp add: persist_calls_def flip: topology_record_def)
qed

theorem persist_bare_file_name_witness:
  "state_file (snd (persist_topology (\<lambda>c. if c = SyncDir [] then Some ''ENOENT'' else None) example_encode
      ''u'' 0 ''t'' 2 [config_new ''a''] [] \<lparr>state_file = None, temp_file = None\<rparr>)) \<noteq> None"
proof -
  have "example_encode (topology_record 2 [config_new ''a''] []) = Inr (u64_to_le_bytes 2)"
    by code_simp
  then show ?thesis
    by (subst persist_bare_file_name) simp_all
qed

end
