(* ===== verification/Wire.thy ===== *)
theory Wire
  imports Errors
begin

text \<open>
  The protobuf messages that the modelled calls exchange (\<^verbatim>\<open>proto/turbovec/v1/*.proto\<close>), as the
  Rust code sees the generated structs: \<open>uint32\<close> and \<open>uint64\<close> are words, enums are their
  \<open>i32\<close> values, a \<open>oneof\<close> is a datatype under \<open>option\<close> (absent payload).
\<close>

text \<open>Enum values on the wire.\<close>

definition INDEX_KIND_UNSPECIFIED :: int where
  "INDEX_KIND_UNSPECIFIED = 0"

definition INDEX_KIND_POSITIONAL :: int where
  "INDEX_KIND_POSITIONAL = 1"

definition INDEX_KIND_ID_MAP :: int where
  "INDEX_KIND_ID_MAP = 2"

definition CALIBRATION_STATE_UNSPECIFIED :: int where
  "CALIBRATION_STATE_UNSPECIFIED = 0"

definition CALIBRATION_STATE_UNCALIBRATED :: int where
  "CALIBRATION_STATE_UNCALIBRATED = 1"

definition CALIBRATION_STATE_CALIBRATED :: int where
  "CALIBRATION_STATE_CALIBRATED = 2"

lemmas wire_enum_defs =
  INDEX_KIND_UNSPECIFIED_def INDEX_KIND_POSITIONAL_def INDEX_KIND_ID_MAP_def
  CALIBRATION_STATE_UNSPECIFIED_def CALIBRATION_STATE_UNCALIBRATED_def
  CALIBRATION_STATE_CALIBRATED_def

record index_info =
  info_index_id :: string
  info_kind :: int
  info_dim :: u32
  info_bit_width :: u32
  info_len :: u64
  info_calibration_state :: int
  info_labelled :: bool
  info_generation :: u64

record calibration =
  cal_state :: int
  tqplus_shift :: "f32 list"
  tqplus_scale :: "f32 list"

record label_bitmap =
  base_label :: u64
  label_count :: u64
  bits :: bytes

record row_block =
  block_dim :: u32
  block_bit_width :: u32
  block_rows :: u64
  block_packed_codes :: bytes
  block_scales :: "f32 list"
  block_shift :: "f32 list"
  block_scale :: "f32 list"
  block_labels :: "u64 list"

record start_stream_search =
  start_index_id :: string
  start_vector :: "f32 list"
  start_initial_floor :: "f32 option"
  start_request_id :: string
  start_allowed_labels :: "u64 list"
  start_has_allowed_labels :: bool
  start_allowed_label_bitmaps :: "label_bitmap list"

datatype stream_search_request =
    StartSearch start_stream_search
  | FloorUpdate f32
  | StopStreamSearch

record stream_search_batch =
  batch_scores :: "f32 list"
  batch_slots :: "u64 list"
  batch_labels :: "u64 list"

record stream_search_summary =
  summary_completed :: bool
  summary_emitted :: u64
  summary_blocks_scanned :: u64
  summary_floor_raises_applied :: u64

datatype stream_search_payload =
    Batch stream_search_batch
  | Summary stream_search_summary

type_synonym stream_search_response = "stream_search_payload option"

record shard_ref =
  ref_address :: string
  ref_index_id :: string

record neighbour =
  nb_score :: f32
  nb_label :: "u64 option"
  nb_address :: string
  nb_index_id :: string
  nb_slot :: u64

end
