(* ===== verification/Binding.thy ===== *)
theory Binding
  imports Wire Node_Table
begin

text \<open>
  Holding probed shards to one collection (\<^verbatim>\<open>bind\<close>, \<^verbatim>\<open>plan_counts\<close> and the validation helpers of
  \<^verbatim>\<open>src/src/coordinator/mod.rs\<close>, \<^verbatim>\<open>calibration_difference\<close> of \<^verbatim>\<open>src/src/service.rs\<close>).
  The lemmas show that a binding exists exactly when the shards agree on dimension, bit width
  and every calibration bit, that every refusal carries one of the stable names, and that a
  planned split distributes exactly the source's rows.
\<close>

record probe =
  probe_address :: string
  probe_index_id :: string
  probe_info :: index_info
  probe_calibration :: calibration

record pinned =
  pinned_generation :: u64
  pinned_shards :: "probe list"
  pinned_dim :: nat
  pinned_rows :: u64
  pinned_calibration :: calibration

section \<open>Comparing calibration pairs\<close>

text \<open>
  The loop \<open>for (i, (a, b)) in left.iter().zip(right.iter()).enumerate()\<close> with
  \<open>a.to_bits() != b.to_bits()\<close>.
\<close>

fun coordinate_difference :: "string \<Rightarrow> nat \<Rightarrow> f32 list \<Rightarrow> f32 list \<Rightarrow> message option" where
  "coordinate_difference what i (a # as) (b # bs) =
     (if to_bits a \<noteq> to_bits b
      then Some [Lit what, Lit '' coordinate '', num i, Lit '' is '', Flt a,
                 Lit '' on one side and '', Flt b, Lit '' on the other'']
      else coordinate_difference what (Suc i) as bs)"
| "coordinate_difference what i _ _ = None"

definition calibration_difference ::
    "f32 list \<times> f32 list \<Rightarrow> f32 list \<times> f32 list \<Rightarrow> message option" where
  "calibration_difference left right =
     (if length (fst left) \<noteq> length (fst right)
      then Some [Lit ''shift has '', num (length (fst left)), Lit '' coordinates on one side and '',
                 num (length (fst right)), Lit '' on the other'']
      else if length (snd left) \<noteq> length (snd right)
      then Some [Lit ''scale has '', num (length (snd left)), Lit '' coordinates on one side and '',
                 num (length (snd right)), Lit '' on the other'']
      else (case coordinate_difference ''shift'' 0 (fst left) (fst right) of
              Some d \<Rightarrow> Some d
            | None \<Rightarrow> coordinate_difference ''scale'' 0 (snd left) (snd right)))"

lemma coordinate_difference_None:
  "length xs = length ys \<Longrightarrow> coordinate_difference what i xs ys = None \<longleftrightarrow> xs = ys"
  by (induction xs ys arbitrary: i rule: list_induct2) (auto intro: f32.expand)

lemma coordinate_difference_refl [simp]: "coordinate_difference what i xs xs = None"
  by (simp add: coordinate_difference_None)

lemma calibration_difference_refl [simp]: "calibration_difference p p = None"
  by (simp add: calibration_difference_def)

lemma calibration_difference_None: "calibration_difference l r = None \<longleftrightarrow> l = r"
  by (cases l; cases r)
    (auto simp: calibration_difference_def coordinate_difference_None split: option.splits if_splits)

section \<open>Binding a collection\<close>

definition pair_of :: "calibration \<Rightarrow> f32 list \<times> f32 list" where
  "pair_of c = (tqplus_shift c, tqplus_scale c)"

text \<open>The loop of \<open>bind\<close>: compare each shard with the head and add up the rows.\<close>

fun bind_shards :: "probe \<Rightarrow> u64 \<Rightarrow> probe list \<Rightarrow> status + u64" where
  "bind_shards head rows [] = Inr rows"
| "bind_shards head rows (shard # shards) =
     (if info_dim (probe_info shard) \<noteq> info_dim (probe_info head)
      then Inl (precondition DIMENSION_MISMATCH
             [Lit ''shard '', Lit (probe_address head), Lit '' holds dim '',
              num (unat (info_dim (probe_info head))), Lit '' and shard '', Lit (probe_address shard),
              Lit '' holds dim '', num (unat (info_dim (probe_info shard)))])
      else if info_bit_width (probe_info shard) \<noteq> info_bit_width (probe_info head)
      then Inl (precondition BIT_WIDTH_MISMATCH
             [Lit ''shard '', Lit (probe_address head), Lit '' is '',
              num (unat (info_bit_width (probe_info head))), Lit ''-bit and shard '',
              Lit (probe_address shard), Lit '' is '',
              num (unat (info_bit_width (probe_info shard))), Lit ''-bit''])
      else (case calibration_difference (pair_of (probe_calibration head))
                   (pair_of (probe_calibration shard)) of
              Some detail \<Rightarrow>
                Inl (precondition MIXED_CALIBRATION
                  ([Lit ''shard '', Lit (probe_address head), Lit '' and shard '', Lit (probe_address shard),
                    Lit '' are calibrated differently, so their scores are not on one scale and merging them would rank nothing: '']
                   @ detail))
            | None \<Rightarrow> bind_shards head (rows + info_len (probe_info shard)) shards))"

definition bind :: "u64 \<Rightarrow> probe list \<Rightarrow> status + pinned" where
  "bind generation shards =
     (case shards of
        [] \<Rightarrow> Inl (precondition EMPTY_COLLECTION
                 [Lit ''no shards are configured, so there is no collection to serve''])
      | head # _ \<Rightarrow>
          rbind (bind_shards head 0 shards) (\<lambda>rows.
            Inr \<lparr>pinned_generation = generation, pinned_shards = shards,
                 pinned_dim = unat (info_dim (probe_info head)), pinned_rows = rows,
                 pinned_calibration = probe_calibration head\<rparr>))"

text \<open>What \<open>bind\<close> compares: dimension, bit width and the pair, bit for bit.\<close>

definition agrees :: "probe \<Rightarrow> probe \<Rightarrow> bool" where
  "agrees a b \<longleftrightarrow>
     info_dim (probe_info a) = info_dim (probe_info b) \<and>
     info_bit_width (probe_info a) = info_bit_width (probe_info b) \<and>
     tqplus_shift (probe_calibration a) = tqplus_shift (probe_calibration b) \<and>
     tqplus_scale (probe_calibration a) = tqplus_scale (probe_calibration b)"

definition total_rows :: "probe list \<Rightarrow> u64" where
  "total_rows shards = sum_list (map (\<lambda>s. info_len (probe_info s)) shards)"

lemma bind_shards_Inr:
  "bind_shards head rows shards = Inr r \<longleftrightarrow>
     (\<forall>s \<in> set shards. agrees head s) \<and> r = rows + total_rows shards"
  by (induction head rows shards rule: bind_shards.induct)
    (auto simp: calibration_difference_None pair_of_def agrees_def total_rows_def add.assoc
      split: option.splits)

lemma bind_shards_named:
  "bind_shards head rows shards = Inl e \<Longrightarrow>
     st_code e = FailedPrecondition \<and> is_named (st_message e)"
  by (induction head rows shards rule: bind_shards.induct) (auto split: if_splits option.splits)

lemma agrees_refl [simp]: "agrees a a"
  by (simp add: agrees_def)

lemma agrees_sym: "agrees a b \<Longrightarrow> agrees b a"
  by (simp add: agrees_def)

lemma agrees_trans: "agrees a b \<Longrightarrow> agrees b c \<Longrightarrow> agrees a c"
  by (simp add: agrees_def)

lemma bind_Inr_iff:
  "bind g shards = Inr p \<longleftrightarrow>
     shards \<noteq> [] \<and> (\<forall>s \<in> set shards. agrees (hd shards) s) \<and>
     p = \<lparr>pinned_generation = g, pinned_shards = shards,
          pinned_dim = unat (info_dim (probe_info (hd shards))), pinned_rows = total_rows shards,
          pinned_calibration = probe_calibration (hd shards)\<rparr>"
  by (cases shards) (auto simp: bind_def rbind_Inr_iff bind_shards_Inr simp del: bind_shards.simps)

lemma bind_pairwise: "bind g shards = Inr p \<Longrightarrow> a \<in> set shards \<Longrightarrow> b \<in> set shards \<Longrightarrow> agrees a b"
  by (meson agrees_sym agrees_trans bind_Inr_iff)

lemma bind_Inl_named: "bind g shards = Inl e \<Longrightarrow> st_code e = FailedPrecondition \<and> is_named (st_message e)"
  by (cases shards; cases "bind_shards (hd shards) 0 shards")
    (auto simp: bind_def simp del: bind_shards.simps dest: bind_shards_named)

section \<open>Validation helpers\<close>

definition mk_shard_ref :: "string \<Rightarrow> string \<Rightarrow> shard_ref" where
  "mk_shard_ref address index_id = \<lparr>ref_address = address, ref_index_id = index_id\<rparr>"

definition to_config :: "shard_ref \<Rightarrow> shard_config" where
  "to_config shard =
     (if ref_index_id shard = [] then config_new (ref_address shard)
      else with_index (ref_address shard) (ref_index_id shard))"

definition serves_address :: "shard_config \<Rightarrow> string \<Rightarrow> bool" where
  "serves_address shard address \<longleftrightarrow>
     cfg_address shard = address \<or> list_ex (\<lambda>replica. replica = address) (cfg_replicas shard)"

lemma serves_address_iff: "serves_address c a \<longleftrightarrow> a = cfg_address c \<or> a \<in> set (cfg_replicas c)"
  by (auto simp: serves_address_def list_ex_iff)

definition require_positional :: "probe \<Rightarrow> string \<Rightarrow> status + unit" where
  "require_positional p what =
     (if info_kind (probe_info p) \<noteq> INDEX_KIND_POSITIONAL
      then Inl (precondition POSITIONAL_INDEX_REQUIRED
             [Lit what, Lit '' moves rows as encoded codes, which turbovec's IdMapIndex does not expose; shard '',
              Lit (probe_address p), Lit '' index '', Lit (probe_index_id p), Lit '' is id-mapped''])
      else Inr ())"

definition validate_required_generation :: "shard_config \<Rightarrow> probe \<Rightarrow> status + unit" where
  "validate_required_generation config p =
     (case cfg_required_generation config of
        Some required \<Rightarrow>
          if info_generation (probe_info p) \<noteq> required
          then Inl (failed_precondition
                 [Lit ''shard_generation_mismatch: '', Lit (probe_address p), Lit '' serves generation '',
                  num64 (info_generation (probe_info p)), Lit '', topology requires '', num64 required])
          else Inr ()
      | None \<Rightarrow> Inr ())"

lemma validate_required_generation_Inr:
  "validate_required_generation config p = Inr () \<longleftrightarrow>
     (\<forall>g. cfg_required_generation config = Some g \<longrightarrow> info_generation (probe_info p) = g)"
  by (auto simp: validate_required_generation_def split: option.splits)

definition empty_block :: "probe \<Rightarrow> row_block" where
  "empty_block source =
     \<lparr>block_dim = info_dim (probe_info source), block_bit_width = info_bit_width (probe_info source),
      block_rows = 0, block_packed_codes = [], block_scales = [],
      block_shift = tqplus_shift (probe_calibration source),
      block_scale = tqplus_scale (probe_calibration source), block_labels = []\<rparr>"

section \<open>Planning a split\<close>

text \<open>
  \<open>requested.iter().sum()\<close> wraps in the release build, so the comparison with \<open>rows\<close> is one of
  64-bit words.
\<close>

definition plan_counts :: "u64 \<Rightarrow> nat \<Rightarrow> u64 list \<Rightarrow> status + u64 list" where
  "plan_counts rows targets requested =
     (if targets = 0 then
        Inl (invalid ROW_COUNT_MISMATCH [Lit ''a split needs at least one target node''])
      else if requested = [] then
        (let t = as_u64 targets; base = rows div t; remainder = rows mod t in
         Inr (map (\<lambda>i. base + (if as_u64 i < remainder then 1 else 0)) [0..<targets]))
      else if length requested \<noteq> targets then
        Inl (invalid ROW_COUNT_MISMATCH
          [num (length requested), Lit '' row counts were given for '', num targets, Lit '' targets''])
      else
        (let total = sum_list requested in
         if total \<noteq> rows then
           Inl (invalid ROW_COUNT_MISMATCH
             [Lit ''row counts sum to '', num64 total, Lit '' but the source holds '', num64 rows, Lit '' rows''])
         else Inr requested))"

definition even_share :: "nat \<Rightarrow> nat \<Rightarrow> nat \<Rightarrow> nat" where
  "even_share rows targets i = rows div targets + (if i < rows mod targets then 1 else 0)"

lemma sum_even_share: "0 < t \<Longrightarrow> sum_list (map (even_share r t) [0..<t]) = r"
proof -
  assume "0 < t"
  have "sum_list (map (\<lambda>i. if i < m then 1 else 0) [0..<n]) = min m n" for m n :: nat
    by (induction n) auto
  then have "sum_list (map (even_share r t) [0..<t]) = t * (r div t) + min (r mod t) t"
    unfolding even_share_def sum_list_addf by (simp add: sum_list_triv)
  also have "\<dots> = r"
    using \<open>0 < t\<close> by (simp add: min_absorb1 mod_le_divisor)
  finally show ?thesis .
qed

lemma plan_counts_even:
  assumes "0 < targets" and "targets < 2 ^ 64"
  shows "plan_counts rows targets [] = Inr (map (\<lambda>i. as_u64 (even_share (unat rows) targets i)) [0..<targets])"
proof -
  have t: "unat (as_u64 targets) = targets"
    using assms by (simp add: unat_as_u64)
  have base: "rows div as_u64 targets = as_u64 (unat rows div targets)"
    by (rule unsigned_word_eqI [where 'a = nat])
      (use t unsigned_less [of rows, where ?'a = nat] in
        \<open>simp add: unat_div unat_as_u64 div_le_dividend [THEN le_less_trans]\<close>)
  have remainder: "as_u64 i < rows mod as_u64 targets \<longleftrightarrow> i < unat rows mod targets"
    if "i < targets" for i
    using that assms by (simp add: word_less_nat_alt unat_mod t unat_as_u64)
  show ?thesis
    using assms by (simp add: plan_counts_def Let_def base remainder even_share_def)
qed

lemma even_share_le: "0 < t \<Longrightarrow> i < t \<Longrightarrow> even_share r t i \<le> r"
  using sum_even_share [of t r] member_le_sum_list [of "even_share r t i" "map (even_share r t) [0..<t]"]
  by simp

lemma plan_counts_even_unat:
  assumes "plan_counts rows targets [] = Inr counts" and "targets < 2 ^ 64"
  shows "map unat counts = map (even_share (unat rows) targets) [0..<targets]"
proof -
  have "0 < targets"
    using assms(1) by (auto simp: plan_counts_def split: if_splits)
  moreover have "even_share (unat rows) targets i < 2 ^ 64" if "i < targets" for i
    using that even_share_le [of targets i "unat rows"] unsigned_less [of rows, where ?'a = nat] by simp
  ultimately show ?thesis
    using assms plan_counts_even [of targets rows] by (auto simp: unat_as_u64 simp del: unsigned_of_nat)
qed

lemma plan_counts_explicit:
  "requested \<noteq> [] \<Longrightarrow> plan_counts rows targets requested = Inr counts \<longleftrightarrow>
     targets \<noteq> 0 \<and> counts = requested \<and> length requested = targets \<and> sum_list requested = rows"
  by (auto simp: plan_counts_def Let_def)

lemma plan_counts_length: "plan_counts rows targets requested = Inr counts \<Longrightarrow> length counts = targets"
  by (auto simp: plan_counts_def Let_def split: if_splits)

lemma plan_counts_error:
  "plan_counts rows targets requested = Inl e \<Longrightarrow> st_code e = InvalidArgument \<and> is_named (st_message e)"
  by (auto simp: plan_counts_def Let_def split: if_splits)

section \<open>Properties\<close>

text \<open>
  C6. Binding: shards become one collection exactly when there is at least one of them and any two
  agree on dimension, bit width and every bit of the calibration pair; the binding then carries the
  shards in table order. Otherwise the refusal is a failed precondition with a stable name.
\<close>

theorem bind_iff_agreement:
  "case bind g shards of
     Inr p \<Rightarrow> shards \<noteq> [] \<and> list_all (\<lambda>a. list_all (agrees a) shards) shards \<and>
       pinned_generation p = g \<and> pinned_shards p = shards \<and> pinned_rows p = total_rows shards
   | Inl e \<Rightarrow> (shards = [] \<or> list_ex (\<lambda>a. \<not> agrees (hd shards) a) shards) \<and>
       st_code e = FailedPrecondition \<and> is_named (st_message e)"
proof (cases "bind g shards")
  case (Inr p)
  then have "shards \<noteq> []" "pinned_generation p = g" "pinned_shards p = shards"
      "pinned_rows p = total_rows shards"
    by (auto simp: bind_Inr_iff)
  with Inr show ?thesis
    using bind_pairwise [OF Inr] by (simp add: list_all_iff)
next
  case (Inl e)
  then have "\<nexists>p. bind g shards = Inr p" by simp
  then have "shards = [] \<or> (\<exists>a \<in> set shards. \<not> agrees (hd shards) a)"
    by (auto simp: bind_Inr_iff)
  with Inl show ?thesis
    using bind_Inl_named [OF Inl] by (auto simp: list_ex_iff)
qed

lemma sum_words_wrap: "unat (sum_list ws) = sum_list (map unat ws) mod 2 ^ 64" for ws :: "u64 list"
  by (induction ws) (simp_all add: unat_word_ariths mod_simps)

text \<open>
  Split planning: an accepted plan has one count per target, and the counts add up to the
  source's rows. For the even plan this is exact and the shares differ by at most one; for
  requested counts the code adds 64-bit words, so the sum is the row count only modulo 2^64.
\<close>

theorem plan_counts_total:
  assumes "plan_counts rows targets requested = Inr counts" and "targets < 2 ^ 64"
  shows "length counts = targets \<and> sum_list (map unat counts) mod 2 ^ 64 = unat rows \<and>
    (if requested = []
     then sum_list (map unat counts) = unat rows \<and>
       list_all (\<lambda>c. unat c = unat rows div targets \<or> unat c = unat rows div targets + 1) counts
     else counts = requested)"
proof (cases "requested = []")
  case True
  note even = plan_counts_even_unat [OF assms(1) [unfolded True] assms(2)]
  have "0 < targets"
    using assms(1) by (auto simp: plan_counts_def split: if_splits)
  then have sum: "sum_list (map unat counts) = unat rows"
    using even by (simp add: sum_even_share)
  have "list_all (\<lambda>n. n = unat rows div targets \<or> n = unat rows div targets + 1) (map unat counts)"
    unfolding even by (auto simp: list_all_iff even_share_def)
  then show ?thesis
    using True sum plan_counts_length [OF assms(1)] unsigned_less [of rows, where ?'a = nat]
    by (simp add: list_all_iff)
next
  case False
  then have "counts = requested" "length requested = targets" "sum_list requested = rows"
    using assms(1) plan_counts_explicit by blast+
  with False show ?thesis
    using sum_words_wrap [of requested] by simp
qed

theorem plan_counts_total_witness:
  "plan_counts 10 3 [] = Inr [4, 3, 3] \<and> sum_list (map unat [4, 3, 3 :: u64]) = 10"
proof -
  have plan: "plan_counts 10 3 [] = Inr [4, 3, 3]" by code_simp
  show ?thesis
    using plan plan_counts_total [OF plan] by simp
qed

text \<open>
  The wrap-around in the validation of requested counts is reachable: two counts that no source
  can hold pass for a source of one row.
\<close>

theorem plan_counts_overflow_accepted:
  "plan_counts 1 2 [0x8000000000000000, 0x8000000000000001] =
     Inr [0x8000000000000000, 0x8000000000000001] \<and>
   sum_list (map unat [0x8000000000000000, 0x8000000000000001 :: u64]) \<noteq> unat (1 :: u64)"
  by (simp add: plan_counts_def Let_def)

end
