(* ===== verification/Engine.thy ===== *)
theory Engine
  imports Wire Node_Table
begin

text \<open>
  The vector engine and the open index (\<^verbatim>\<open>Index\<close> in \<^verbatim>\<open>src/src/store.rs\<close>). The turbovec crate is
  not part of the repository: \<open>TurboQuantIndex\<close> and \<open>IdMapIndex\<close> are type variables, and the
  functions the server calls on them are the fields of \<open>engine\<close>, an argument of every definition
  that uses them; the search functions panic on malformed input, which is \<open>None\<close>. \<open>raw_parts_law\<close> is the documented behaviour of the raw-parts accessors that row
  transfer relies on: an index built from parts gives those parts back, and the packed codes of an
  index hold \<open>bit_width * dim / 8\<close> bytes per row.
\<close>

datatype calibration_state = Uncalibrated | Calibrated | OtherCalibration

record ('q, 'm) engine =
  q_len :: "'q \<Rightarrow> nat"
  q_dim_opt :: "'q \<Rightarrow> nat option"
  q_bit_width :: "'q \<Rightarrow> nat"
  q_packed_codes :: "'q \<Rightarrow> bytes"
  q_scales :: "'q \<Rightarrow> f32 list"
  q_tqplus_shift :: "'q \<Rightarrow> f32 list"
  q_tqplus_scale :: "'q \<Rightarrow> f32 list"
  q_calibration_state :: "'q \<Rightarrow> calibration_state"
  q_from_parts :: "nat option \<Rightarrow> nat \<Rightarrow> nat \<Rightarrow> bytes \<Rightarrow> f32 list \<Rightarrow> f32 list \<Rightarrow> f32 list \<Rightarrow> string + 'q"
  q_new :: "nat \<Rightarrow> nat \<Rightarrow> string + 'q"
  q_new_lazy :: "nat \<Rightarrow> string + 'q"
  q_add_2d :: "'q \<Rightarrow> f32 list \<Rightarrow> nat \<Rightarrow> string + 'q"
  q_search :: "'q \<Rightarrow> f32 list \<Rightarrow> nat \<Rightarrow> bool list option \<Rightarrow> (f32 list \<times> int list) list option"
  m_len :: "'m \<Rightarrow> nat"
  m_dim_opt :: "'m \<Rightarrow> nat option"
  m_bit_width :: "'m \<Rightarrow> nat"
  m_calibration_state :: "'m \<Rightarrow> calibration_state"
  m_contains :: "'m \<Rightarrow> u64 \<Rightarrow> bool"
  m_new :: "nat \<Rightarrow> nat \<Rightarrow> string + 'm"
  m_new_lazy :: "nat \<Rightarrow> string + 'm"
  m_add_with_ids_2d :: "'m \<Rightarrow> f32 list \<Rightarrow> nat \<Rightarrow> u64 list \<Rightarrow> string + 'm"
  m_remove :: "'m \<Rightarrow> u64 \<Rightarrow> bool \<times> 'm"
  m_search :: "'m \<Rightarrow> f32 list \<Rightarrow> nat \<Rightarrow> (f32 list \<times> u64 list) option"
  m_search_with_allowlist :: "'m \<Rightarrow> f32 list \<Rightarrow> nat \<Rightarrow> u64 list \<Rightarrow> (string + f32 list \<times> u64 list) option"
  first_invalid_coord :: "f32 list \<Rightarrow> nat \<Rightarrow> (nat \<times> nat \<times> f32) option"

section \<open>The open index\<close>

datatype ('q, 'm) index = Positional 'q | IdMap 'm

definition index_kind :: "('q, 'm) index \<Rightarrow> int" where
  "index_kind ix = (case ix of Positional _ \<Rightarrow> INDEX_KIND_POSITIONAL | IdMap _ \<Rightarrow> INDEX_KIND_ID_MAP)"

definition index_len :: "('q, 'm) engine \<Rightarrow> ('q, 'm) index \<Rightarrow> nat" where
  "index_len eng ix = (case ix of Positional q \<Rightarrow> q_len eng q | IdMap m \<Rightarrow> m_len eng m)"

definition index_is_empty :: "('q, 'm) engine \<Rightarrow> ('q, 'm) index \<Rightarrow> bool" where
  "index_is_empty eng ix \<longleftrightarrow> index_len eng ix = 0"

definition index_dim_opt :: "('q, 'm) engine \<Rightarrow> ('q, 'm) index \<Rightarrow> nat option" where
  "index_dim_opt eng ix = (case ix of Positional q \<Rightarrow> q_dim_opt eng q | IdMap m \<Rightarrow> m_dim_opt eng m)"

definition index_bit_width :: "('q, 'm) engine \<Rightarrow> ('q, 'm) index \<Rightarrow> nat" where
  "index_bit_width eng ix = (case ix of Positional q \<Rightarrow> q_bit_width eng q | IdMap m \<Rightarrow> m_bit_width eng m)"

definition index_calibration_state :: "('q, 'm) engine \<Rightarrow> ('q, 'm) index \<Rightarrow> calibration_state" where
  "index_calibration_state eng ix =
     (case ix of Positional q \<Rightarrow> q_calibration_state eng q | IdMap m \<Rightarrow> m_calibration_state eng m)"

lemmas index_defs =
  index_kind_def index_len_def index_is_empty_def index_dim_opt_def index_bit_width_def
  index_calibration_state_def

text \<open>A \<open>usize\<close> cast to a narrower field (\<open>as u32\<close>): wraps.\<close>

abbreviation as_u32 :: "nat \<Rightarrow> u32" where
  "as_u32 n \<equiv> word_of_nat n"

lemma unat_as_u32: "n < 2 ^ 32 \<Longrightarrow> unat (as_u32 n) = n"
  by (simp add: unat_of_nat take_bit_nat_eq_self)

section \<open>What row transfer relies on\<close>

definition bytes_per_row :: "('q, 'm) engine \<Rightarrow> 'q \<Rightarrow> nat \<Rightarrow> nat" where
  "bytes_per_row eng q dim = q_bit_width eng q * (dim div 8)"

text \<open>The shape of an index with a bound dim, as the raw-parts accessors document it.\<close>

definition well_shaped :: "('q, 'm) engine \<Rightarrow> 'q \<Rightarrow> bool" where
  "well_shaped eng q \<longleftrightarrow>
     (case q_dim_opt eng q of
        None \<Rightarrow> True
      | Some dim \<Rightarrow>
          length (q_packed_codes eng q) = q_len eng q * bytes_per_row eng q dim \<and>
          length (q_scales eng q) = q_len eng q \<and>
          dim < 2 ^ 32 \<and> q_bit_width eng q < 2 ^ 32 \<and> q_len eng q < 2 ^ 64)"

text \<open>\<open>from_parts\<close> keeps the parts it is given.\<close>

definition raw_parts_law :: "('q, 'm) engine \<Rightarrow> bool" where
  "raw_parts_law eng \<longleftrightarrow>
     (\<forall>dim bw n packed scales shift scale q.
        q_from_parts eng dim bw n packed scales shift scale = Inr q \<longrightarrow>
        q_dim_opt eng q = dim \<and> q_bit_width eng q = bw \<and> q_len eng q = n \<and>
        q_packed_codes eng q = packed \<and> q_scales eng q = scales \<and>
        q_tqplus_shift eng q = shift \<and> q_tqplus_scale eng q = scale)"

lemma raw_parts:
  assumes "raw_parts_law eng" and "q_from_parts eng dim bw n packed scales shift scale = Inr q"
  shows "q_dim_opt eng q = dim" "q_bit_width eng q = bw" "q_len eng q = n"
    "q_packed_codes eng q = packed" "q_scales eng q = scales"
    "q_tqplus_shift eng q = shift" "q_tqplus_scale eng q = scale"
  using assms unfolding raw_parts_law_def by blast+

end
