(* ===== verification/Row_Transfer.thy ===== *)
theory Row_Transfer
  imports Engine Binding
begin

text \<open>
  Moving rows between servers as encoded codes: \<^verbatim>\<open>export_range\<close>, \<^verbatim>\<open>export_block\<close>, the framing
  loop of \<^verbatim>\<open>export_rows\<close>, \<^verbatim>\<open>ImportBuilder\<close> and the frame loop of \<^verbatim>\<open>import_rows\<close> in
  \<^verbatim>\<open>src/src/service.rs\<close>. The specification is a row as the triple of its code bytes, its scale
  and its label; the lemmas show that an export is the requested range of rows cut into frames,
  that an import is the concatenation of the rows it received or a named refusal, and that the two
  compose to the identity on rows.
\<close>

definition MAX_EXPORT_FRAME_BYTES :: nat where
  "MAX_EXPORT_FRAME_BYTES = 2 * 1024 * 1024"

text \<open>\<open>&xs[lo..hi]\<close>; \<open>None\<close> is the panic.\<close>

definition slice :: "nat \<Rightarrow> nat \<Rightarrow> 'a list \<Rightarrow> 'a list option" where
  "slice lo hi xs = (if lo \<le> hi \<and> hi \<le> length xs then Some (take (hi - lo) (drop lo xs)) else None)"

section \<open>Exporting\<close>

definition export_range :: "('q, 'm) engine \<Rightarrow> 'q \<Rightarrow> u64 \<Rightarrow> u64 \<Rightarrow> status + (nat \<times> nat)" where
  "export_range eng q start cnt =
     (case to_usize start of
        None \<Rightarrow> Inl (invalid ROW_COUNT_MISMATCH [Lit ''start '', num64 start, Lit '' is out of range''])
      | Some s \<Rightarrow>
     (case to_usize cnt of
        None \<Rightarrow> Inl (invalid ROW_COUNT_MISMATCH [Lit ''count '', num64 cnt, Lit '' is out of range''])
      | Some c \<Rightarrow>
          if q_len eng q < s then
            Inl (invalid ROW_COUNT_MISMATCH
              [Lit ''start '', num s, Lit '' is past the end of an index holding '', num (q_len eng q), Lit '' rows''])
          else
            (let rows = (if c = 0 then q_len eng q - s else c) in
             case checked_add_usize s rows of
               None \<Rightarrow> Inl (invalid ROW_COUNT_MISMATCH [Lit ''export range overflowed''])
             | Some past \<Rightarrow>
                 if q_len eng q < past then
                   Inl (invalid ROW_COUNT_MISMATCH
                     [Lit ''rows '', num s, Lit ''..'', num past, Lit '' run past an index holding '',
                      num (q_len eng q), Lit '' rows''])
                 else Inr (s, rows))))"

definition no_dim :: status where
  "no_dim = precondition ROW_COUNT_MISMATCH
     [Lit ''ExportRows needs an index with a bound dim; this one has never held a row'']"

definition export_labels :: "u64 list option \<Rightarrow> nat \<Rightarrow> nat \<Rightarrow> u64 list option" where
  "export_labels labels start rows =
     (case labels of
        Some table \<Rightarrow> slice start (start + rows) table
      | None \<Rightarrow> Some (map as_u64 [start..<start + rows]))"

definition export_block ::
    "('q, 'm) engine \<Rightarrow> 'q \<Rightarrow> u64 list option \<Rightarrow> u64 \<Rightarrow> u64 \<Rightarrow> status failure + row_block" where
  "export_block eng q labels start cnt =
     rbind (checked (export_range eng q start cnt)) (\<lambda>(s, rows).
       case q_dim_opt eng q of
         None \<Rightarrow> Inl (Failed no_dim)
       | Some dim \<Rightarrow>
           (let b = bytes_per_row eng q dim in
            case (slice (s * b) ((s + rows) * b) (q_packed_codes eng q),
                  slice s (s + rows) (q_scales eng q), export_labels labels s rows) of
              (Some codes, Some scales, Some names) \<Rightarrow>
                Inr \<lparr>block_dim = as_u32 dim, block_bit_width = as_u32 (q_bit_width eng q),
                     block_rows = as_u64 rows, block_packed_codes = codes, block_scales = scales,
                     block_shift = q_tqplus_shift eng q, block_scale = q_tqplus_scale eng q,
                     block_labels = names\<rparr>
            | _ \<Rightarrow> Inl Panic))"

text \<open>Rows per frame: the frame budget less the calibration pair, at least one row.\<close>

definition rows_per_frame :: "('q, 'm) engine \<Rightarrow> 'q \<Rightarrow> nat \<Rightarrow> nat" where
  "rows_per_frame eng q dim =
     max ((MAX_EXPORT_FRAME_BYTES - dim * 8) div max (bytes_per_row eng q dim + 12) 1) 1"

text \<open>
  The blocks sent before the stream ends, and how it ends: \<open>None\<close> is a clean end. A panic drops
  the sender, so the receiver sees a clean but truncated stream.
\<close>

function export_loop ::
    "('q, 'm) engine \<Rightarrow> 'q \<Rightarrow> u64 list option \<Rightarrow> nat \<Rightarrow> nat \<Rightarrow> nat \<Rightarrow> nat
     \<Rightarrow> row_block list \<times> status failure option" where
  "export_loop eng q labels frame start rows offset =
     (if offset < rows then
        (let cnt = min (max frame 1) (rows - offset) in
         case export_block eng q labels (as_u64 (start + offset)) (as_u64 cnt) of
           Inl e \<Rightarrow> ([], Some e)
         | Inr block \<Rightarrow>
             (case export_loop eng q labels frame start rows (offset + cnt) of
                (blocks, e) \<Rightarrow> (block # blocks, e)))
      else ([], None))"
  by pat_completeness auto

termination
  by (relation "measure (\<lambda>(_, _, _, _, _, rows, offset). rows - offset)") auto

declare export_loop.simps [simp del]

definition export_rows ::
    "('q, 'm) engine \<Rightarrow> ('q, 'm) index \<Rightarrow> u64 list option \<Rightarrow> u64 \<Rightarrow> u64 \<Rightarrow> row_block list \<times> status failure option" where
  "export_rows eng ix labels start cnt =
     (case ix of
        IdMap _ \<Rightarrow> ([], Some (Failed (precondition POSITIONAL_INDEX_REQUIRED
          [Lit ''ExportRows needs a POSITIONAL index; turbovec's IdMapIndex does not expose the packed codes or the calibration pair this call reads''])))
      | Positional q \<Rightarrow>
          (case export_range eng q start cnt of
             Inl e \<Rightarrow> ([], Some (Failed e))
           | Inr (s, rows) \<Rightarrow>
               (case q_dim_opt eng q of
                  None \<Rightarrow> ([], Some (Failed no_dim))
                | Some dim \<Rightarrow>
                    if rows = 0 then
                      (case export_block eng q labels (as_u64 s) 0 of
                         Inl e \<Rightarrow> ([], Some e)
                       | Inr block \<Rightarrow> ([block], None))
                    else export_loop eng q labels (rows_per_frame eng q dim) s rows 0)))"

section \<open>Importing\<close>

record import_builder =
  ib_expected_rows :: nat
  ib_head :: "row_block option"
  ib_blocks :: nat
  ib_rows :: nat
  ib_packed :: bytes
  ib_scales :: "f32 list"
  ib_labels :: "u64 list"

definition builder_new :: "nat \<Rightarrow> import_builder" where
  "builder_new expected =
     \<lparr>ib_expected_rows = expected, ib_head = None, ib_blocks = 0, ib_rows = 0,
      ib_packed = [], ib_scales = [], ib_labels = []\<rparr>"

lemma builder_new_sel [simp]:
  "ib_expected_rows (builder_new n) = n" "ib_head (builder_new n) = None" "ib_rows (builder_new n) = 0"
  "ib_packed (builder_new n) = []" "ib_scales (builder_new n) = []" "ib_labels (builder_new n) = []"
  by (simp_all add: builder_new_def)

definition block_pair :: "row_block \<Rightarrow> f32 list \<times> f32 list" where
  "block_pair b = (block_shift b, block_scale b)"

text \<open>The comparison with the first block.\<close>

definition check_head :: "row_block option \<Rightarrow> nat \<Rightarrow> row_block \<Rightarrow> status option" where
  "check_head head bi block =
     (case head of
        None \<Rightarrow> None
      | Some h \<Rightarrow>
          if block_dim block \<noteq> block_dim h then
            Some (precondition DIMENSION_MISMATCH
              [Lit ''block 0 carries dim '', num (unat (block_dim h)), Lit '' and block '', num bi,
               Lit '' carries dim '', num (unat (block_dim block))])
          else if block_bit_width block \<noteq> block_bit_width h then
            Some (precondition BIT_WIDTH_MISMATCH
              [Lit ''block 0 is '', num (unat (block_bit_width h)), Lit ''-bit and block '', num bi,
               Lit '' is '', num (unat (block_bit_width block)), Lit ''-bit''])
          else
            map_option (\<lambda>detail. precondition MIXED_CALIBRATION
              ([Lit ''block 0 and block '', num bi, Lit '' were encoded under different pairs: ''] @ detail))
              (calibration_difference (block_pair h) (block_pair block)))"

text \<open>The block without its rows, kept as the head.\<close>

definition head_of :: "row_block \<Rightarrow> row_block" where
  "head_of block =
     block\<lparr>block_rows := 0, block_packed_codes := [], block_scales := [], block_labels := []\<rparr>"

definition builder_push :: "import_builder \<Rightarrow> row_block \<Rightarrow> status + import_builder" where
  "builder_push ib block =
     (case check_head (ib_head ib) (ib_blocks ib) block of
        Some e \<Rightarrow> Inl e
      | None \<Rightarrow>
     (case to_usize (block_rows block) of
        None \<Rightarrow> Inl (invalid ROW_COUNT_MISMATCH
          [Lit ''block '', num (ib_blocks ib), Lit '' claims '', num64 (block_rows block), Lit '' rows, which is out of range''])
      | Some rows \<Rightarrow>
          if length (block_scales block) \<noteq> rows \<or> length (block_labels block) \<noteq> rows then
            Inl (invalid ROW_COUNT_MISMATCH
              [Lit ''block '', num (ib_blocks ib), Lit '' claims '', num rows, Lit '' rows but carries '',
               num (length (block_scales block)), Lit '' scales and '', num (length (block_labels block)), Lit '' labels''])
          else
            (case checked_add_usize (ib_rows ib) rows of
               None \<Rightarrow> Inl (invalid ROW_COUNT_MISMATCH [Lit ''import row count overflowed''])
             | Some next_rows \<Rightarrow>
                 if ib_expected_rows ib < next_rows then
                   Inl (invalid ROW_COUNT_MISMATCH
                     [Lit ''import declared '', num (ib_expected_rows ib), Lit '' rows but received at least '', num next_rows])
                 else
                   Inr (ib\<lparr>ib_head := (case ib_head ib of None \<Rightarrow> Some (head_of block) | Some h \<Rightarrow> Some h),
                           ib_rows := next_rows, ib_blocks := Suc (ib_blocks ib),
                           ib_packed := ib_packed ib @ block_packed_codes block,
                           ib_scales := ib_scales ib @ block_scales block,
                           ib_labels := ib_labels ib @ block_labels block\<rparr>))))"

definition builder_finish :: "('q, 'm) engine \<Rightarrow> import_builder \<Rightarrow> status + ('q \<times> u64 list)" where
  "builder_finish eng ib =
     (case ib_head ib of
        None \<Rightarrow> Inl (invalid ROW_COUNT_MISMATCH [Lit ''ImportRows needs at least one row block''])
      | Some head \<Rightarrow>
          if ib_rows ib \<noteq> ib_expected_rows ib then
            Inl (invalid ROW_COUNT_MISMATCH
              [Lit ''import declared '', num (ib_expected_rows ib), Lit '' rows but received '', num (ib_rows ib)])
          else
            (case q_from_parts eng (Some (unat (block_dim head))) (unat (block_bit_width head)) (ib_rows ib)
                    (ib_packed ib) (ib_scales ib) (block_shift head) (block_scale head) of
               Inl e \<Rightarrow> Inl (invalid_argument [Lit ''row blocks do not form an index: '', Lit e])
             | Inr q \<Rightarrow> Inr (q, ib_labels ib)))"

text \<open>The frames after the first: a block each, no second start, no empty payload.\<close>

datatype import_payload = ImportStart u64 | ImportBlock row_block

fun push_frames :: "import_builder \<Rightarrow> (status + import_payload option) list \<Rightarrow> status + import_builder" where
  "push_frames ib [] = Inr ib"
| "push_frames ib (frame # frames) =
     rbind frame (\<lambda>payload.
       case payload of
         Some (ImportBlock block) \<Rightarrow> rbind (builder_push ib block) (\<lambda>ib'. push_frames ib' frames)
       | _ \<Rightarrow> Inl (invalid_argument [Lit ''ImportRowsStart must appear exactly once and first'']))"

text \<open>\<open>import_rows\<close> up to the registration of the finished index.\<close>

definition import_stream ::
    "('q, 'm) engine \<Rightarrow> (status + import_payload option) list \<Rightarrow> status + ('q \<times> u64 list)" where
  "import_stream eng frames =
     (case frames of
        [] \<Rightarrow> Inl (invalid_argument [Lit ''empty import stream''])
      | first # rest \<Rightarrow>
          rbind first (\<lambda>payload.
            case payload of
              Some (ImportStart expected) \<Rightarrow>
                (case to_usize expected of
                   None \<Rightarrow> Inl (invalid ROW_COUNT_MISMATCH [Lit ''expected row count is out of range''])
                 | Some n \<Rightarrow> rbind (push_frames (builder_new n) rest) (builder_finish eng))
            | _ \<Rightarrow> Inl (invalid_argument [Lit ''first import frame must be ImportRowsStart''])))"

section \<open>An export is a range of rows\<close>

definition sub :: "nat \<Rightarrow> nat \<Rightarrow> 'a list \<Rightarrow> 'a list" where
  "sub a n xs = take n (drop a xs)"

lemma sub_0 [simp]: "sub a 0 xs = []"
  by (simp add: sub_def)

lemma sub_add: "sub a (m + n) xs = sub a m xs @ sub (a + m) n xs"
  by (simp add: sub_def take_add add.commute)

lemma length_sub [simp]: "a + n \<le> length xs \<Longrightarrow> length (sub a n xs) = n"
  by (simp add: sub_def)

lemma sub_all: "length xs = n \<Longrightarrow> sub 0 n xs = xs"
  by (simp add: sub_def)

lemma slice_sub: "a + n \<le> length xs \<Longrightarrow> slice a (a + n) xs = Some (sub a n xs)"
  by (simp add: slice_def sub_def)

text \<open>The labels of an index: its table, or its slots.\<close>

definition labels_of :: "('q, 'm) engine \<Rightarrow> 'q \<Rightarrow> u64 list option \<Rightarrow> u64 list" where
  "labels_of eng q labels = (case labels of Some table \<Rightarrow> table | None \<Rightarrow> map as_u64 [0..<q_len eng q])"

definition labels_fit :: "('q, 'm) engine \<Rightarrow> 'q \<Rightarrow> u64 list option \<Rightarrow> bool" where
  "labels_fit eng q labels \<longleftrightarrow> (case labels of None \<Rightarrow> True | Some table \<Rightarrow> length table = q_len eng q)"

lemma length_labels_of: "labels_fit eng q labels \<Longrightarrow> length (labels_of eng q labels) = q_len eng q"
  by (simp add: labels_of_def labels_fit_def split: option.splits)

text \<open>The block that holds rows \<open>a\<close> to \<open>a + n\<close> of an index.\<close>

definition block_of :: "('q, 'm) engine \<Rightarrow> 'q \<Rightarrow> nat \<Rightarrow> u64 list option \<Rightarrow> nat \<Rightarrow> nat \<Rightarrow> row_block" where
  "block_of eng q dim labels a n =
     \<lparr>block_dim = as_u32 dim, block_bit_width = as_u32 (q_bit_width eng q), block_rows = as_u64 n,
      block_packed_codes = sub (a * bytes_per_row eng q dim) (n * bytes_per_row eng q dim) (q_packed_codes eng q),
      block_scales = sub a n (q_scales eng q),
      block_shift = q_tqplus_shift eng q, block_scale = q_tqplus_scale eng q,
      block_labels = sub a n (labels_of eng q labels)\<rparr>"

lemma export_labels_sub:
  assumes "labels_fit eng q labels" and "a + n \<le> q_len eng q"
  shows "export_labels labels a n = Some (sub a n (labels_of eng q labels))"
  using assms
  by (auto simp: export_labels_def labels_fit_def labels_of_def slice_sub sub_def take_map drop_map
      split: option.splits)

lemma export_range_ok:
  assumes "a + n \<le> q_len eng q" and "q_len eng q < 2 ^ 64" and "0 < n \<or> a = q_len eng q"
  shows "export_range eng q (as_u64 a) (as_u64 n) = Inr (a, n)"
proof -
  have "unat (as_u64 a) = a" "unat (as_u64 n) = n"
    using assms by (simp_all add: unat_as_u64)
  then show ?thesis
    using assms
    by (auto simp: export_range_def Let_def checked_add_usize_def usize_limit_def simp del: unsigned_of_nat)
qed

lemma export_range_Inr:
  assumes "export_range eng q start cnt = Inr (a, n)"
  shows "a = unat start \<and> a + n \<le> q_len eng q \<and> n = (if cnt = 0 then q_len eng q - a else unat cnt)"
  using assms
  by (auto simp: export_range_def Let_def unat_eq_0 split: if_splits option.splits)

lemma export_block_ok:
  assumes shape: "well_shaped eng q" and dim: "q_dim_opt eng q = Some dim" and fit: "labels_fit eng q labels"
    and range: "a + n \<le> q_len eng q" and n: "0 < n \<or> a = q_len eng q"
  shows "export_block eng q labels (as_u64 a) (as_u64 n) = Inr (block_of eng q dim labels a n)"
proof -
  let ?b = "bytes_per_row eng q dim"
  have lens: "length (q_packed_codes eng q) = q_len eng q * ?b" "length (q_scales eng q) = q_len eng q"
      "q_len eng q < 2 ^ 64"
    using shape dim by (simp_all add: well_shaped_def)
  have "(a + n) * ?b \<le> q_len eng q * ?b"
    using range by (rule mult_le_mono1)
  then have "slice (a * ?b) ((a + n) * ?b) (q_packed_codes eng q) =
      Some (sub (a * ?b) (n * ?b) (q_packed_codes eng q))"
    using slice_sub [of "a * ?b" "n * ?b" "q_packed_codes eng q"] lens by (simp add: add_mult_distrib)
  moreover have "slice a (a + n) (q_scales eng q) = Some (sub a n (q_scales eng q))"
    using range lens by (simp add: slice_sub)
  ultimately show ?thesis
    using export_range_ok [OF range lens(3) n] export_labels_sub [OF fit range] dim
    by (simp add: export_block_def block_of_def Let_def)
qed

text \<open>The frames of an export: consecutive ranges, each of at least one row and at most \<open>frame\<close>.\<close>

function frames :: "nat \<Rightarrow> nat \<Rightarrow> nat \<Rightarrow> (nat \<times> nat) list" where
  "frames frame a n =
     (if n = 0 then [] else (a, min (max frame 1) n) # frames frame (a + min (max frame 1) n) (n - min (max frame 1) n))"
  by pat_completeness auto

termination
  by (relation "measure (\<lambda>(_, _, n). n)") auto

declare frames.simps [simp del]

lemma export_loop_frames:
  assumes "well_shaped eng q" and "q_dim_opt eng q = Some dim" and "labels_fit eng q labels"
    and "start + rows \<le> q_len eng q"
  shows "export_loop eng q labels frame start rows offset =
    (map (\<lambda>(a, n). block_of eng q dim labels a n) (frames frame (start + offset) (rows - offset)), None)"
  using assms
proof (induction eng q labels frame start rows offset rule: export_loop.induct)
  case (1 eng q labels frame start rows offset)
  let ?n = "min (max frame 1) (rows - offset)"
  show ?case
  proof (cases "offset < rows")
    case True
    then have block: "export_block eng q labels (as_u64 (start + offset)) (as_u64 ?n) =
        Inr (block_of eng q dim labels (start + offset) ?n)"
      using 1 by (intro export_block_ok) auto
    have "export_loop eng q labels frame start rows (offset + ?n) =
        (map (\<lambda>(a, n). block_of eng q dim labels a n)
          (frames frame (start + (offset + ?n)) (rows - (offset + ?n))), None)"
      using "1.IH" [OF True refl block] 1 by blast
    then show ?thesis
      using True block
      by (subst export_loop.simps, subst frames.simps) (simp add: Let_def add.assoc)
  next
    case False
    then show ?thesis
      by (subst export_loop.simps, subst frames.simps) simp
  qed
qed

lemma frames_concat:
  "concat (map (\<lambda>(a, n). sub (a * b) (n * b) xs) (frames frame a n)) = sub (a * b) (n * b) xs"
proof (induction frame a n rule: frames.induct)
  case (1 frame a n)
  show ?case
  proof (cases "n = 0")
    case True
    then show ?thesis by (simp add: frames.simps)
  next
    case False
    let ?m = "min (max frame 1) n"
    have "n * b = ?m * b + (n - ?m) * b"
      by (simp flip: add_mult_distrib)
    then show ?thesis
      using 1 [OF False] False sub_add [of "a * b" "?m * b" "(n - ?m) * b" xs]
      by (subst frames.simps) (simp add: add_mult_distrib)
  qed
qed

lemma frames_sum: "sum_list (map snd (frames frame a n)) = n"
proof (induction frame a n rule: frames.induct)
  case (1 frame a n)
  then show ?case by (cases "n = 0") (subst frames.simps, simp)+
qed

lemma frames_bounds: "(a', m) \<in> set (frames frame a n) \<Longrightarrow> 0 < m \<and> m \<le> max frame 1 \<and> a \<le> a' \<and> a' + m \<le> a + n"
proof (induction frame a n rule: frames.induct)
  case (1 frame a n)
  then show ?case
    by (subst (asm) (2) frames.simps) (fastforce split: if_splits)
qed

section \<open>An import is the concatenation of its blocks\<close>

definition same_shape :: "row_block \<Rightarrow> row_block \<Rightarrow> bool" where
  "same_shape a b \<longleftrightarrow>
     block_dim a = block_dim b \<and> block_bit_width a = block_bit_width b \<and> block_pair a = block_pair b"

definition block_consistent :: "row_block \<Rightarrow> bool" where
  "block_consistent b \<longleftrightarrow>
     length (block_scales b) = unat (block_rows b) \<and> length (block_labels b) = unat (block_rows b)"

definition total_block_rows :: "row_block list \<Rightarrow> nat" where
  "total_block_rows bs = sum_list (map (\<lambda>b. unat (block_rows b)) bs)"

lemma total_block_rows_simps [simp]:
  "total_block_rows [] = 0"
  "total_block_rows (b # bs) = unat (block_rows b) + total_block_rows bs"
  by (simp_all add: total_block_rows_def)

lemma check_head_None: "check_head head bi b = None \<longleftrightarrow> (\<forall>h. head = Some h \<longrightarrow> same_shape h b)"
  by (auto simp: check_head_def same_shape_def calibration_difference_None split: option.splits)

lemma same_shape_head_of [simp]: "same_shape (head_of a) b = same_shape a b"
  by (simp add: same_shape_def head_of_def block_pair_def)

definition absorb_block :: "import_builder \<Rightarrow> row_block \<Rightarrow> import_builder" where
  "absorb_block ib b =
     ib\<lparr>ib_head := Some (case ib_head ib of None \<Rightarrow> head_of b | Some h \<Rightarrow> h),
        ib_rows := ib_rows ib + unat (block_rows b), ib_blocks := Suc (ib_blocks ib),
        ib_packed := ib_packed ib @ block_packed_codes b, ib_scales := ib_scales ib @ block_scales b,
        ib_labels := ib_labels ib @ block_labels b\<rparr>"

lemma builder_push_Inr:
  assumes "ib_expected_rows ib < 2 ^ 64"
  shows "builder_push ib b = Inr ib' \<longleftrightarrow>
    (\<forall>h. ib_head ib = Some h \<longrightarrow> same_shape h b) \<and> block_consistent b \<and>
    ib_rows ib + unat (block_rows b) \<le> ib_expected_rows ib \<and> ib' = absorb_block ib b"
proof (cases "check_head (ib_head ib) (ib_blocks ib) b")
  case None
  then show ?thesis
    using assms check_head_None [of "ib_head ib" "ib_blocks ib" b]
    by (auto simp: builder_push_def block_consistent_def absorb_block_def checked_add_usize_def
        usize_limit_def split: option.splits if_splits)
next
  case (Some e)
  then have "\<not> (\<forall>h. ib_head ib = Some h \<longrightarrow> same_shape h b)"
    using check_head_None [of "ib_head ib" "ib_blocks ib" b] by auto
  with Some show ?thesis
    by (simp add: builder_push_def)
qed

abbreviation block_frame :: "row_block \<Rightarrow> status + import_payload option" where
  "block_frame b \<equiv> Inr (Some (ImportBlock b))"

lemma absorb_block_expected [simp]: "ib_expected_rows (absorb_block ib b) = ib_expected_rows ib"
  by (simp add: absorb_block_def)

lemma push_frames_blocks:
  assumes "ib_expected_rows ib < 2 ^ 64"
  shows "push_frames ib (map block_frame bs) = Inr ib' \<longleftrightarrow>
    (case (ib_head ib, bs) of
       (Some h, _) \<Rightarrow> list_all (same_shape h) bs
     | (None, b # _) \<Rightarrow> list_all (same_shape b) bs
     | (None, []) \<Rightarrow> True) \<and>
    list_all block_consistent bs \<and> (bs = [] \<or> ib_rows ib + total_block_rows bs \<le> ib_expected_rows ib) \<and>
    ib' = fold (\<lambda>b ib. absorb_block ib b) bs ib"
  using assms
proof (induction bs arbitrary: ib)
  case Nil
  then show ?case by (auto split: option.splits)
next
  case (Cons b bs)
  have head: "ib_head (absorb_block ib b) = Some (case ib_head ib of None \<Rightarrow> head_of b | Some h \<Rightarrow> h)"
    and rows: "ib_rows (absorb_block ib b) = ib_rows ib + unat (block_rows b)"
    by (simp_all add: absorb_block_def)
  have ss: "same_shape b b" by (simp add: same_shape_def)
  have "push_frames ib (map block_frame (b # bs)) = Inr ib' \<longleftrightarrow>
      (\<forall>h. ib_head ib = Some h \<longrightarrow> same_shape h b) \<and> block_consistent b \<and>
      ib_rows ib + unat (block_rows b) \<le> ib_expected_rows ib \<and>
      push_frames (absorb_block ib b) (map block_frame bs) = Inr ib'"
    using builder_push_Inr [OF Cons.prems] by (auto simp: rbind_Inr_iff)
  also have "\<dots> \<longleftrightarrow> (\<forall>h. ib_head ib = Some h \<longrightarrow> same_shape h b) \<and> block_consistent b \<and>
      ib_rows ib + unat (block_rows b) \<le> ib_expected_rows ib \<and>
      list_all (same_shape (case ib_head ib of None \<Rightarrow> head_of b | Some h \<Rightarrow> h)) bs \<and>
      list_all block_consistent bs \<and>
      (bs = [] \<or> ib_rows ib + unat (block_rows b) + total_block_rows bs \<le> ib_expected_rows ib) \<and>
      ib' = fold (\<lambda>b ib. absorb_block ib b) (b # bs) ib"
    using Cons.IH [of "absorb_block ib b"] Cons.prems by (simp add: head rows)
  finally show ?case
    using ss by (cases "ib_head ib"; cases bs) (auto simp: list_all_iff)
qed

lemma fold_absorb:
  "ib_expected_rows (fold (\<lambda>b ib. absorb_block ib b) bs ib) = ib_expected_rows ib"
  "ib_rows (fold (\<lambda>b ib. absorb_block ib b) bs ib) = ib_rows ib + total_block_rows bs"
  "ib_packed (fold (\<lambda>b ib. absorb_block ib b) bs ib) = ib_packed ib @ concat (map block_packed_codes bs)"
  "ib_scales (fold (\<lambda>b ib. absorb_block ib b) bs ib) = ib_scales ib @ concat (map block_scales bs)"
  "ib_labels (fold (\<lambda>b ib. absorb_block ib b) bs ib) = ib_labels ib @ concat (map block_labels bs)"
  "ib_head ib = Some h \<Longrightarrow> ib_head (fold (\<lambda>b ib. absorb_block ib b) bs ib) = Some h"
  by (induction bs arbitrary: ib) (simp_all add: absorb_block_def)

lemma import_stream_Inr:
  "import_stream eng (Inr (Some (ImportStart expected)) # map block_frame bs) = Inr (q, labels) \<longleftrightarrow>
     (\<exists>b rest. bs = b # rest \<and> list_all (same_shape b) bs \<and>
        q_from_parts eng (Some (unat (block_dim b))) (unat (block_bit_width b)) (unat expected)
          (concat (map block_packed_codes bs)) (concat (map block_scales bs)) (block_shift b) (block_scale b) = Inr q) \<and>
     list_all block_consistent bs \<and> total_block_rows bs = unat expected \<and>
     labels = concat (map block_labels bs)"
proof -
  let ?ib = "builder_new (unat expected)"
  let ?fin = "fold (\<lambda>b ib. absorb_block ib b) bs ?ib"
  have lt: "ib_expected_rows ?ib < 2 ^ 64"
    using unsigned_less [of expected, where ?'a = nat] by (simp add: builder_new_def)
  have stream: "import_stream eng (Inr (Some (ImportStart expected)) # map block_frame bs) = Inr (q, labels) \<longleftrightarrow>
      (\<exists>ib'. push_frames ?ib (map block_frame bs) = Inr ib' \<and> builder_finish eng ib' = Inr (q, labels))"
    by (simp add: import_stream_def rbind_Inr_iff)
  show ?thesis
  proof (cases bs)
    case Nil
    then show ?thesis
      unfolding stream by (simp add: builder_finish_def)
  next
    case (Cons b rest)
    have head: "ib_head ?fin = Some (head_of b)"
      using fold_absorb(6) [of "absorb_block ?ib b" "head_of b" rest]
      by (simp add: Cons absorb_block_def builder_new_def)
    have "builder_finish eng ?fin = Inr (q, labels) \<longleftrightarrow>
        total_block_rows bs = unat expected \<and> labels = concat (map block_labels bs) \<and>
        q_from_parts eng (Some (unat (block_dim b))) (unat (block_bit_width b)) (total_block_rows bs)
          (concat (map block_packed_codes bs)) (concat (map block_scales bs)) (block_shift b) (block_scale b) = Inr q"
      by (auto simp: builder_finish_def head fold_absorb head_of_def split: sum.splits)
    then show ?thesis
      unfolding stream push_frames_blocks [OF lt]
      by (auto simp: Cons)
  qed
qed

section \<open>A concrete engine\<close>

text \<open>An engine that keeps its parts, to evaluate the hypotheses on.\<close>

record raw_index =
  raw_dim :: "nat option"
  raw_bits :: nat
  raw_len :: nat
  raw_codes :: bytes
  raw_scales :: "f32 list"
  raw_shift :: "f32 list"
  raw_scale :: "f32 list"

definition raw_from_parts ::
    "nat option \<Rightarrow> nat \<Rightarrow> nat \<Rightarrow> bytes \<Rightarrow> f32 list \<Rightarrow> f32 list \<Rightarrow> f32 list \<Rightarrow> string + raw_index" where
  "raw_from_parts dim bw n codes scales shift scale =
     (if (case dim of None \<Rightarrow> n = 0 | Some d \<Rightarrow> length codes = n * (bw * (d div 8))) \<and> length scales = n
      then Inr \<lparr>raw_dim = dim, raw_bits = bw, raw_len = n, raw_codes = codes, raw_scales = scales,
                raw_shift = shift, raw_scale = scale\<rparr>
      else Inl ''parts do not line up'')"

definition raw_engine :: "(raw_index, unit) engine" where
  "raw_engine =
     \<lparr>q_len = raw_len, q_dim_opt = raw_dim, q_bit_width = raw_bits, q_packed_codes = raw_codes,
      q_scales = raw_scales, q_tqplus_shift = raw_shift, q_tqplus_scale = raw_scale,
      q_calibration_state = (\<lambda>q. if raw_shift q = [] then Uncalibrated else Calibrated),
      q_from_parts = raw_from_parts,
      q_new = (\<lambda>dim bw. raw_from_parts (Some dim) bw 0 [] [] [] []),
      q_new_lazy = (\<lambda>bw. raw_from_parts None bw 0 [] [] [] []),
      q_add_2d = (\<lambda>q vs dim. if raw_dim q = Some dim \<or> raw_dim q = None then
         Inr (q\<lparr>raw_dim := Some dim, raw_len := raw_len q + length vs div dim,
                raw_codes := raw_codes q @ replicate (length vs div dim * (raw_bits q * (dim div 8))) 0,
                raw_scales := raw_scales q @ replicate (length vs div dim) (F32 0)\<rparr>)
         else Inl ''dim mismatch''),
      q_search = (\<lambda>_ _ _ _. None),
      m_len = (\<lambda>_. 0), m_dim_opt = (\<lambda>_. None), m_bit_width = (\<lambda>_. 4), m_calibration_state = (\<lambda>_. Uncalibrated),
      m_contains = (\<lambda>_ _. False), m_new = (\<lambda>_ _. Inr ()), m_new_lazy = (\<lambda>_. Inr ()),
      m_add_with_ids_2d = (\<lambda>_ _ _ _. Inl ''unsupported''), m_remove = (\<lambda>_ _. (False, ())),
      m_search = (\<lambda>_ _ _. None), m_search_with_allowlist = (\<lambda>_ _ _ _. None), first_invalid_coord = (\<lambda>_ _. None)\<rparr>"

lemma raw_engine_law: "raw_parts_law raw_engine"
  by (auto simp: raw_parts_law_def raw_engine_def raw_from_parts_def split: if_splits)

text \<open>Three rows of dimension 8 at 4 bits: four code bytes each.\<close>

definition raw_example :: raw_index where
  "raw_example =
     \<lparr>raw_dim = Some 8, raw_bits = 4, raw_len = 3, raw_codes = [1, 2, 3, 4, 5, 6, 7, 8, 9, 10, 11, 12],
      raw_scales = [F32 1, F32 2, F32 3], raw_shift = [], raw_scale = []\<rparr>"

lemma raw_example_ok: "well_shaped raw_engine raw_example \<and> q_dim_opt raw_engine raw_example = Some 8"
  by (simp add: well_shaped_def raw_engine_def raw_example_def bytes_per_row_def)

section \<open>Properties\<close>

lemma frames_Nil [simp]: "frames f a n = [] \<longleftrightarrow> n = 0"
  by (subst frames.simps) simp

lemma export_rows_frames:
  assumes shape: "well_shaped eng q" and dim: "q_dim_opt eng q = Some dim" and fit: "labels_fit eng q labels"
    and range: "export_range eng q start cnt = Inr (a, n)"
  shows "export_rows eng (Positional q) labels start cnt =
    (map (\<lambda>(a, n). block_of eng q dim labels a n)
      (if n = 0 then [(a, 0)] else frames (rows_per_frame eng q dim) a n), None)"
proof (cases "n = 0")
  case True
  then have "a = q_len eng q"
    using export_range_Inr [OF range] by (auto split: if_splits simp: unat_eq_0)
  then have "export_block eng q labels (as_u64 a) (as_u64 0) = Inr (block_of eng q dim labels a 0)"
    by (intro export_block_ok [OF shape dim fit]) auto
  with True range dim show ?thesis
    by (simp add: export_rows_def)
next
  case False
  then show ?thesis
    using range dim export_range_Inr [OF range] export_loop_frames [OF shape dim fit, of a n _ 0]
    by (simp add: export_rows_def)
qed

lemma export_blocks_content:
  assumes "well_shaped eng q" and "q_dim_opt eng q = Some dim" and "a + n \<le> q_len eng q" and "labels_fit eng q labels"
    and "bs = map (\<lambda>(a, n). block_of eng q dim labels a n) (if n = 0 then [(a, 0)] else frames f a n)"
  shows "concat (map block_packed_codes bs) = sub (a * bytes_per_row eng q dim) (n * bytes_per_row eng q dim) (q_packed_codes eng q)"
    and "concat (map block_scales bs) = sub a n (q_scales eng q)"
    and "concat (map block_labels bs) = sub a n (labels_of eng q labels)"
    and "total_block_rows bs = n" and "bs \<noteq> []" and "list_all block_consistent bs"
proof -
  let ?fs = "if n = 0 then [(a, 0)] else frames f a n"
  have len: "q_len eng q < 2 ^ 64" "length (q_scales eng q) = q_len eng q"
    using assms(1,2) by (simp_all add: well_shaped_def)
  have bounds: "a' + m \<le> q_len eng q" if "(a', m) \<in> set ?fs" for a' m
    using that assms(3) by (auto split: if_splits dest: frames_bounds)
  have m64: "unat (as_u64 m) = m" if "(a', m) \<in> set ?fs" for a' m
    using bounds [OF that] len by (intro unat_as_u64) simp
  have slices: "concat (map (\<lambda>(a, n). sub (a * b) (n * b) xs) ?fs) = sub (a * b) (n * b) xs" for b and xs :: "'x list"
    using frames_concat [of b xs f a n] by auto
  have rows: "concat (map (\<lambda>(a, n). sub a n xs) ?fs) = sub a n xs" for xs :: "'x list"
    using slices [of 1 xs] by simp
  show "concat (map block_packed_codes bs) = sub (a * bytes_per_row eng q dim) (n * bytes_per_row eng q dim) (q_packed_codes eng q)"
    using slices [of "bytes_per_row eng q dim" "q_packed_codes eng q"]
    by (simp add: assms(5) block_of_def comp_def case_prod_unfold)
  show "concat (map block_scales bs) = sub a n (q_scales eng q)"
    using rows [of "q_scales eng q"] by (simp add: assms(5) block_of_def comp_def case_prod_unfold)
  show "concat (map block_labels bs) = sub a n (labels_of eng q labels)"
    using rows [of "labels_of eng q labels"] by (simp add: assms(5) block_of_def comp_def case_prod_unfold)
  have "map (\<lambda>b. unat (block_rows b)) bs = map snd ?fs"
    unfolding assms(5) using m64 by (auto simp: block_of_def)
  then show "total_block_rows bs = n"
    unfolding total_block_rows_def using frames_sum [of f a n] by auto
  show "bs \<noteq> []"
    by (simp add: assms(5))
  show "list_all block_consistent bs"
    unfolding list_all_iff assms(5)
    using bounds m64 len length_labels_of [OF assms(4)]
    by (auto simp: block_consistent_def block_of_def split del: if_split)
qed

lemma frame_budget:
  assumes "(a', m) \<in> set (if n = 0 then [(a, 0)] else frames (rows_per_frame eng q dim) a n)"
    and "a + n < 2 ^ 64"
  shows "unat (as_u64 m) \<le> 1 \<or> unat (as_u64 m) * (bytes_per_row eng q dim + 12) + dim * 8 \<le> MAX_EXPORT_FRAME_BYTES"
proof (cases "m \<le> 1")
  case True
  then show ?thesis by (auto simp: le_Suc_eq)
next
  case False
  let ?w = "bytes_per_row eng q dim + 12"
  have le: "m \<le> max (rows_per_frame eng q dim) 1" "a' + m \<le> a + n"
    using assms(1) False by (auto split: if_splits dest: frames_bounds)
  then have "m \<le> (MAX_EXPORT_FRAME_BYTES - dim * 8) div ?w"
    using False by (auto simp: rows_per_frame_def max_def split: if_splits)
  then have "m * ?w \<le> MAX_EXPORT_FRAME_BYTES - dim * 8"
    by (metis add_gr_0 less_eq_div_iff_mult_less_eq zero_less_numeral)
  moreover have "X \<le> M - D \<Longrightarrow> 0 < X \<Longrightarrow> X + D \<le> M" for X M D :: nat
    by linarith
  moreover have "0 < m * ?w"
    using False by simp
  ultimately have "m * ?w + dim * 8 \<le> MAX_EXPORT_FRAME_BYTES"
    by blast
  moreover have "unat (as_u64 m) = m"
    using le assms(2) by (intro unat_as_u64) linarith
  ultimately show ?thesis by (simp only: simp_thms)
qed

text \<open>
  C16. Export: on an index whose raw parts have their documented shape, \<open>export_rows\<close> either refuses
  the range by name and sends nothing, or sends a non-empty list of blocks whose codes, scales and
  labels concatenate to exactly the requested range, each under the index's own geometry and
  calibration pair and within the frame budget unless it holds a single row; the slices never panic.
\<close>

theorem export_rows_exact:
  assumes "well_shaped eng q" and "q_dim_opt eng q = Some dim" and "labels_fit eng q labels"
  shows "case export_range eng q start cnt of
      Inl e \<Rightarrow> export_rows eng (Positional q) labels start cnt = ([], Some (Failed e)) \<and> is_named (st_message e)
    | Inr (a, n) \<Rightarrow>
        snd (export_rows eng (Positional q) labels start cnt) = None \<and>
        (let bs = fst (export_rows eng (Positional q) labels start cnt) in
         bs \<noteq> [] \<and>
         concat (map block_packed_codes bs) =
           sub (a * bytes_per_row eng q dim) (n * bytes_per_row eng q dim) (q_packed_codes eng q) \<and>
         concat (map block_scales bs) = sub a n (q_scales eng q) \<and>
         concat (map block_labels bs) = sub a n (labels_of eng q labels) \<and>
         list_all (\<lambda>b. block_dim b = as_u32 dim \<and> block_bit_width b = as_u32 (q_bit_width eng q) \<and>
           block_pair b = (q_tqplus_shift eng q, q_tqplus_scale eng q) \<and>
           (unat (block_rows b) \<le> 1 \<or>
            unat (block_rows b) * (bytes_per_row eng q dim + 12) + dim * 8 \<le> MAX_EXPORT_FRAME_BYTES)) bs)"
proof (cases "export_range eng q start cnt")
  case (Inl e)
  then have "is_named (st_message e)"
    by (auto simp: export_range_def Let_def split: if_splits option.splits)
  with Inl show ?thesis by (simp add: export_rows_def)
next
  case (Inr r)
  then obtain a n where range: "export_range eng q start cnt = Inr (a, n)" by (cases r) auto
  let ?fs = "if n = 0 then [(a, 0)] else frames (rows_per_frame eng q dim) a n"
  let ?bs = "map (\<lambda>(a, n). block_of eng q dim labels a n) ?fs"
  note ex = export_rows_frames [OF assms(1,2,3) range]
  have an: "a + n \<le> q_len eng q" "q_len eng q < 2 ^ 64"
    using export_range_Inr [OF range] assms(1,2) by (auto simp: well_shaped_def)
  have "list_all (\<lambda>b. block_dim b = as_u32 dim \<and> block_bit_width b = as_u32 (q_bit_width eng q) \<and>
       block_pair b = (q_tqplus_shift eng q, q_tqplus_scale eng q) \<and>
       (unat (block_rows b) \<le> 1 \<or>
        unat (block_rows b) * (bytes_per_row eng q dim + 12) + dim * 8 \<le> MAX_EXPORT_FRAME_BYTES)) ?bs"
    unfolding list_all_iff
  proof
    fix b
    assume "b \<in> set ?bs"
    then obtain a' m where "(a', m) \<in> set ?fs" and "b = block_of eng q dim labels a' m"
      unfolding set_map by (elim imageE) (auto split del: if_split)
    with frame_budget [OF this(1)] an
    show "block_dim b = as_u32 dim \<and> block_bit_width b = as_u32 (q_bit_width eng q) \<and>
       block_pair b = (q_tqplus_shift eng q, q_tqplus_scale eng q) \<and>
       (unat (block_rows b) \<le> 1 \<or>
        unat (block_rows b) * (bytes_per_row eng q dim + 12) + dim * 8 \<le> MAX_EXPORT_FRAME_BYTES)"
      by (simp add: block_of_def block_pair_def del: unsigned_of_nat)
  qed
  then show ?thesis
    using export_blocks_content [OF assms(1,2) an(1) assms(3) refl, of "rows_per_frame eng q dim"]
    by (simp only: range sum.case prod.case ex fst_conv snd_conv Let_def) simp
qed

theorem export_rows_exact_witness:
  "concat (map block_packed_codes (fst (export_rows raw_engine (Positional raw_example) (Some [7, 8, 9]) 1 2)))
     = [5, 6, 7, 8, 9, 10, 11, 12]"
proof -
  have range: "export_range raw_engine raw_example 1 2 = Inr (1, 2)" by code_simp
  have "labels_fit raw_engine raw_example (Some [7, 8, 9])" by code_simp
  from export_rows_exact [OF _ _ this, of 8 1 2] raw_example_ok
  have "concat (map block_packed_codes (fst (export_rows raw_engine (Positional raw_example) (Some [7, 8, 9]) 1 2)))
      = sub (1 * bytes_per_row raw_engine raw_example 8) (2 * bytes_per_row raw_engine raw_example 8)
          (q_packed_codes raw_engine raw_example)"
    by (simp add: range Let_def)
  then show ?thesis
    by (simp add: sub_def bytes_per_row_def raw_engine_def raw_example_def)
qed

lemma push_frames_only_blocks: "push_frames ib fs = Inr ib' \<Longrightarrow> \<exists>bs. fs = map block_frame bs"
proof (induction fs arbitrary: ib)
  case (Cons f fs)
  then obtain b ib1 where "f = block_frame b" "push_frames ib1 fs = Inr ib'"
    by (auto elim!: rbind_InrE split: option.splits import_payload.splits)
  with Cons.IH show ?case
    by (metis list.simps(9))
qed simp

text \<open>
  C15. Import: for every stream of frames, well formed or not, an index is built exactly when the
  stream is one start frame followed by at least one block and nothing else, all blocks have the
  same geometry and bit-identical calibration, each carries one scale and one label per row, the
  rows add up to the declared count, and the engine accepts the concatenated parts; the result is
  then that index with the concatenated labels. Nothing else is ever registered.
\<close>

theorem import_accepts_iff:
  "import_stream eng fs = Inr (q, labels) \<longleftrightarrow>
    (\<exists>expected b rest. fs = Inr (Some (ImportStart expected)) # map block_frame (b # rest) \<and>
       list_all (same_shape b) rest \<and> list_all block_consistent (b # rest) \<and>
       total_block_rows (b # rest) = unat expected \<and>
       q_from_parts eng (Some (unat (block_dim b))) (unat (block_bit_width b)) (unat expected)
         (concat (map block_packed_codes (b # rest))) (concat (map block_scales (b # rest)))
         (block_shift b) (block_scale b) = Inr q \<and>
       labels = concat (map block_labels (b # rest)))" (is "?lhs \<longleftrightarrow> ?rhs")
proof
  assume L: ?lhs
  then obtain expected frames where fs: "fs = Inr (Some (ImportStart expected)) # frames"
      "\<exists>ib. push_frames (builder_new (unat expected)) frames = Inr ib"
    by (cases fs) (auto simp: import_stream_def elim!: rbind_InrE split: option.splits import_payload.splits)
  then obtain bs where bs: "frames = map block_frame bs"
    using push_frames_only_blocks by blast
  show ?rhs
    using L [unfolded fs(1) bs import_stream_Inr] fs(1) bs by fastforce
next
  assume ?rhs
  then obtain expected b rest where R: "fs = Inr (Some (ImportStart expected)) # map block_frame (b # rest)"
      "list_all (same_shape b) rest" "list_all block_consistent (b # rest)"
      "total_block_rows (b # rest) = unat expected"
      "q_from_parts eng (Some (unat (block_dim b))) (unat (block_bit_width b)) (unat expected)
         (concat (map block_packed_codes (b # rest))) (concat (map block_scales (b # rest)))
         (block_shift b) (block_scale b) = Inr q"
      "labels = concat (map block_labels (b # rest))"
    by blast
  then show ?lhs
    unfolding R(1) import_stream_Inr by (auto simp: same_shape_def)
qed

lemma export_import:
  assumes shape: "well_shaped eng q" and dim: "q_dim_opt eng q = Some dim" and fit: "labels_fit eng q labels"
    and range: "export_range eng q start cnt = Inr (a, n)"
    and parts: "q_from_parts eng (Some dim) (q_bit_width eng q) n
      (sub (a * bytes_per_row eng q dim) (n * bytes_per_row eng q dim) (q_packed_codes eng q))
      (sub a n (q_scales eng q)) (q_tqplus_shift eng q) (q_tqplus_scale eng q) = Inr q'"
  shows "import_stream eng (Inr (Some (ImportStart (as_u64 n))) #
      map block_frame (fst (export_rows eng (Positional q) labels start cnt))) =
    Inr (q', sub a n (labels_of eng q labels))"
proof -
  let ?fs = "if n = 0 then [(a, 0)] else frames (rows_per_frame eng q dim) a n"
  let ?bs = "map (\<lambda>(a, n). block_of eng q dim labels a n) ?fs"
  have an: "a + n \<le> q_len eng q" "n < 2 ^ 64" "dim < 2 ^ 32" "q_bit_width eng q < 2 ^ 32"
    using export_range_Inr [OF range] shape dim by (auto simp: well_shaped_def)
  note C = export_blocks_content [OF shape dim an(1) fit refl, of "rows_per_frame eng q dim"]
  obtain b rest where bs: "?bs = b # rest"
    using C(5) by (cases ?bs) auto
  have all: "\<forall>c \<in> set ?bs. block_dim c = as_u32 dim \<and> block_bit_width c = as_u32 (q_bit_width eng q) \<and>
      block_shift c = q_tqplus_shift eng q \<and> block_scale c = q_tqplus_scale eng q"
    by (auto simp: block_of_def split del: if_split)
  then have b: "unat (block_dim b) = dim" "unat (block_bit_width b) = q_bit_width eng q"
      "block_shift b = q_tqplus_shift eng q" "block_scale b = q_tqplus_scale eng q"
    using an unfolding bs by (simp_all add: unat_as_u32 del: unsigned_of_nat)
  have "list_all (same_shape b) (b # rest)"
    using all b(3,4) unfolding bs by (auto simp: list_all_iff same_shape_def block_pair_def)
  moreover have "unat (as_u64 n) = n"
    using an by (intro unat_as_u64)
  ultimately show ?thesis
    unfolding export_rows_frames [OF shape dim fit range] fst_conv import_stream_Inr
    using C [unfolded bs] b parts by (simp add: bs del: unsigned_of_nat)
qed

text \<open>
  C14. Round trip of rows: the blocks of an accepted export, framed as an import of that many rows,
  rebuild an index whose packed codes, scales, geometry and calibration pair are bit for bit those
  of the exported range, under the labels of those rows; only the engine itself could refuse them.
\<close>

theorem export_import_roundtrip:
  assumes "raw_parts_law eng" and "well_shaped eng q" and "q_dim_opt eng q = Some dim"
    and "labels_fit eng q labels" and "export_range eng q start cnt = Inr (a, n)"
    and "q_from_parts eng (Some dim) (q_bit_width eng q) n
      (sub (a * bytes_per_row eng q dim) (n * bytes_per_row eng q dim) (q_packed_codes eng q))
      (sub a n (q_scales eng q)) (q_tqplus_shift eng q) (q_tqplus_scale eng q) = Inr q'"
  shows "import_stream eng (Inr (Some (ImportStart (as_u64 n))) #
      map block_frame (fst (export_rows eng (Positional q) labels start cnt))) =
      Inr (q', sub a n (labels_of eng q labels)) \<and>
    q_len eng q' = n \<and> q_dim_opt eng q' = Some dim \<and> q_bit_width eng q' = q_bit_width eng q \<and>
    q_packed_codes eng q' = sub (a * bytes_per_row eng q dim) (n * bytes_per_row eng q dim) (q_packed_codes eng q) \<and>
    q_scales eng q' = sub a n (q_scales eng q) \<and>
    q_tqplus_shift eng q' = q_tqplus_shift eng q \<and> q_tqplus_scale eng q' = q_tqplus_scale eng q"
  using export_import [OF assms(2-6)] raw_parts [OF assms(1,6)] by simp

theorem export_import_roundtrip_witness:
  "map_sum id (\<lambda>(q, l). (raw_codes q, l)) (import_stream raw_engine (Inr (Some (ImportStart (as_u64 2))) #
      map block_frame (fst (export_rows raw_engine (Positional raw_example) None 1 0)))) =
    Inr ([5, 6, 7, 8, 9, 10, 11, 12], [1, 2])"
proof -
  let ?q = "raw_example\<lparr>raw_len := 2, raw_codes := [5, 6, 7, 8, 9, 10, 11, 12], raw_scales := [F32 2, F32 3]\<rparr>"
  have fit: "labels_fit raw_engine raw_example None"
    and range: "export_range raw_engine raw_example 1 0 = Inr (1, 2)"
    and parts: "q_from_parts raw_engine (Some 8) (q_bit_width raw_engine raw_example) 2
      (sub (1 * bytes_per_row raw_engine raw_example 8) (2 * bytes_per_row raw_engine raw_example 8)
        (q_packed_codes raw_engine raw_example))
      (sub 1 2 (q_scales raw_engine raw_example)) (q_tqplus_shift raw_engine raw_example)
      (q_tqplus_scale raw_engine raw_example) = Inr ?q"
    and labels: "sub 1 2 (labels_of raw_engine raw_example None) = [1, 2]"
    by code_simp+
  from export_import_roundtrip [OF raw_engine_law _ _ fit range parts] raw_example_ok labels
  show ?thesis by (simp del: export_rows_def)
qed

end
