(* ===== verification/Label_Filter.thy ===== *)
theory Label_Filter
  imports Wire
begin

text \<open>
  Stable-label filters of a streamed search: \<^verbatim>\<open>validate_label_bitmaps\<close>, \<^verbatim>\<open>label_in_bitmaps\<close> and the
  slot mask built from a filter in \<^verbatim>\<open>src/src/service.rs\<close>. The specification of a list of bitmaps is
  the set of labels it names; the lemmas show which lists are accepted and that the lookup by
  partition point decides membership in that set.
\<close>

section \<open>The code\<close>

text \<open>\<open>u64::div_ceil\<close> by eight.\<close>

definition bytes_for :: "u64 \<Rightarrow> nat" where
  "bytes_for n = (unat n + 7) div 8"

text \<open>The bits of the last byte that lie past the label count.\<close>

definition unused_mask :: "u64 \<Rightarrow> u8" where
  "unused_mask n = NOT (push_bit (unat (n mod 8)) 1 - 1)"

definition has_unused_bits :: "label_bitmap \<Rightarrow> bool" where
  "has_unused_bits b \<longleftrightarrow>
     label_count b mod 8 \<noteq> 0 \<and> bits b \<noteq> [] \<and> last (bits b) AND unused_mask (label_count b) \<noteq> 0"

fun validate_bitmaps_from :: "nat \<Rightarrow> u64 \<Rightarrow> label_bitmap list \<Rightarrow> status + unit" where
  "validate_bitmaps_from position previous_end [] = Inr ()"
| "validate_bitmaps_from position previous_end (b # bs) =
     (if label_count b = 0 then
        Inl (invalid_argument [Lit ''allowed label bitmap '', num position, Lit '' has zero labels''])
      else if length (bits b) \<noteq> bytes_for (label_count b) then
        Inl (invalid_argument
          [Lit ''allowed label bitmap '', num position, Lit '' has '', num (length (bits b)), Lit '' bytes for '',
           num64 (label_count b), Lit '' labels; expected '', num (bytes_for (label_count b))])
      else
        (case checked_add_u64 (base_label b) (label_count b) of
           None \<Rightarrow>
             Inl (invalid_argument [Lit ''allowed label bitmap '', num position, Lit '' range overflows u64''])
         | Some past \<Rightarrow>
             if 0 < position \<and> base_label b < previous_end then
               Inl (invalid_argument
                 [Lit ''allowed label bitmap '', num position, Lit '' overlaps or is out of order''])
             else if has_unused_bits b then
               Inl (invalid_argument
                 [Lit ''allowed label bitmap '', num position, Lit '' has set bits beyond label_count''])
             else validate_bitmaps_from (Suc position) past bs))"

definition validate_label_bitmaps :: "label_bitmap list \<Rightarrow> status + unit" where
  "validate_label_bitmaps bs = validate_bitmaps_from 0 0 bs"

text \<open>
  \<open>partition_point\<close>: the number of leading elements that satisfy the predicate, on a list that
  the predicate partitions (accepted bitmaps are in order).
\<close>

definition partition_point :: "('a \<Rightarrow> bool) \<Rightarrow> 'a list \<Rightarrow> nat" where
  "partition_point p xs = length (takeWhile p xs)"

text \<open>\<open>None\<close> is the panic of the index \<open>bits[offset / 8]\<close>.\<close>

definition label_in_bitmaps :: "label_bitmap list \<Rightarrow> u64 \<Rightarrow> bool option" where
  "label_in_bitmaps bs label =
     (let position = partition_point (\<lambda>b. base_label b \<le> label) bs in
      case (if position = 0 then None else nth_opt bs (position - 1)) of
        None \<Rightarrow> Some False
      | Some b \<Rightarrow>
          (let offset = label - base_label b in
           if label_count b \<le> offset then Some False
           else
             (case to_usize offset of
                None \<Rightarrow> Some False
              | Some off \<Rightarrow>
                  map_option (\<lambda>byte. byte AND push_bit (off mod 8) 1 \<noteq> 0) (nth_opt (bits b) (off div 8)))))"

text \<open>Look up every label of the table; \<open>None\<close> if one lookup panics.\<close>

fun bitmap_mask :: "label_bitmap list \<Rightarrow> u64 list \<Rightarrow> bool list option" where
  "bitmap_mask bs [] = Some []"
| "bitmap_mask bs (l # ls) =
     (case label_in_bitmaps bs l of
        None \<Rightarrow> None
      | Some b \<Rightarrow> map_option ((#) b) (bitmap_mask bs ls))"

text \<open>The slot mask of a filtered scan, over the label table of the index.\<close>

definition allow_mask :: "u64 list \<Rightarrow> label_bitmap list \<Rightarrow> u64 list \<Rightarrow> bool list option" where
  "allow_mask allowed bitmaps labels =
     (if bitmaps = [] then Some (map (\<lambda>l. l \<in> set allowed) labels)
      else bitmap_mask bitmaps labels)"

section \<open>The labels a list of bitmaps names\<close>

definition covers :: "label_bitmap \<Rightarrow> u64 \<Rightarrow> bool" where
  "covers b l \<longleftrightarrow> unat (base_label b) \<le> unat l \<and> unat l < unat (base_label b) + unat (label_count b)"

definition offset_in :: "label_bitmap \<Rightarrow> u64 \<Rightarrow> nat" where
  "offset_in b l = unat l - unat (base_label b)"

definition names_label :: "label_bitmap \<Rightarrow> u64 \<Rightarrow> bool" where
  "names_label b l \<longleftrightarrow> covers b l \<and> bit (bits b ! (offset_in b l div 8)) (offset_in b l mod 8)"

definition bitmap_labels :: "label_bitmap list \<Rightarrow> u64 set" where
  "bitmap_labels bs = {l. \<exists>b \<in> set bs. names_label b l}"

text \<open>A bitmap of a non-empty range below \<open>2^64\<close>, with no bit set outside it.\<close>

definition trailing_clear :: "label_bitmap \<Rightarrow> bool" where
  "trailing_clear b \<longleftrightarrow>
     (\<forall>i. unat (label_count b) \<le> i \<and> i < 8 * length (bits b) \<longrightarrow> \<not> bit (bits b ! (i div 8)) (i mod 8))"

definition bitmap_ok :: "label_bitmap \<Rightarrow> bool" where
  "bitmap_ok b \<longleftrightarrow>
     0 < unat (label_count b) \<and>
     length (bits b) = (unat (label_count b) + 7) div 8 \<and>
     unat (base_label b) + unat (label_count b) < 2 ^ 64 \<and>
     trailing_clear b"

definition before :: "label_bitmap \<Rightarrow> label_bitmap \<Rightarrow> bool" where
  "before a b \<longleftrightarrow> unat (base_label a) + unat (label_count a) \<le> unat (base_label b)"

lemma and_push_bit_iff: "w AND push_bit i 1 \<noteq> 0 \<longleftrightarrow> bit w i" if "i < 8" for w :: u8
proof -
  have "bit (w AND push_bit i 1) n \<longleftrightarrow> n = i \<and> bit w i" for n
    using that by (auto simp: bit_simps)
  then show ?thesis
    by (metis bit_0_eq bit_word_eqI bot_apply bot_bool_def)
qed

lemma unused_mask_bit:
  assumes "unat n mod 8 \<noteq> 0" and "j < 8"
  shows "bit (unused_mask n) j \<longleftrightarrow> unat n mod 8 \<le> j"
proof -
  have eight: "unat (8 :: u64) = 8" by simp
  have "unused_mask n = NOT (mask (unat n mod 8))"
    by (simp add: unused_mask_def mask_eq_exp_minus_1 push_bit_eq_mult unat_mod eight)
  with assms(2) show ?thesis
    by (simp add: bit_simps not_less)
qed

lemma same_byte:
  fixes i n :: nat
  assumes "n \<le> i" and "i < 8 * (n div 8 + 1)"
  shows "i div 8 = n div 8" and "n mod 8 \<le> i mod 8"
proof -
  have "n div 8 \<le> i div 8"
    using assms(1) by (rule div_le_mono)
  moreover have "i div 8 < n div 8 + 1"
    using assms(2) by (intro less_mult_imp_div_less) (simp only: mult.commute)
  ultimately show same: "i div 8 = n div 8" by linarith
  show "n mod 8 \<le> i mod 8"
    using assms(1) div_mult_mod_eq [of i 8] div_mult_mod_eq [of n 8] same by linarith
qed

lemma byte_in_range:
  fixes i n :: nat
  assumes "i < n"
  shows "i div 8 < (n + 7) div 8"
proof -
  have "(i + 8) div 8 \<le> (n + 7) div 8"
    using assms by (intro div_le_mono) linarith
  then show ?thesis by simp
qed

lemma last_byte_clear_iff:
  fixes m :: u8
  assumes len: "length bs = (n + 7) div 8" and n: "n mod 8 \<noteq> 0" and m: "\<And>j. j < 8 \<Longrightarrow> bit m j \<longleftrightarrow> n mod 8 \<le> j"
  shows "last bs AND m = 0 \<longleftrightarrow> (\<forall>i. n \<le> i \<and> i < 8 * length bs \<longrightarrow> \<not> bit (bs ! (i div 8)) (i mod 8))"
proof -
  have l: "length bs = n div 8 + 1"
    unfolding len using n by presburger
  then have ne: "bs \<noteq> []" by auto
  have last: "last bs = bs ! (n div 8)"
    unfolding last_conv_nth [OF ne] l by simp
  have "last bs AND m = 0 \<longleftrightarrow> (\<forall>j < 8. n mod 8 \<le> j \<longrightarrow> \<not> bit (bs ! (n div 8)) j)"
    
  proof
    assume z: "last bs AND m = 0"
    show "\<forall>j < 8. n mod 8 \<le> j \<longrightarrow> \<not> bit (bs ! (n div 8)) j"
    proof safe
      fix j
      assume j: "j < 8" "n mod 8 \<le> j" "bit (bs ! (n div 8)) j"
      then have "bit (last bs AND m) j" by (simp add: bit_and_iff m last)
      then show False by (simp add: z)
    qed
  next
    assume c: "\<forall>j < 8. n mod 8 \<le> j \<longrightarrow> \<not> bit (bs ! (n div 8)) j"
    show "last bs AND m = 0"
    proof (rule bit_word_eqI)
      fix j
      assume "j < LENGTH(8)"
      then show "bit (last bs AND m) j \<longleftrightarrow> bit (0 :: u8) j"
        using c by (auto simp: bit_and_iff m last)
    qed
  qed
  also have "\<dots> \<longleftrightarrow> (\<forall>i. n \<le> i \<and> i < 8 * length bs \<longrightarrow> \<not> bit (bs ! (i div 8)) (i mod 8))"
  proof safe
    fix i
    assume L: "\<forall>j < 8. n mod 8 \<le> j \<longrightarrow> \<not> bit (bs ! (n div 8)) j"
      and i: "n \<le> i" "i < 8 * length bs" "bit (bs ! (i div 8)) (i mod 8)"
    have "i div 8 = n div 8" "n mod 8 \<le> i mod 8"
      using same_byte [of n i] i(1,2) l by simp_all
    then show False
      using L i(3) by (metis mod_less_divisor zero_less_numeral)
  next
    fix j
    assume R: "\<forall>i. n \<le> i \<and> i < 8 * length bs \<longrightarrow> \<not> bit (bs ! (i div 8)) (i mod 8)"
      and j: "j < 8" "n mod 8 \<le> j" "bit (bs ! (n div 8)) j"
    have "n \<le> 8 * (n div 8) + j" "8 * (n div 8) + j < 8 * length bs"
      using j(1,2) div_mult_mod_eq [of n 8] by (linarith, simp add: l)
    with R have "\<not> bit (bs ! ((8 * (n div 8) + j) div 8)) ((8 * (n div 8) + j) mod 8)" by blast
    with j(1,3) show False by simp
  qed
  finally show ?thesis .
qed

lemma bitmap_ok_last:
  assumes "length (bits b) = bytes_for (label_count b)"
  shows "has_unused_bits b \<longleftrightarrow>
    \<not> trailing_clear b"
proof (cases "unat (label_count b) mod 8 = 0")
  case True
  then have "label_count b mod 8 = 0"
    by (simp add: word_eq_iff_unsigned unat_mod flip: unat_eq_0)
  moreover have "8 * length (bits b) = unat (label_count b)"
    using True assms by (simp add: bytes_for_def) presburger
  ultimately show ?thesis by (simp add: trailing_clear_def has_unused_bits_def)
next
  case False
  then have "label_count b mod 8 \<noteq> 0" "bits b \<noteq> []"
    using assms by (auto simp: unat_mod bytes_for_def simp flip: unat_eq_0) 
  then show ?thesis
    using last_byte_clear_iff [OF assms [unfolded bytes_for_def] False unused_mask_bit [OF False]]
    by (simp add: trailing_clear_def has_unused_bits_def)
qed

lemma validate_bitmaps_from_Inr:
  "validate_bitmaps_from position prev bs = Inr () \<longleftrightarrow>
     list_all bitmap_ok bs \<and>
     (bs = [] \<or> position = 0 \<or> unat prev \<le> unat (base_label (hd bs))) \<and> sorted_wrt before bs"
proof (induction position prev bs rule: validate_bitmaps_from.induct)
  case (1 position prev)
  then show ?case by simp
next
  case (2 position prev b bs)
  let ?fin = "base_label b + label_count b"
  have ok: "bitmap_ok b \<longleftrightarrow> label_count b \<noteq> 0 \<and> length (bits b) = bytes_for (label_count b) \<and>
      checked_add_u64 (base_label b) (label_count b) = Some ?fin \<and>
      \<not> has_unused_bits b"
    unfolding bitmap_ok_def bytes_for_def [symmetric]
    by (rule iffI; elim conjE; intro conjI)
      (simp_all add: bitmap_ok_last checked_add_u64_def unat_gt_0 split: if_splits)
  show ?case
  proof (cases "bitmap_ok b \<and> (position = 0 \<or> unat prev \<le> unat (base_label b))")
    case True
    then have e: "checked_add_u64 (base_label b) (label_count b) = Some ?fin" using ok by simp
    then have past: "unat ?fin = unat (base_label b) + unat (label_count b)"
      by (rule checked_add_u64_Some)
    have "validate_bitmaps_from position prev (b # bs) = validate_bitmaps_from (Suc position) ?fin bs"
      using True ok by (auto simp: word_less_nat_alt)
    also have "\<dots> = Inr () \<longleftrightarrow> list_all bitmap_ok bs \<and> (bs = [] \<or> before b (hd bs)) \<and> sorted_wrt before bs"
    proof -
      have "before b (hd bs) \<longleftrightarrow> unat ?fin \<le> unat (base_label (hd bs))"
        by (simp only: before_def past)
      then show ?thesis
        using 2 [OF _ _ e] True ok by (simp only: word_less_nat_alt) auto
    qed
    also have "\<dots> \<longleftrightarrow> list_all bitmap_ok bs \<and> (\<forall>c \<in> set bs. before b c) \<and> sorted_wrt before bs"
      by (cases bs) (auto simp: before_def)
    finally show ?thesis using True by auto
  next
    case False
    then show ?thesis
      using ok by (auto simp: word_less_nat_alt split: option.splits if_splits
          simp: checked_add_u64_def)
  qed
qed


section \<open>The lookup\<close>

text \<open>The last bitmap that starts at or below a label is the only one that can cover it.\<close>

lemma lookup_candidate:
  fixes l :: u64
  assumes "sorted_wrt before bs"
  defines "n \<equiv> partition_point (\<lambda>b. base_label b \<le> l) bs"
  shows "(\<exists>b \<in> set bs. names_label b l) \<longleftrightarrow> (0 < n \<and> names_label (bs ! (n - 1)) l)"
    and "0 < n \<Longrightarrow> n - 1 < length bs \<and> base_label (bs ! (n - 1)) \<le> l"
proof -
  have len: "n \<le> length bs"
    by (simp add: n_def partition_point_def length_takeWhile_le)
  have below: "base_label (bs ! i) \<le> l" if "i < n" for i
  proof -
    have "takeWhile (\<lambda>b. base_label b \<le> l) bs ! i \<in> set (takeWhile (\<lambda>b. base_label b \<le> l) bs)"
      using that by (simp add: n_def partition_point_def)
    then show ?thesis
      using that by (auto simp: n_def partition_point_def takeWhile_nth dest: set_takeWhileD)
  qed
  show "0 < n \<Longrightarrow> n - 1 < length bs \<and> base_label (bs ! (n - 1)) \<le> l"
    using len below [of "n - 1"] by auto
  have stop: "\<not> base_label (bs ! n) \<le> l" if "n < length bs"
    using that nth_length_takeWhile [of "\<lambda>b. base_label b \<le> l" bs] by (simp add: n_def partition_point_def)
  have unique: "i = n - 1 \<and> 0 < n" if i: "i < length bs" and cov: "covers (bs ! i) l" for i
  proof -
    have "i < n"
    proof (rule ccontr)
      assume "\<not> i < n"
      then have ni: "n < length bs" and "n = i \<or> n < i"
        using i by linarith+
      then have "n = i \<or> before (bs ! n) (bs ! i)"
        using sorted_wrt_nth_less [OF assms(1), of n i] i by blast
      then have "unat (base_label (bs ! n)) \<le> unat (base_label (bs ! i))"
        by (auto simp: before_def)
      then show False
        using stop [OF ni] cov by (simp add: covers_def word_le_nat_alt)
    qed
    moreover have "\<not> i < n - 1"
    proof
      assume "i < n - 1"
      then have "before (bs ! i) (bs ! (n - 1))" "base_label (bs ! (n - 1)) \<le> l"
        using len below [of "n - 1"] sorted_wrt_nth_less [OF assms(1), of i "n - 1"] by linarith+
      then show False
        using cov by (simp add: covers_def before_def word_le_nat_alt)
    qed
    ultimately show ?thesis by linarith
  qed
  show "(\<exists>b \<in> set bs. names_label b l) \<longleftrightarrow> (0 < n \<and> names_label (bs ! (n - 1)) l)"
  proof
    assume "\<exists>b \<in> set bs. names_label b l"
    then obtain i where i: "i < length bs" "names_label (bs ! i) l"
      by (auto simp: in_set_conv_nth)
    then have "i = n - 1 \<and> 0 < n"
      using unique by (simp add: names_label_def)
    with i(2) show "0 < n \<and> names_label (bs ! (n - 1)) l" by blast
  next
    assume "0 < n \<and> names_label (bs ! (n - 1)) l"
    moreover from this have "bs ! (n - 1) \<in> set bs"
      using len by (intro nth_mem) linarith
    ultimately show "\<exists>b \<in> set bs. names_label b l" by blast
  qed
qed

lemma lookup_bit:
  assumes "bitmap_ok b" and "base_label b \<le> l"
  shows "(if label_count b \<le> l - base_label b then Some False
     else map_option (\<lambda>byte. byte AND push_bit (unat (l - base_label b) mod 8) 1 \<noteq> 0)
        (nth_opt (bits b) (unat (l - base_label b) div 8))) = Some (names_label b l)"
proof -
  have off: "unat (l - base_label b) = offset_in b l"
    unfolding offset_in_def using assms(2) by (rule unat_sub)
  have le: "unat (base_label b) \<le> unat l"
    using assms(2) by (simp add: word_le_nat_alt)
  show ?thesis
  proof (cases "label_count b \<le> l - base_label b")
    case True
    then have "\<not> covers b l"
      using le off unfolding covers_def word_le_nat_alt offset_in_def by linarith
    with True show ?thesis by (simp add: names_label_def)
  next
    case False
    then have lt: "offset_in b l < unat (label_count b)"
      using off unfolding word_le_nat_alt by linarith
    then have cov: "covers b l"
      using le unfolding covers_def offset_in_def by linarith
    have len: "length (bits b) = (unat (label_count b) + 7) div 8"
      using assms(1) by (simp only: bitmap_ok_def)
    have "offset_in b l div 8 < length (bits b)"
      unfolding len using lt by (rule byte_in_range)
    with False cov show ?thesis
      unfolding off by (simp only: names_label_def if_False nth_opt_in_range option.map simp_thms
          and_push_bit_iff [OF mod_less_divisor [OF zero_less_numeral]])
  qed
qed

lemma label_lookup:
  assumes "sorted_wrt before bs" and "list_all bitmap_ok bs"
  shows "label_in_bitmaps bs l = Some (l \<in> bitmap_labels bs)"
proof -
  let ?n = "partition_point (\<lambda>b. base_label b \<le> l) bs"
  note C = lookup_candidate [OF assms(1), of l]
  show ?thesis
  proof (cases "?n = 0")
    case True
    then show ?thesis
      using C(1) by (simp add: label_in_bitmaps_def bitmap_labels_def)
  next
    case False
    then have n: "?n - 1 < length bs" "base_label (bs ! (?n - 1)) \<le> l"
      using C(2) by blast+
    then have "bitmap_ok (bs ! (?n - 1))"
      using assms(2) by (simp add: list_all_length)
    from lookup_bit [OF this n(2)] show ?thesis
      using False n(1) C(1)
      by (simp only: label_in_bitmaps_def bitmap_labels_def Let_def to_usize_Some option.case if_False
          nth_opt_in_range mem_Collect_eq simp_thms) simp
  qed
qed

lemma bitmap_mask_lookup:
  assumes "sorted_wrt before bs" and "list_all bitmap_ok bs"
  shows "bitmap_mask bs ls = Some (map (\<lambda>l. l \<in> bitmap_labels bs) ls)"
  by (induction ls) (simp_all add: label_lookup [OF assms])

section \<open>Properties\<close>

text \<open>
  Which bitmap lists are accepted: every bitmap names a non-empty range that ends below the
  largest label, has exactly the bytes of that range and no bit set past it, and the ranges are
  disjoint and in increasing order. Every refusal is INVALID_ARGUMENT.
\<close>

theorem validate_label_bitmaps_iff:
  "(validate_label_bitmaps bs = Inr () \<longleftrightarrow> list_all bitmap_ok bs \<and> sorted_wrt before bs) \<and>
   (\<exists>e. validate_label_bitmaps bs \<in> {Inr (), Inl e} \<and> st_code e = InvalidArgument)"
proof -
  have "\<exists>e. validate_bitmaps_from p prev bs \<in> {Inr (), Inl e} \<and> st_code e = InvalidArgument" for p prev
    by (induction p prev bs rule: validate_bitmaps_from.induct)
      (auto intro: exI [of _ "invalid_argument []"] split: option.splits)
  from this [of 0 0] show ?thesis
    by (simp add: validate_label_bitmaps_def validate_bitmaps_from_Inr)
qed

text \<open>
  C17. Bitmap lookup is set membership: on accepted bitmaps the partition-point lookup never indexes
  out of range and answers, for every label, whether some bitmap covers it with its bit set; the
  slot mask of a scan is therefore the one the explicit list of the same labels would give.
\<close>

theorem bitmap_mask_exact:
  assumes "validate_label_bitmaps bs = Inr ()"
  shows "label_in_bitmaps bs l = Some (l \<in> bitmap_labels bs) \<and>
    allow_mask [] bs labels = Some (map (\<lambda>l. l \<in> (if bs = [] then {} else bitmap_labels bs)) labels) \<and>
    (set allowed = bitmap_labels bs \<longrightarrow> allow_mask allowed [] labels = allow_mask [] bs labels)"
proof -
  have ok: "list_all bitmap_ok bs" "sorted_wrt before bs"
    using assms by (simp_all add: validate_label_bitmaps_def validate_bitmaps_from_Inr)
  then show ?thesis
    using label_lookup [OF ok(2,1)] bitmap_mask_lookup [OF ok(2,1)]
    by (auto simp: allow_mask_def bitmap_labels_def)
qed

definition example_bitmaps :: "label_bitmap list" where
  "example_bitmaps =
     [\<lparr>base_label = 8, label_count = 3, bits = [5]\<rparr>, \<lparr>base_label = 20, label_count = 9, bits = [0, 1]\<rparr>]"

theorem bitmap_mask_exact_witness:
  "map (\<lambda>l. l \<in> bitmap_labels example_bitmaps) [7, 8, 9, 10, 28] = [False, True, False, True, True]"
proof -
  have ok: "validate_label_bitmaps example_bitmaps = Inr ()"
    and mask: "allow_mask [] example_bitmaps [7, 8, 9, 10, 28] = Some [False, True, False, True, True]"
    by code_simp+
  show ?thesis
    using bitmap_mask_exact [OF ok, of _ "[7, 8, 9, 10, 28]"] mask by (simp add: example_bitmaps_def)
qed

end
