(* ===== verification/Shard_Files.thy ===== *)
theory Shard_Files
  imports Errors
begin

text \<open>
  The file system as the shard store of \<^verbatim>\<open>src/src/store.rs\<close> uses it: paths below the data root,
  directories and files, and the calls of \<^verbatim>\<open>std::fs\<close> with their effects. The environment decides,
  call by call, whether a call succeeds, fails, or is the moment the process dies; a failing or
  interrupted write may leave a prefix and an interrupted removal may have removed a part. A
  definition that runs against every environment therefore covers every fault and every crash
  point of the code it translates.
\<close>

type_synonym path = "string list"

datatype node = Directory | File bytes

type_synonym files = "(path \<times> node) list"

section \<open>Lookup, removal and moves\<close>

abbreviation node_at :: "files \<Rightarrow> path \<Rightarrow> node option" where
  "node_at fs p \<equiv> map_of fs p"

definition put :: "path \<Rightarrow> node \<Rightarrow> files \<Rightarrow> files" where
  "put p x fs = (p, x) # filter (\<lambda>(q, _). q \<noteq> p) fs"

definition remove_tree :: "path \<Rightarrow> files \<Rightarrow> files" where
  "remove_tree p fs = filter (\<lambda>(q, _). \<not> prefix p q) fs"

definition moved :: "path \<Rightarrow> path \<Rightarrow> path \<Rightarrow> path" where
  "moved a b q = (if prefix a q then b @ drop (length a) q else q)"

definition move_tree :: "path \<Rightarrow> path \<Rightarrow> files \<Rightarrow> files" where
  "move_tree a b fs = map (\<lambda>(q, x). (moved a b q, x)) (remove_tree b fs)"

definition has_children :: "path \<Rightarrow> files \<Rightarrow> bool" where
  "has_children p fs = list_ex (\<lambda>(q, _). strict_prefix p q) fs"

text \<open>The names in a directory, in the order the file system lists them.\<close>

definition dir_names :: "path \<Rightarrow> files \<Rightarrow> string list" where
  "dir_names p fs = map (\<lambda>(q, _). last q) (filter (\<lambda>(q, _). q \<noteq> [] \<and> butlast q = p) fs)"

fun make_dirs :: "path \<Rightarrow> path \<Rightarrow> files \<Rightarrow> files" where
  "make_dirs done [] fs = fs"
| "make_dirs done (n # ns) fs =
     make_dirs (done @ [n]) ns (if node_at fs (done @ [n]) = None then put (done @ [n]) Directory fs else fs)"

lemma map_of_filter_key: "map_of (filter (\<lambda>(q, _). P q) fs) p = (if P p then map_of fs p else None)"
  by (induction fs) (auto split: if_splits)

lemma node_at_put [simp]: "node_at (put p x fs) q = (if q = p then Some x else node_at fs q)"
  by (simp add: put_def map_of_filter_key)

lemma node_at_remove_tree [simp]: "node_at (remove_tree p fs) q = (if prefix p q then None else node_at fs q)"
  by (simp add: remove_tree_def map_of_filter_key)

lemma moved_other: "\<not> prefix a q \<Longrightarrow> moved a b q = q"
  by (simp add: moved_def)

lemma moved_under: "moved a b (a @ q) = b @ q"
  by (simp add: moved_def)

lemma map_of_move:
  assumes "\<forall>(q, _) \<in> set fs. \<not> prefix b q" and "\<not> prefix a b" and "\<not> prefix b a"
  shows "map_of (map (\<lambda>(q, x). (moved a b q, x)) fs) p =
    (if prefix b p then map_of fs (a @ drop (length b) p) else if prefix a p then None else map_of fs p)"
  using assms(1)
proof (induction fs)
  case Nil
  then show ?case by simp
next
  case (Cons e fs)
  obtain q x where e: "e = (q, x)" by (cases e)
  have nb: "\<not> prefix b q" using Cons.prems e by simp
  show ?case
  proof (cases "prefix a q")
    case True
    then obtain r where q: "q = a @ r" by (auto simp: prefix_def)
    have "\<not> prefix a p \<or> \<not> prefix b p"
      using assms(2,3) prefix_same_cases by blast
    moreover have "b @ r = p \<longleftrightarrow> prefix b p \<and> drop (length b) p = r"
      by (auto simp: prefix_def)
    ultimately show ?thesis
      using Cons True nb by (auto simp: e q moved_under)
  next
    case False
    then have "q \<noteq> a @ s" for s by auto
    with False show ?thesis
      using Cons nb by (auto simp: e moved_other)
  qed
qed

lemma node_at_move_tree:
  assumes "\<not> prefix a b" and "\<not> prefix b a"
  shows "node_at (move_tree a b fs) p =
    (if prefix b p then node_at fs (a @ drop (length b) p) else if prefix a p then None else node_at fs p)"
proof -
  have "\<not> prefix b (a @ r)" for r
    using assms prefix_same_cases [of b "a @ r" a] by (auto simp: prefix_def)
  then show ?thesis
    unfolding move_tree_def using map_of_move [OF _ assms, of "remove_tree b fs"]
    by (auto simp: remove_tree_def map_of_filter_key)
qed

lemma node_at_make_dirs:
  "node_at (make_dirs pre ns fs) p =
    (if node_at fs p = None \<and> strict_prefix pre p \<and> prefix p (pre @ ns) then Some Directory else node_at fs p)"
proof (induction pre ns fs rule: make_dirs.induct)
  case (1 pre fs)
  then show ?case by (auto simp: strict_prefix_def)
next
  case (2 pre n ns fs)
  have "strict_prefix pre p \<and> prefix p (pre @ n # ns) \<longleftrightarrow>
      p = pre @ [n] \<or> (strict_prefix (pre @ [n]) p \<and> prefix p ((pre @ [n]) @ ns))"
    by (auto simp: strict_prefix_def prefix_def Cons_eq_append_conv append_eq_append_conv2)
  then show ?case
    using 2 by (auto simp: strict_prefix_def)
qed

lemma set_dir_names: "n \<in> set (dir_names p fs) \<longleftrightarrow> node_at fs (p @ [n]) \<noteq> None"
proof -
  have "q \<noteq> [] \<and> butlast q = p \<and> last q = n \<longleftrightarrow> q = p @ [n]" for q
    by (metis append_butlast_last_id butlast_snoc last_snoc snoc_eq_iff_butlast)
  then have "n \<in> set (dir_names p fs) \<longleftrightarrow> p @ [n] \<in> fst ` set fs"
    by (force simp: dir_names_def image_iff)
  then show ?thesis
    by (simp add: map_of_eq_None_iff)
qed

section \<open>The calls\<close>

datatype fs_op =
    MkDirAll path
  | MkDir path
  | Create path
  | Write path bytes
  | Sync path
  | Move path path
  | RemoveAll path
  | Stat path
  | Open path
  | Read path
  | ReadDir path

fun op_effect :: "fs_op \<Rightarrow> files \<Rightarrow> string + files" where
  "op_effect (MkDirAll p) fs =
     (if list_ex (\<lambda>q. node_at fs q \<noteq> None \<and> node_at fs q \<noteq> Some Directory) (tl (prefixes p)) then Inl ''File exists''
      else Inr (make_dirs [] p fs))"
| "op_effect (MkDir p) fs = (if node_at fs p = None then Inr (put p Directory fs) else Inl ''File exists'')"
| "op_effect (Create p) fs = Inr (put p (File []) fs)"
| "op_effect (Write p data) fs = Inr (put p (File data) fs)"
| "op_effect (Move a b) fs =
     (if node_at fs a = None then Inl ''No such file or directory''
      else if has_children b fs then Inl ''Directory not empty''
      else Inr (move_tree a b fs))"
| "op_effect (RemoveAll p) fs =
     (if node_at fs p = None then Inl ''No such file or directory''
      else if node_at fs p \<noteq> Some Directory then Inl ''Not a directory''
      else Inr (remove_tree p fs))"
| "op_effect (Sync p) fs = Inr fs"
| "op_effect (Stat p) fs = (if node_at fs p = None then Inl ''No such file or directory'' else Inr fs)"
| "op_effect (Open p) fs = (if node_at fs p = None then Inl ''No such file or directory'' else Inr fs)"
| "op_effect (Read p) fs = (if node_at fs p = None then Inl ''No such file or directory'' else Inr fs)"
| "op_effect (ReadDir p) fs = Inr fs"

text \<open>
  What a failing or interrupted call may leave: a prefix of the bytes to write, or a tree of which
  \<open>n\<close> entries are gone. Every other call happens entirely or not at all.
\<close>

fun remove_some :: "path \<Rightarrow> nat \<Rightarrow> files \<Rightarrow> files" where
  "remove_some p n [] = []"
| "remove_some p n ((q, x) # fs) =
     (if 0 < n \<and> prefix p q then remove_some p (n - 1) fs else (q, x) # remove_some p n fs)"

fun op_partial :: "fs_op \<Rightarrow> nat \<Rightarrow> files \<Rightarrow> files" where
  "op_partial (Write p data) n fs = put p (File (take n data)) fs"
| "op_partial (RemoveAll p) n fs = remove_some p n fs"
| "op_partial _ n fs = fs"

lemma node_at_remove_some:
  "\<not> prefix p q \<Longrightarrow> node_at (remove_some p n fs) q = node_at fs q"
  by (induction p n fs rule: remove_some.induct) auto

section \<open>Running calls\<close>

datatype outcome = Fine | Fault nat string | Dies nat

text \<open>The environment: the outcome of the \<open>n\<close>-th call.\<close>

type_synonym shard_env = "nat \<Rightarrow> fs_op \<Rightarrow> outcome"

record world =
  w_files :: files
  w_calls :: nat

datatype 'a run = Done 'a | Error message | Crashed

type_synonym 'a action = "world \<Rightarrow> 'a run \<times> world"

definition done_with :: "'a \<Rightarrow> 'a action" where
  "done_with x w = (Done x, w)"

definition fail_with :: "message \<Rightarrow> 'a action" where
  "fail_with m w = (Error m, w)"

definition and_then :: "'a action \<Rightarrow> ('a \<Rightarrow> 'b action) \<Rightarrow> 'b action" where
  "and_then a f w =
     (case a w of
        (Done x, w') \<Rightarrow> f x w'
      | (Error m, w') \<Rightarrow> (Error m, w')
      | (Crashed, w') \<Rightarrow> (Crashed, w'))"

text \<open>A result without calls to the file system.\<close>

definition lift_result :: "message + 'a \<Rightarrow> 'a action" where
  "lift_result r = (case r of Inl m \<Rightarrow> fail_with m | Inr x \<Rightarrow> done_with x)"

definition syscall :: "shard_env \<Rightarrow> fs_op \<Rightarrow> (string \<Rightarrow> message) \<Rightarrow> unit action" where
  "syscall env op msg w =
     (let w' = w\<lparr>w_calls := Suc (w_calls w)\<rparr> in
      case env (w_calls w) op of
        Dies n \<Rightarrow> (Crashed, w'\<lparr>w_files := op_partial op n (w_files w)\<rparr>)
      | Fault n e \<Rightarrow> (Error (msg e), w'\<lparr>w_files := op_partial op n (w_files w)\<rparr>)
      | Fine \<Rightarrow>
          (case op_effect op (w_files w) of
             Inl e \<Rightarrow> (Error (msg e), w')
           | Inr fs \<Rightarrow> (Done (), w'\<lparr>w_files := fs\<rparr>)))"

text \<open>\<open>let _ = ...\<close>: an error is dropped.\<close>

definition ignoring :: "unit action \<Rightarrow> unit action" where
  "ignoring a w = (case a w of (Error _, w') \<Rightarrow> (Done (), w') | r \<Rightarrow> r)"

text \<open>\<open>Path::exists\<close>: a failing lookup answers no.\<close>

definition path_exists :: "shard_env \<Rightarrow> path \<Rightarrow> bool action" where
  "path_exists env p w =
     (case syscall env (Stat p) (\<lambda>_. []) w of
        (Done _, w') \<Rightarrow> (Done True, w')
      | (Error _, w') \<Rightarrow> (Done False, w')
      | (Crashed, w') \<Rightarrow> (Crashed, w'))"

text \<open>The bytes of a file that was opened.\<close>

definition read_bytes :: "shard_env \<Rightarrow> path \<Rightarrow> (string \<Rightarrow> message) \<Rightarrow> bytes action" where
  "read_bytes env p msg =
     and_then (syscall env (Read p) msg) (\<lambda>_ w.
       case node_at (w_files w) p of
         Some (File data) \<Rightarrow> (Done data, w)
       | _ \<Rightarrow> (Error (msg ''Is a directory''), w))"

fun each :: "('a \<Rightarrow> unit action) \<Rightarrow> 'a list \<Rightarrow> unit action" where
  "each f [] = done_with ()"
| "each f (x # xs) = and_then (f x) (\<lambda>_. each f xs)"

section \<open>Reasoning about every fault\<close>

text \<open>
  A triple with two postconditions: \<open>Q\<close> when the action returns a value, \<open>E\<close> on what an error or the
  death of the process leaves.
\<close>

definition triple :: "(files \<Rightarrow> bool) \<Rightarrow> 'a action \<Rightarrow> ('a \<Rightarrow> files \<Rightarrow> bool) \<Rightarrow> (files \<Rightarrow> bool) \<Rightarrow> bool" where
  "triple P a Q E \<longleftrightarrow>
     (\<forall>w. P (w_files w) \<longrightarrow>
        (case a w of (Done x, w') \<Rightarrow> Q x (w_files w') | (_, w') \<Rightarrow> E (w_files w')))"

named_theorems triples \<open>the rules of the triples\<close>

lemma triple_pre: "triple P a Q E \<Longrightarrow> (\<And>fs. P' fs \<Longrightarrow> P fs) \<Longrightarrow> triple P' a Q E"
  by (auto simp: triple_def)

lemma triple_post:
  "triple P a Q E \<Longrightarrow> (\<And>x fs. Q x fs \<Longrightarrow> Q' x fs) \<Longrightarrow> (\<And>fs. E fs \<Longrightarrow> E' fs) \<Longrightarrow> triple P a Q' E'"
  by (fastforce simp: triple_def split: prod.splits run.splits)

lemma triple_done [triples]: "(\<And>fs. P fs \<Longrightarrow> Q x fs) \<Longrightarrow> triple P (done_with x) Q E"
  by (simp add: triple_def done_with_def)

lemma triple_fail [triples]: "(\<And>fs. P fs \<Longrightarrow> E fs) \<Longrightarrow> triple P (fail_with m) Q E"
  by (simp add: triple_def fail_with_def)

lemma triple_then:
  assumes "triple P a R E" and "\<And>x. triple (R x) (f x) Q E"
  shows "triple P (and_then a f) Q E"
  using assms unfolding triple_def and_then_def
  by (fastforce split: prod.splits run.splits)

lemma triple_then_pair:
  assumes "triple P a (\<lambda>(x, y). R x y) E" and "\<And>x y. triple (R x y) (f x y) Q E"
  shows "triple P (and_then a (\<lambda>(x, y). f x y)) Q E"
  using assms by (intro triple_then [OF assms(1)]) (auto split: prod.splits)

text \<open>A condition that does not depend on the files.\<close>

lemma triple_pure: "(C \<Longrightarrow> triple P a Q E) \<Longrightarrow> triple (\<lambda>fs. P fs \<and> C) a Q E"
  by (auto simp: triple_def)

lemma triple_syscall:
  assumes "\<And>fs. P fs \<Longrightarrow> E fs" and "\<And>fs n. P fs \<Longrightarrow> E (op_partial op n fs)"
    and "\<And>fs fs'. P fs \<Longrightarrow> op_effect op fs = Inr fs' \<Longrightarrow> Q () fs'"
  shows "triple P (syscall env op msg) Q E"
  using assms by (auto simp: triple_def syscall_def Let_def split: outcome.splits sum.splits)

lemma triple_lift_result:
  "(\<And>fs. P fs \<Longrightarrow> E fs) \<Longrightarrow> (\<And>x fs. P fs \<Longrightarrow> r = Inr x \<Longrightarrow> Q x fs) \<Longrightarrow> triple P (lift_result r) Q E"
  by (cases r) (auto simp: lift_result_def intro: triples)

lemma triple_path_exists:
  assumes "\<And>fs. P fs \<Longrightarrow> E fs" and "\<And>fs b. P fs \<Longrightarrow> (b \<Longrightarrow> node_at fs p \<noteq> None) \<Longrightarrow> Q b fs"
  shows "triple P (path_exists env p) Q E"
  using assms
  by (auto simp: triple_def path_exists_def syscall_def Let_def split: outcome.splits sum.splits if_splits)

lemma triple_read_bytes:
  assumes "\<And>fs. P fs \<Longrightarrow> E fs" and "\<And>fs data. P fs \<Longrightarrow> node_at fs p = Some (File data) \<Longrightarrow> Q data fs"
  shows "triple P (read_bytes env p msg) Q E"
  using assms
  by (auto simp: triple_def read_bytes_def and_then_def syscall_def Let_def
      split: outcome.splits sum.splits option.splits node.splits if_splits)

lemma triple_ignoring: "triple P a Q E \<Longrightarrow> (\<And>fs. E fs \<Longrightarrow> Q () fs) \<Longrightarrow> triple P (ignoring a) Q E"
  by (fastforce simp: triple_def ignoring_def split: prod.splits run.splits)

lemma triple_files:
  "(\<And>fs0. P fs0 \<Longrightarrow> triple (\<lambda>fs. fs = fs0) (g fs0) Q E) \<Longrightarrow> triple P (\<lambda>w. g (w_files w) w) Q E"
  by (simp add: triple_def)

lemma triple_each: "(\<And>x. x \<in> set xs \<Longrightarrow> triple I (f x) (\<lambda>_. I) I) \<Longrightarrow> triple I (each f xs) (\<lambda>_. I) I"
proof (induction xs)
  case Nil
  then show ?case by (simp add: triple_done)
next
  case (Cons x xs)
  have "triple I (f x) (\<lambda>_. I) I"
    using Cons.prems by simp
  moreover have "triple I (each f xs) (\<lambda>_. I) I"
    using Cons by simp
  ultimately show ?case
    unfolding each.simps by (rule triple_then)
qed

lemma triple_run: "triple P a Q E \<Longrightarrow> P (w_files w) \<Longrightarrow> a w = (Done x, w') \<Longrightarrow> Q x (w_files w')"
  by (fastforce simp: triple_def)

lemma triple_fault: "triple P a Q E \<Longrightarrow> P (w_files w) \<Longrightarrow> a w = (r, w') \<Longrightarrow> (\<And>x. r \<noteq> Done x) \<Longrightarrow> E (w_files w')"
  by (cases r) (fastforce simp: triple_def)+


end
