(* ===== verification/Shard_Store.thy ===== *)
theory Shard_Store
  imports Shard_Files Engine "HOL-Library.AList" "HOL-Library.List_Lexorder"
begin

text \<open>
  The index registry and the durable shard generations of \<^verbatim>\<open>src/src/store.rs\<close>. The registry is
  \<open>index_store\<close>: one map per field, as association lists. The engine's own file format, the CRC
  and \<^verbatim>\<open>serde_json\<close> are not part of the repository and are the fields of \<open>codec\<close>. Names of
  directory entries are valid text; a \<^verbatim>\<open>CURRENT\<close> file is read as ASCII (any other byte is refused,
  as the code refuses it, except for Unicode white space around the number). Lock poisoning, which
  needs a panic under a lock, is not modelled.
\<close>

definition MANIFEST_VERSION :: u32 where
  "MANIFEST_VERSION = 1"

definition CURRENT_FILE :: string where
  "CURRENT_FILE = ''CURRENT''"

definition MANIFEST_FILE :: string where
  "MANIFEST_FILE = ''manifest.json''"

definition INDEX_FILE :: string where
  "INDEX_FILE = ''index.tv''"

definition LABELS_FILE :: string where
  "LABELS_FILE = ''labels.le64''"

record ingest_record =
  ir_operation_id :: string
  ir_expected_len :: u64
  ir_rows :: u64
  ir_len :: u64
  ir_generation :: u64

record shard_manifest =
  sm_version :: u32
  sm_shard_id :: string
  sm_generation :: u64
  sm_kind :: string
  sm_dim :: "nat option"
  sm_bit_width :: nat
  sm_rows :: nat
  sm_calibration_state :: string
  sm_tqplus_shift_bits :: "u32 list"
  sm_tqplus_scale_bits :: "u32 list"
  sm_index_bytes :: u64
  sm_index_crc32 :: u32
  sm_labelled :: bool
  sm_labels_count :: u64
  sm_labels_crc32 :: u32
  sm_last_ingest :: "ingest_record option"

record ('q, 'm) index_store =
  reg_inner :: "(string \<times> ('q, 'm) index) list"
  reg_labels :: "(string \<times> u64 list) list"
  reg_generations :: "(string \<times> u64) list"
  reg_ingests :: "(string \<times> ingest_record) list"
  reg_root :: "string option"

text \<open>What the third-party code does with bytes: index files, manifests, checksums.\<close>

record ('q, 'm) codec =
  write_positional :: "'q \<Rightarrow> bytes"
  load_positional :: "bytes \<Rightarrow> string + 'q"
  write_id_map :: "'m \<Rightarrow> bytes"
  load_id_map :: "bytes \<Rightarrow> string + 'm"
  crc32 :: "bytes \<Rightarrow> u32"
  encode_manifest :: "shard_manifest \<Rightarrow> string + bytes"
  decode_manifest :: "bytes \<Rightarrow> string + shard_manifest"

section \<open>Names and messages\<close>

definition shown :: "string \<Rightarrow> path \<Rightarrow> string" where
  "shown root p = root @ concat (map (\<lambda>n. CHR ''/'' # n) p)"

definition path_error :: "string \<Rightarrow> string \<Rightarrow> path \<Rightarrow> string \<Rightarrow> message" where
  "path_error what root p e = [Lit what, Lit '' '', Lit (shown root p), Lit '': '', Lit e]"

definition is_ascii_alphanumeric :: "char \<Rightarrow> bool" where
  "is_ascii_alphanumeric c \<longleftrightarrow>
     (let n = (of_char c :: nat) in 48 \<le> n \<and> n \<le> 57 \<or> 65 \<le> n \<and> n \<le> 90 \<or> 97 \<le> n \<and> n \<le> 122)"

definition validate_shard_id :: "string \<Rightarrow> message + unit" where
  "validate_shard_id sid =
     (if sid = [] \<or> sid = ''.'' \<or> sid = ''..'' \<or>
         \<not> list_all (\<lambda>c. is_ascii_alphanumeric c \<or> c \<in> set ''-_.'') sid
      then Inl [Lit ''invalid shard id '', Dbg sid, Lit '': use ASCII letters, digits, '.', '_' or '-'']
      else Inr ())"

definition zero_pad :: "nat \<Rightarrow> string \<Rightarrow> string" where
  "zero_pad n s = replicate (n - length s) (CHR ''0'') @ s"

definition generation_name :: "u64 \<Rightarrow> string" where
  "generation_name generation = ''gen-'' @ zero_pad 20 (show_nat (unat generation))"

definition hex_digit :: "nat \<Rightarrow> char" where
  "hex_digit d = (if d < 10 then char_of (48 + d) else char_of (87 + d))"

fun show_hex :: "nat \<Rightarrow> string" where
  "show_hex n = (if n < 16 then [hex_digit n] else show_hex (n div 16) @ [hex_digit (n mod 16)])"

declare show_hex.simps [simp del]

abbreviation hex32 :: "u32 \<Rightarrow> frag" where
  "hex32 w \<equiv> Lit (zero_pad 8 (show_hex (unat w)))"

fun calibration_name :: "calibration_state \<Rightarrow> string" where
  "calibration_name Uncalibrated = ''uncalibrated''"
| "calibration_name Calibrated = ''calibrated''"
| "calibration_name OtherCalibration = ''unknown''"

section \<open>The registry\<close>

definition empty_store :: "string option \<Rightarrow> ('q, 'm) index_store" where
  "empty_store root =
     \<lparr>reg_inner = [], reg_labels = [], reg_generations = [], reg_ingests = [], reg_root = root\<rparr>"

definition store_get :: "string \<Rightarrow> ('q, 'm) index_store \<Rightarrow> ('q, 'm) index option" where
  "store_get sid st = map_of (reg_inner st) sid"

definition store_labels :: "string \<Rightarrow> ('q, 'm) index_store \<Rightarrow> u64 list option" where
  "store_labels sid st = map_of (reg_labels st) sid"

definition store_generation :: "string \<Rightarrow> ('q, 'm) index_store \<Rightarrow> u64 option" where
  "store_generation sid st = map_of (reg_generations st) sid"

definition store_ingest :: "string \<Rightarrow> ('q, 'm) index_store \<Rightarrow> ingest_record option" where
  "store_ingest sid st = map_of (reg_ingests st) sid"

definition set_ingest_record :: "string \<Rightarrow> ingest_record \<Rightarrow> ('q, 'm) index_store \<Rightarrow> ('q, 'm) index_store" where
  "set_ingest_record sid r st = st\<lparr>reg_ingests := AList.update sid r (reg_ingests st)\<rparr>"

definition set_generation :: "string \<Rightarrow> u64 \<Rightarrow> ('q, 'm) index_store \<Rightarrow> ('q, 'm) index_store" where
  "set_generation sid g st = st\<lparr>reg_generations := AList.update sid g (reg_generations st)\<rparr>"

text \<open>The write under an index's lock: the handle's index is replaced in place.\<close>

definition set_index :: "string \<Rightarrow> ('q, 'm) index \<Rightarrow> ('q, 'm) index_store \<Rightarrow> ('q, 'm) index_store" where
  "set_index sid ix st = st\<lparr>reg_inner := AList.update sid ix (reg_inner st)\<rparr>"

definition insert_with_id ::
    "('q, 'm) engine \<Rightarrow> string \<Rightarrow> ('q, 'm) index \<Rightarrow> u64 list option \<Rightarrow> u64 \<Rightarrow> ('q, 'm) index_store
     \<Rightarrow> message + ('q, 'm) index_store" where
  "insert_with_id eng sid ix labels generation st =
     rbind (validate_shard_id sid) (\<lambda>_.
       if (case labels of None \<Rightarrow> False | Some v \<Rightarrow> length v \<noteq> index_len eng ix) then
         Inl [Lit ''shard '', Lit sid, Lit '' has '', num (index_len eng ix), Lit '' rows but '',
              num (case labels of None \<Rightarrow> 0 | Some v \<Rightarrow> length v), Lit '' labels'']
       else if store_get sid st \<noteq> None then Inl [Lit ''duplicate shard id '', Lit sid, Lit '' in data root'']
       else
         (let st' = st\<lparr>reg_inner := AList.update sid ix (reg_inner st)\<rparr>;
              st'' = (case labels of
                        None \<Rightarrow> st'
                      | Some v \<Rightarrow> st'\<lparr>reg_labels := AList.update sid v (reg_labels st')\<rparr>)
          in Inr (set_generation sid generation st'')))"

text \<open>\<open>insert\<close> and \<open>insert_labelled\<close>: the \<open>expect\<close> is a panic; \<open>uuid\<close> is the fresh name.\<close>

definition store_insert ::
    "('q, 'm) engine \<Rightarrow> string \<Rightarrow> ('q, 'm) index \<Rightarrow> u64 list option \<Rightarrow> ('q, 'm) index_store
     \<Rightarrow> status failure + (string \<times> ('q, 'm) index_store)" where
  "store_insert eng uuid ix labels st =
     (case insert_with_id eng uuid ix labels 0 st of
        Inl _ \<Rightarrow> Inl Panic
      | Inr st' \<Rightarrow> Inr (uuid, st'))"

definition forget :: "string \<Rightarrow> ('q, 'm) index_store \<Rightarrow> ('q, 'm) index_store" where
  "forget sid st =
     st\<lparr>reg_labels := AList.delete sid (reg_labels st),
        reg_generations := AList.delete sid (reg_generations st),
        reg_ingests := AList.delete sid (reg_ingests st),
        reg_inner := AList.delete sid (reg_inner st)\<rparr>"

section \<open>Deleting a shard\<close>

definition tombstone_name :: "string \<Rightarrow> string \<Rightarrow> string" where
  "tombstone_name sid uuid = ''.deleted-'' @ sid @ ''-'' @ uuid"

text \<open>The part of \<open>delete\<close> on disk; the answer tells whether the shard had a directory.\<close>

definition delete_files :: "shard_env \<Rightarrow> string \<Rightarrow> string \<Rightarrow> string \<Rightarrow> bool action" where
  "delete_files env uuid root sid =
     and_then (path_exists env [sid]) (\<lambda>found.
       if \<not> found then done_with False
       else
         (let tombstone = [tombstone_name sid uuid] in
          and_then (syscall env (Move [sid] tombstone) (path_error ''tombstone shard'' root [sid])) (\<lambda>_.
          and_then (syscall env (Sync []) (path_error ''sync directory'' root [])) (\<lambda>_.
          and_then (syscall env (RemoveAll tombstone) (path_error ''remove tombstoned shard'' root tombstone)) (\<lambda>_.
          and_then (syscall env (Sync []) (path_error ''sync directory'' root [])) (\<lambda>_.
          done_with True))))))"

definition store_delete ::
    "shard_env \<Rightarrow> string \<Rightarrow> string \<Rightarrow> ('q, 'm) index_store \<Rightarrow> (bool \<times> ('q, 'm) index_store) action" where
  "store_delete env uuid sid st =
     and_then (lift_result (validate_shard_id sid)) (\<lambda>_.
       let live = (store_get sid st \<noteq> None) in
       and_then (case reg_root st of None \<Rightarrow> done_with False | Some root \<Rightarrow> delete_files env uuid root sid)
         (\<lambda>durable. done_with (live \<or> durable \<or> store_get sid st \<noteq> None, forget sid st)))"

section \<open>Persisting a shard\<close>

record persisted_files =
  pf_index_bytes :: u64
  pf_index_crc32 :: u32
  pf_labelled :: bool
  pf_labels_count :: u64
  pf_labels_crc32 :: u32

definition index_kind_name :: "('q, 'm) index \<Rightarrow> string" where
  "index_kind_name ix = (case ix of Positional _ \<Rightarrow> ''positional'' | IdMap _ \<Rightarrow> ''id_map'')"

definition shift_bits :: "('q, 'm) engine \<Rightarrow> ('q, 'm) index \<Rightarrow> u32 list" where
  "shift_bits eng ix = (case ix of Positional q \<Rightarrow> map to_bits (q_tqplus_shift eng q) | IdMap _ \<Rightarrow> [])"

definition scale_bits :: "('q, 'm) engine \<Rightarrow> ('q, 'm) index \<Rightarrow> u32 list" where
  "scale_bits eng ix = (case ix of Positional q \<Rightarrow> map to_bits (q_tqplus_scale eng q) | IdMap _ \<Rightarrow> [])"

definition manifest_for ::
    "('q, 'm) engine \<Rightarrow> string \<Rightarrow> u64 \<Rightarrow> ('q, 'm) index \<Rightarrow> persisted_files \<Rightarrow> ingest_record option
     \<Rightarrow> shard_manifest" where
  "manifest_for eng sid generation ix pf last_ingest =
     \<lparr>sm_version = MANIFEST_VERSION, sm_shard_id = sid, sm_generation = generation,
      sm_kind = index_kind_name ix, sm_dim = index_dim_opt eng ix, sm_bit_width = index_bit_width eng ix,
      sm_rows = index_len eng ix,
      sm_calibration_state = calibration_name (index_calibration_state eng ix),
      sm_tqplus_shift_bits = shift_bits eng ix, sm_tqplus_scale_bits = scale_bits eng ix,
      sm_index_bytes = pf_index_bytes pf, sm_index_crc32 = pf_index_crc32 pf,
      sm_labelled = pf_labelled pf, sm_labels_count = pf_labels_count pf,
      sm_labels_crc32 = pf_labels_crc32 pf, sm_last_ingest = last_ingest\<rparr>"

definition index_bytes :: "('q, 'm) codec \<Rightarrow> ('q, 'm) index \<Rightarrow> bytes" where
  "index_bytes cod ix = (case ix of Positional q \<Rightarrow> write_positional cod q | IdMap m \<Rightarrow> write_id_map cod m)"

definition label_bytes :: "u64 list \<Rightarrow> bytes" where
  "label_bytes labels = concat (map u64_to_le_bytes labels)"

text \<open>
  The buffered writer hands the labels to the file at the latest when it is flushed; a failure of
  a large table may come earlier, under the message \<open>write labels\<close>.
\<close>

definition write_labels ::
    "shard_env \<Rightarrow> ('q, 'm) codec \<Rightarrow> string \<Rightarrow> path \<Rightarrow> u64 list \<Rightarrow> u32 action" where
  "write_labels env cod root p labels =
     and_then (syscall env (Create p) (path_error ''create labels'' root p)) (\<lambda>_.
     and_then (syscall env (Write p (label_bytes labels)) (path_error ''flush labels'' root p)) (\<lambda>_.
     and_then (syscall env (Sync p) (path_error ''sync labels'' root p)) (\<lambda>_.
     done_with (crc32 cod (label_bytes labels)))))"

definition write_synced :: "shard_env \<Rightarrow> string \<Rightarrow> path \<Rightarrow> bytes \<Rightarrow> unit action" where
  "write_synced env root p data =
     and_then (syscall env (Create p) (path_error ''create file'' root p)) (\<lambda>_.
     and_then (syscall env (Write p data) (path_error ''write file'' root p)) (\<lambda>_.
     syscall env (Sync p) (path_error ''sync file'' root p)))"

definition sync_file :: "shard_env \<Rightarrow> string \<Rightarrow> path \<Rightarrow> unit action" where
  "sync_file env root p = syscall env (Sync p) (path_error ''sync file'' root p)"

definition sync_dir :: "shard_env \<Rightarrow> string \<Rightarrow> path \<Rightarrow> unit action" where
  "sync_dir env root p = syscall env (Sync p) (path_error ''sync directory'' root p)"

definition file_size_crc :: "shard_env \<Rightarrow> ('q, 'm) codec \<Rightarrow> string \<Rightarrow> path \<Rightarrow> (u64 \<times> u32) action" where
  "file_size_crc env cod root p =
     and_then (syscall env (Open p) (path_error ''open file for checksum'' root p)) (\<lambda>_.
     and_then (syscall env (Stat p) (path_error ''stat file'' root p)) (\<lambda>_.
     and_then (read_bytes env p (path_error ''read file for checksum'' root p)) (\<lambda>data.
     done_with (as_u64 (length data), crc32 cod data))))"

text \<open>Index, labels and manifest of a new generation, in its temporary directory.\<close>

definition write_contents ::
    "shard_env \<Rightarrow> ('q, 'm) codec \<Rightarrow> ('q, 'm) engine \<Rightarrow> string \<Rightarrow> path \<Rightarrow> string \<Rightarrow> u64 \<Rightarrow> ('q, 'm) index
     \<Rightarrow> u64 list option \<Rightarrow> ingest_record option \<Rightarrow> shard_manifest action" where
  "write_contents env cod eng root temp sid generation ix labels last_ingest =
     (let index_path = temp @ [INDEX_FILE] in
      and_then (syscall env (Write index_path (index_bytes cod ix)) (path_error ''write index'' root index_path)) (\<lambda>_.
      and_then (sync_file env root index_path) (\<lambda>_.
      and_then (file_size_crc env cod root index_path) (\<lambda>(n_bytes, crc).
      and_then
        (case labels of
           Some values \<Rightarrow>
             and_then (write_labels env cod root (temp @ [LABELS_FILE]) values)
               (\<lambda>crc. done_with (as_u64 (length values), crc))
         | None \<Rightarrow> done_with (0, 0)) (\<lambda>(count, labels_crc).
      done_with (manifest_for eng sid generation ix
        \<lparr>pf_index_bytes = n_bytes, pf_index_crc32 = crc, pf_labelled = (labels \<noteq> None),
         pf_labels_count = count, pf_labels_crc32 = labels_crc\<rparr> last_ingest))))))"

text \<open>The manifest, the rename to the generation's own name, and the \<open>CURRENT\<close> pointer.\<close>

definition bytes_of :: "string \<Rightarrow> bytes" where
  "bytes_of s = map (\<lambda>c. word_of_nat (of_char c)) s"

definition current_text :: "u64 \<Rightarrow> bytes" where
  "current_text generation = bytes_of (show_nat (unat generation) @ [CHR 0x0A])"

definition activate_generation ::
    "shard_env \<Rightarrow> ('q, 'm) codec \<Rightarrow> string \<Rightarrow> string \<Rightarrow> path \<Rightarrow> path \<Rightarrow> path \<Rightarrow> u64 \<Rightarrow> shard_manifest \<Rightarrow> unit action" where
  "activate_generation env cod root sid temp final current_temp generation manifest =
     (case encode_manifest cod manifest of
        Inl e \<Rightarrow> fail_with [Lit ''encode manifest for shard '', Lit sid, Lit '': '', Lit e]
      | Inr data \<Rightarrow>
          and_then (write_synced env root (temp @ [MANIFEST_FILE]) data) (\<lambda>_.
          and_then (sync_dir env root temp) (\<lambda>_.
          and_then (syscall env (Move temp final) (path_error ''activate generation directory'' root final)) (\<lambda>_.
          and_then (sync_dir env root [sid]) (\<lambda>_.
          and_then (write_synced env root current_temp (current_text generation)) (\<lambda>_.
          and_then (syscall env (Move current_temp [sid, CURRENT_FILE])
             (path_error ''activate CURRENT pointer'' root [sid, CURRENT_FILE])) (\<lambda>_.
          sync_dir env root [sid])))))))"

definition temp_name :: "u64 \<Rightarrow> string \<Rightarrow> string" where
  "temp_name generation uuid = ''.'' @ generation_name generation @ ''.tmp-'' @ uuid"

definition current_temp_name :: "string \<Rightarrow> string" where
  "current_temp_name uuid = ''.CURRENT.tmp-'' @ uuid"

text \<open>\<open>result.is_err()\<close>: remove the temporary directory, keep the error.\<close>

definition or_cleanup :: "unit action \<Rightarrow> unit action \<Rightarrow> unit action" where
  "or_cleanup a cleanup w =
     (case a w of
        (Error m, w') \<Rightarrow> and_then (ignoring cleanup) (\<lambda>_. fail_with m) w'
      | r \<Rightarrow> r)"

definition write_generation ::
    "shard_env \<Rightarrow> ('q, 'm) codec \<Rightarrow> ('q, 'm) engine \<Rightarrow> string \<Rightarrow> string \<Rightarrow> string \<Rightarrow> string \<Rightarrow> u64
     \<Rightarrow> ('q, 'm) index \<Rightarrow> u64 list option \<Rightarrow> ingest_record option \<Rightarrow> unit action" where
  "write_generation env cod eng temp_uuid current_uuid root sid generation ix labels last_ingest =
     (let final = [sid, generation_name generation]; temp = [sid, temp_name generation temp_uuid] in
      and_then (syscall env (MkDirAll [sid]) (path_error ''create shard directory'' root [sid])) (\<lambda>_.
      and_then (path_exists env final) (\<lambda>found.
        if found then fail_with [Lit ''refusing to overwrite existing generation '', Lit (shown root final)]
        else
          and_then (syscall env (MkDir temp) (path_error ''create temporary generation'' root temp)) (\<lambda>_.
          or_cleanup
            (and_then (write_contents env cod eng root temp sid generation ix labels last_ingest) (\<lambda>manifest.
             activate_generation env cod root sid temp final [sid, current_temp_name current_uuid] generation manifest))
            (syscall env (RemoveAll temp) (\<lambda>_. []))))))"

text \<open>The generation a directory name stands for, if it is older than the previous one.\<close>

definition outdated :: "u64 \<Rightarrow> string \<Rightarrow> bool" where
  "outdated current name =
     (case strip_prefix ''gen-'' name of
        None \<Rightarrow> False
      | Some number \<Rightarrow>
          (case parse_u64 number of
             Inl _ \<Rightarrow> False
           | Inr generation \<Rightarrow> generation < (if current = 0 then 0 else current - 1)))"

text \<open>\<open>cleanup_old_generations\<close>: failures are ignored.\<close>

definition cleanup_old_generations :: "shard_env \<Rightarrow> string \<Rightarrow> u64 \<Rightarrow> unit action" where
  "cleanup_old_generations env sid current =
     ignoring (and_then (syscall env (ReadDir [sid]) (\<lambda>_. [])) (\<lambda>_ w.
       each (\<lambda>name. ignoring (syscall env (RemoveAll [sid, name]) (\<lambda>_. [])))
         (filter (outdated current) (dir_names [sid] (w_files w))) w))"

definition persist ::
    "shard_env \<Rightarrow> ('q, 'm) codec \<Rightarrow> ('q, 'm) engine \<Rightarrow> string \<Rightarrow> string \<Rightarrow> string \<Rightarrow> ('q, 'm) index_store
     \<Rightarrow> (u64 \<times> ('q, 'm) index_store) action" where
  "persist env cod eng temp_uuid current_uuid sid st =
     (case reg_root st of
        None \<Rightarrow> fail_with [Lit ''persistence is disabled: TURBOVEC_DATA_DIR is not configured'']
      | Some root \<Rightarrow>
     (case store_get sid st of
        None \<Rightarrow> fail_with [Lit ''unknown shard id '', Lit sid]
      | Some ix \<Rightarrow>
          (let current = (case store_generation sid st of None \<Rightarrow> 0 | Some g \<Rightarrow> g) in
           case checked_add_u64 current 1 of
             None \<Rightarrow> fail_with [Lit ''generation counter overflow for shard '', Lit sid]
           | Some generation \<Rightarrow>
               and_then (write_generation env cod eng temp_uuid current_uuid root sid generation ix
                   (store_labels sid st) (store_ingest sid st)) (\<lambda>_.
               and_then (cleanup_old_generations env sid generation) (\<lambda>_.
               done_with (generation, set_generation sid generation st))))))"

text \<open>Names in the order of their bytes, as \<open>sort\<close> puts strings and paths.\<close>

definition sort_names :: "string list \<Rightarrow> string list" where
  "sort_names names = sort_key (map (of_char :: char \<Rightarrow> nat)) names"

text \<open>
  Each shard draws its own fresh names. The registry keeps the generations of the shards persisted
  before one fails.
\<close>

fun persist_each ::
    "shard_env \<Rightarrow> ('q, 'm) codec \<Rightarrow> ('q, 'm) engine \<Rightarrow> (string \<Rightarrow> string \<times> string) \<Rightarrow> string list
     \<Rightarrow> ('q, 'm) index_store \<Rightarrow> world \<Rightarrow> (string \<times> u64) list run \<times> ('q, 'm) index_store \<times> world" where
  "persist_each env cod eng uuids [] st w = (Done [], st, w)"
| "persist_each env cod eng uuids (sid # sids) st w =
     (case persist env cod eng (fst (uuids sid)) (snd (uuids sid)) sid st w of
        (Done (g, st'), w') \<Rightarrow>
          (case persist_each env cod eng uuids sids st' w' of
             (Done gs, rest) \<Rightarrow> (Done ((sid, g) # gs), rest)
           | r \<Rightarrow> r)
      | (Error m, w') \<Rightarrow> (Error m, st, w')
      | (Crashed, w') \<Rightarrow> (Crashed, st, w'))"

definition persist_all ::
    "shard_env \<Rightarrow> ('q, 'm) codec \<Rightarrow> ('q, 'm) engine \<Rightarrow> (string \<Rightarrow> string \<times> string)
     \<Rightarrow> ('q, 'm) index_store \<Rightarrow> world \<Rightarrow> (string \<times> u64) list run \<times> ('q, 'm) index_store \<times> world" where
  "persist_all env cod eng uuids st = persist_each env cod eng uuids (sort_names (map fst (reg_inner st))) st"

section \<open>Restoring\<close>

definition text_of :: "bytes \<Rightarrow> string option" where
  "text_of data = (if list_all (\<lambda>b. unat b < 128) data then Some (map (\<lambda>b. char_of (unat b)) data) else None)"

definition read_to_string :: "shard_env \<Rightarrow> path \<Rightarrow> (string \<Rightarrow> message) \<Rightarrow> string action" where
  "read_to_string env p msg =
     and_then (read_bytes env p msg) (\<lambda>data.
       case text_of data of
         None \<Rightarrow> fail_with (msg ''stream did not contain valid UTF-8'')
       | Some s \<Rightarrow> done_with s)"

definition validate_manifest_header :: "shard_manifest \<Rightarrow> string \<Rightarrow> u64 \<Rightarrow> message + unit" where
  "validate_manifest_header manifest sid generation =
     (if sm_version manifest \<noteq> MANIFEST_VERSION then
        Inl [Lit ''shard '', Lit sid, Lit '' manifest version '', num (unat (sm_version manifest)),
             Lit '' is unsupported (expected '', num (unat MANIFEST_VERSION), Lit '')'']
      else if sm_shard_id manifest \<noteq> sid \<or> sm_generation manifest \<noteq> generation then
        Inl [Lit ''manifest identity mismatch for '', Lit sid, Lit '': contains shard '', Dbg (sm_shard_id manifest),
             Lit '' generation '', num64 (sm_generation manifest)]
      else Inr ())"

definition validate_loaded_index ::
    "('q, 'm) engine \<Rightarrow> shard_manifest \<Rightarrow> ('q, 'm) index \<Rightarrow> message + unit" where
  "validate_loaded_index eng manifest ix =
     (if sm_kind manifest \<noteq> index_kind_name ix \<or> sm_dim manifest \<noteq> index_dim_opt eng ix \<or>
         sm_bit_width manifest \<noteq> index_bit_width eng ix \<or> sm_rows manifest \<noteq> index_len eng ix \<or>
         sm_calibration_state manifest \<noteq> calibration_name (index_calibration_state eng ix) then
        Inl [Lit ''loaded shard '', Lit (sm_shard_id manifest),
             Lit '' does not match its manifest shape or calibration state'']
      else
        (case ix of
           Positional q \<Rightarrow>
             if map to_bits (q_tqplus_shift eng q) \<noteq> sm_tqplus_shift_bits manifest \<or>
                map to_bits (q_tqplus_scale eng q) \<noteq> sm_tqplus_scale_bits manifest then
               Inl [Lit ''loaded shard '', Lit (sm_shard_id manifest),
                    Lit '' calibration bits differ from its manifest'']
             else Inr ()
         | IdMap _ \<Rightarrow>
             if sm_tqplus_shift_bits manifest \<noteq> [] \<or> sm_tqplus_scale_bits manifest \<noteq> [] then
               Inl [Lit ''id-mapped shard '', Lit (sm_shard_id manifest),
                    Lit '' unexpectedly carries positional calibration bits'']
             else Inr ()))"

definition verify_file ::
    "shard_env \<Rightarrow> ('q, 'm) codec \<Rightarrow> string \<Rightarrow> path \<Rightarrow> u64 \<Rightarrow> u32 \<Rightarrow> unit action" where
  "verify_file env cod root p n_bytes crc =
     and_then (file_size_crc env cod root p) (\<lambda>(actual_size, actual_crc).
       if actual_size \<noteq> n_bytes \<or> actual_crc \<noteq> crc then
         fail_with [Lit ''index '', Lit (shown root p), Lit '' differs from manifest: bytes '', num64 actual_size,
                    Lit ''/'', num64 n_bytes, Lit '', crc '', hex32 actual_crc, Lit ''/'', hex32 crc]
       else done_with ())"

text \<open>Eight bytes per label; a short read is impossible after the length check.\<close>

fun labels_from :: "bytes \<Rightarrow> u64 list" where
  "labels_from (a # b # c # d # e # f # g # h # rest) = u64_from_le_bytes [a, b, c, d, e, f, g, h] # labels_from rest"
| "labels_from _ = []"

definition checked_mul_u64 :: "u64 \<Rightarrow> nat \<Rightarrow> u64 option" where
  "checked_mul_u64 a n = (if int n * uint a < 2 ^ 64 then Some (of_nat n * a) else None)"

definition read_labels ::
    "shard_env \<Rightarrow> ('q, 'm) codec \<Rightarrow> string \<Rightarrow> path \<Rightarrow> u64 \<Rightarrow> u32 \<Rightarrow> u64 list action" where
  "read_labels env cod root p cnt expected_crc =
     (case checked_mul_u64 cnt 8 of
        None \<Rightarrow> fail_with [Lit ''label byte count overflow in '', Lit (shown root p)]
      | Some expected_bytes \<Rightarrow>
          and_then (syscall env (Stat p) (path_error ''stat labels'' root p)) (\<lambda>_ w.
            let n_bytes = (case node_at (w_files w) p of Some (File data) \<Rightarrow> as_u64 (length data) | _ \<Rightarrow> 0) in
            if n_bytes \<noteq> expected_bytes then
              fail_with [Lit ''labels '', Lit (shown root p), Lit '' has '', num64 n_bytes,
                         Lit '' bytes, manifest expects '', num64 expected_bytes] w
            else
              and_then (syscall env (Open p) (path_error ''open labels'' root p)) (\<lambda>_.
              and_then (read_bytes env p (path_error ''read labels'' root p)) (\<lambda>data.
                if crc32 cod data \<noteq> expected_crc then
                  fail_with [Lit ''labels '', Lit (shown root p), Lit '' checksum '', hex32 (crc32 cod data),
                             Lit '' differs from manifest '', hex32 expected_crc]
                else done_with (labels_from data))) w))"

definition load_index ::
    "shard_env \<Rightarrow> ('q, 'm) codec \<Rightarrow> string \<Rightarrow> string \<Rightarrow> path \<Rightarrow> string \<Rightarrow> ('q, 'm) index action" where
  "load_index env cod root sid p kind =
     (if kind = ''positional'' then
        and_then (read_bytes env p (path_error ''load positional index'' root p)) (\<lambda>data.
          case load_positional cod data of
            Inl e \<Rightarrow> fail_with (path_error ''load positional index'' root p e)
          | Inr q \<Rightarrow> done_with (Positional q))
      else if kind = ''id_map'' then
        and_then (read_bytes env p (path_error ''load id-mapped index'' root p)) (\<lambda>data.
          case load_id_map cod data of
            Inl e \<Rightarrow> fail_with (path_error ''load id-mapped index'' root p e)
          | Inr m \<Rightarrow> done_with (IdMap m))
      else fail_with [Lit ''manifest for shard '', Lit sid, Lit '' has unknown kind '', Dbg kind])"

definition restore_labels ::
    "shard_env \<Rightarrow> ('q, 'm) codec \<Rightarrow> string \<Rightarrow> string \<Rightarrow> path \<Rightarrow> shard_manifest \<Rightarrow> u64 list option action" where
  "restore_labels env cod root sid dir manifest =
     (if sm_labelled manifest then
        and_then (read_labels env cod root (dir @ [LABELS_FILE]) (sm_labels_count manifest) (sm_labels_crc32 manifest))
          (\<lambda>labels. done_with (Some labels))
      else if sm_labels_count manifest \<noteq> 0 \<or> sm_labels_crc32 manifest \<noteq> 0 then
        fail_with [Lit ''unlabelled shard '', Lit sid, Lit '' has non-empty label metadata'']
      else done_with None)"

text \<open>The generation \<open>CURRENT\<close> names: its manifest, index and labels, each checked.\<close>

definition restore_generation ::
    "shard_env \<Rightarrow> ('q, 'm) codec \<Rightarrow> ('q, 'm) engine \<Rightarrow> string \<Rightarrow> string \<Rightarrow> u64
     \<Rightarrow> (('q, 'm) index \<times> u64 list option \<times> ingest_record option) action" where
  "restore_generation env cod eng root sid generation =
     (let dir = [sid, generation_name generation]; manifest_path = dir @ [MANIFEST_FILE];
          index_path = dir @ [INDEX_FILE] in
      and_then (read_bytes env manifest_path (path_error ''read shard manifest'' root manifest_path)) (\<lambda>raw.
        case decode_manifest cod raw of
          Inl e \<Rightarrow> fail_with [Lit ''decode '', Lit (shown root manifest_path), Lit '': '', Lit e]
        | Inr manifest \<Rightarrow>
            and_then (lift_result (validate_manifest_header manifest sid generation)) (\<lambda>_.
            and_then (verify_file env cod root index_path (sm_index_bytes manifest) (sm_index_crc32 manifest)) (\<lambda>_.
            and_then (load_index env cod root sid index_path (sm_kind manifest)) (\<lambda>ix.
            and_then (lift_result (validate_loaded_index eng manifest ix)) (\<lambda>_.
            and_then (restore_labels env cod root sid dir manifest) (\<lambda>labels.
            done_with (ix, labels, sm_last_ingest manifest))))))))"

definition restore_current ::
    "shard_env \<Rightarrow> string \<Rightarrow> string \<Rightarrow> u64 action" where
  "restore_current env root sid =
     (let current_path = [sid, CURRENT_FILE] in
      and_then (read_to_string env current_path (path_error ''read CURRENT pointer'' root current_path)) (\<lambda>text.
        case parse_u64 (trim text) of
          Inl e \<Rightarrow> fail_with [Lit ''parse generation in '', Lit (shown root current_path), Lit '': '',
                             Lit (parse_int_message e)]
        | Inr generation \<Rightarrow> done_with generation))"

definition restore_dir ::
    "shard_env \<Rightarrow> ('q, 'm) codec \<Rightarrow> ('q, 'm) engine \<Rightarrow> string \<Rightarrow> string \<Rightarrow> ('q, 'm) index_store
     \<Rightarrow> ('q, 'm) index_store action" where
  "restore_dir env cod eng root sid st =
     (if strip_prefix ''.deleted-'' sid \<noteq> None then
        and_then (syscall env (RemoveAll [sid]) (path_error ''clean tombstoned shard'' root [sid])) (\<lambda>_. done_with st)
      else
        and_then (lift_result (validate_shard_id sid)) (\<lambda>_.
        and_then (path_exists env [sid, CURRENT_FILE]) (\<lambda>found.
          if \<not> found then done_with st
          else
            and_then (restore_current env root sid) (\<lambda>generation.
            and_then (restore_generation env cod eng root sid generation) (\<lambda>(ix, labels, last_ingest).
            and_then (lift_result (insert_with_id eng sid ix labels generation st)) (\<lambda>st'.
            done_with (case last_ingest of None \<Rightarrow> st' | Some r \<Rightarrow> set_ingest_record sid r st')))))))"

fun restore_dirs ::
    "shard_env \<Rightarrow> ('q, 'm) codec \<Rightarrow> ('q, 'm) engine \<Rightarrow> string \<Rightarrow> string list \<Rightarrow> ('q, 'm) index_store
     \<Rightarrow> ('q, 'm) index_store action" where
  "restore_dirs env cod eng root [] st = done_with st"
| "restore_dirs env cod eng root (sid # sids) st =
     and_then (restore_dir env cod eng root sid st) (restore_dirs env cod eng root sids)"

definition shard_dirs :: "files \<Rightarrow> string list" where
  "shard_dirs fs = sort_names (filter (\<lambda>n. node_at fs [n] = Some Directory) (dir_names [] fs))"

definition restore_all ::
    "shard_env \<Rightarrow> ('q, 'm) codec \<Rightarrow> ('q, 'm) engine \<Rightarrow> string \<Rightarrow> ('q, 'm) index_store \<Rightarrow> ('q, 'm) index_store action" where
  "restore_all env cod eng root st =
     and_then (syscall env (ReadDir []) (path_error ''read data root'' root [])) (\<lambda>_ w.
       restore_dirs env cod eng root (shard_dirs (w_files w)) st w)"

definition store_open ::
    "shard_env \<Rightarrow> ('q, 'm) codec \<Rightarrow> ('q, 'm) engine \<Rightarrow> string \<Rightarrow> ('q, 'm) index_store action" where
  "store_open env cod eng root =
     and_then (syscall env (MkDirAll []) (\<lambda>e. [Lit ''create data root '', Lit root, Lit '': '', Lit e])) (\<lambda>_.
     restore_all env cod eng root (empty_store (Some root)))"

end
