(* ===== verification/Shard_Durability.thy ===== *)
theory Shard_Durability
  imports Shard_Store
begin

text \<open>
  What the shard store promises across restarts. \<open>stored_shard\<close> is the abstract content of the data
  root: the generation, index, labels and ingest record a restart finds for a shard, read off the
  files as a mathematical function. The code refines it: restoring returns exactly that content, a
  persist moves a shard from its old content to the new one with nothing in between, a delete moves
  it to nothing, and neither touches another shard, for every fault of the file system and
  every moment the process may die.
\<close>

section \<open>The abstract content of the data root\<close>

definition file_at :: "files \<Rightarrow> path \<Rightarrow> bytes option" where
  "file_at fs p = (case node_at fs p of Some (File data) \<Rightarrow> Some data | _ \<Rightarrow> None)"

definition current_generation :: "files \<Rightarrow> string \<Rightarrow> u64 option" where
  "current_generation fs sid =
     (case file_at fs [sid, CURRENT_FILE] of
        None \<Rightarrow> None
      | Some data \<Rightarrow>
          (case text_of data of
             None \<Rightarrow> None
           | Some text \<Rightarrow> (case parse_u64 (trim text) of Inl _ \<Rightarrow> None | Inr g \<Rightarrow> Some g)))"

definition index_of_bytes :: "('q, 'm) codec \<Rightarrow> string \<Rightarrow> bytes \<Rightarrow> ('q, 'm) index option" where
  "index_of_bytes cod kind data =
     (if kind = ''positional'' then
        (case load_positional cod data of Inl _ \<Rightarrow> None | Inr q \<Rightarrow> Some (Positional q))
      else if kind = ''id_map'' then
        (case load_id_map cod data of Inl _ \<Rightarrow> None | Inr m \<Rightarrow> Some (IdMap m))
      else None)"

definition labels_of_bytes :: "('q, 'm) codec \<Rightarrow> shard_manifest \<Rightarrow> bytes option \<Rightarrow> u64 list option option" where
  "labels_of_bytes cod manifest data =
     (if sm_labelled manifest then
        (case data of
           None \<Rightarrow> None
         | Some d \<Rightarrow>
             if checked_mul_u64 (sm_labels_count manifest) 8 = Some (as_u64 (length d)) \<and>
                crc32 cod d = sm_labels_crc32 manifest
             then Some (Some (labels_from d)) else None)
      else if sm_labels_count manifest \<noteq> 0 \<or> sm_labels_crc32 manifest \<noteq> 0 then None
      else Some None)"

definition stored_generation ::
    "('q, 'm) codec \<Rightarrow> ('q, 'm) engine \<Rightarrow> string \<Rightarrow> u64 \<Rightarrow> bytes option \<Rightarrow> bytes option \<Rightarrow> bytes option
     \<Rightarrow> (('q, 'm) index \<times> u64 list option \<times> ingest_record option) option" where
  "stored_generation cod eng sid g manifest_data index_data label_data =
     (case (manifest_data, index_data) of
        (Some raw, Some data) \<Rightarrow>
          (case decode_manifest cod raw of
             Inl _ \<Rightarrow> None
           | Inr manifest \<Rightarrow>
               if validate_manifest_header manifest sid g = Inr () \<and>
                  as_u64 (length data) = sm_index_bytes manifest \<and> crc32 cod data = sm_index_crc32 manifest then
                 (case index_of_bytes cod (sm_kind manifest) data of
                    None \<Rightarrow> None
                  | Some ix \<Rightarrow>
                      if validate_loaded_index eng manifest ix = Inr () then
                        map_option (\<lambda>labels. (ix, labels, sm_last_ingest manifest))
                          (labels_of_bytes cod manifest label_data)
                      else None)
               else None)
      | _ \<Rightarrow> None)"

definition stored_at ::
    "('q, 'm) codec \<Rightarrow> ('q, 'm) engine \<Rightarrow> files \<Rightarrow> string \<Rightarrow> u64
     \<Rightarrow> (('q, 'm) index \<times> u64 list option \<times> ingest_record option) option" where
  "stored_at cod eng fs sid g =
     (let dir = [sid, generation_name g] in
      stored_generation cod eng sid g (file_at fs (dir @ [MANIFEST_FILE])) (file_at fs (dir @ [INDEX_FILE]))
        (file_at fs (dir @ [LABELS_FILE])))"

definition stored_shard ::
    "('q, 'm) codec \<Rightarrow> ('q, 'm) engine \<Rightarrow> files \<Rightarrow> string
     \<Rightarrow> (u64 \<times> ('q, 'm) index \<times> u64 list option \<times> ingest_record option) option" where
  "stored_shard cod eng fs sid =
     (case current_generation fs sid of
        None \<Rightarrow> None
      | Some g \<Rightarrow> map_option (Pair g) (stored_at cod eng fs sid g))"

text \<open>The files the content of a shard is read from.\<close>

definition same_content :: "files \<Rightarrow> files \<Rightarrow> string \<Rightarrow> bool" where
  "same_content fs fs' sid \<longleftrightarrow>
     node_at fs' [sid, CURRENT_FILE] = node_at fs [sid, CURRENT_FILE] \<and>
     (\<forall>g x. node_at fs' [sid, generation_name g, x] = node_at fs [sid, generation_name g, x])"

lemma stored_at_cong:
  "(\<And>x. node_at fs' [sid, generation_name g, x] = node_at fs [sid, generation_name g, x]) \<Longrightarrow>
   stored_at cod eng fs' sid g = stored_at cod eng fs sid g"
  by (simp add: stored_at_def file_at_def)

lemma current_generation_cong:
  "node_at fs' [sid, CURRENT_FILE] = node_at fs [sid, CURRENT_FILE] \<Longrightarrow>
   current_generation fs' sid = current_generation fs sid"
  by (simp add: current_generation_def file_at_def)

lemma same_content_stored: "same_content fs fs' sid \<Longrightarrow> stored_shard cod eng fs' sid = stored_shard cod eng fs sid"
  using stored_at_cong [of fs' sid _ fs cod eng] current_generation_cong [of fs' sid fs]
  by (simp add: stored_shard_def same_content_def split: option.splits)

lemma same_content_refl [simp]: "same_content fs fs sid"
  by (simp add: same_content_def)

section \<open>Names\<close>

lemma parse_digits_zeros: "parse_digits 0 (replicate k (CHR ''0'') @ ds) = parse_digits 0 ds"
  by (induction k) (simp_all add: is_digit_def)

lemma parse_generation_number: "parse_u64 (zero_pad 20 (show_nat (unat g))) = Inr g"
proof -
  let ?s = "zero_pad 20 (show_nat (unat g))"
  have digits: "list_all is_digit ?s"
    using show_nat_digits [of "unat g"] by (auto simp: zero_pad_def list_all_iff is_digit_def)
  moreover have ne: "?s \<noteq> []"
    by (simp add: zero_pad_def)
  ultimately have hd: "hd ?s \<noteq> CHR ''+''"
    using not_digit_plus by (cases ?s) auto
  then have "?s \<noteq> ''+''"
    by auto
  moreover have "parse_digits 0 ?s = Inr (unat g)"
    using unsigned_less [of g, where ?'a = nat] show_nat_digits [of "unat g"]
    by (simp add: zero_pad_def parse_digits_zeros parse_digits_value digits_value_show_nat)
  ultimately show ?thesis
    using hd ne by (simp add: parse_u64_def)
qed

lemma generation_name_inj [simp]: "generation_name a = generation_name b \<longleftrightarrow> a = b"
proof
  assume "generation_name a = generation_name b"
  then have "parse_u64 (zero_pad 20 (show_nat (unat a))) = parse_u64 (zero_pad 20 (show_nat (unat b)))"
    by (simp add: generation_name_def)
  then show "a = b"
    by (simp add: parse_generation_number)
qed simp

lemma names_differ [simp]:
  "generation_name g \<noteq> CURRENT_FILE" "CURRENT_FILE \<noteq> generation_name g"
  "temp_name g' u \<noteq> generation_name g" "generation_name g \<noteq> temp_name g' u"
  "temp_name g' u \<noteq> CURRENT_FILE" "CURRENT_FILE \<noteq> temp_name g' u"
  "current_temp_name u \<noteq> generation_name g" "generation_name g \<noteq> current_temp_name u"
  "current_temp_name u \<noteq> CURRENT_FILE" "CURRENT_FILE \<noteq> current_temp_name u"
  "current_temp_name u \<noteq> temp_name g' u'" "temp_name g' u' \<noteq> current_temp_name u"
  by (simp_all add: generation_name_def CURRENT_FILE_def temp_name_def current_temp_name_def)

lemma file_names_differ [simp]:
  "INDEX_FILE \<noteq> LABELS_FILE" "LABELS_FILE \<noteq> INDEX_FILE" "INDEX_FILE \<noteq> MANIFEST_FILE"
  "MANIFEST_FILE \<noteq> INDEX_FILE" "MANIFEST_FILE \<noteq> LABELS_FILE" "LABELS_FILE \<noteq> MANIFEST_FILE"
  by (simp_all add: INDEX_FILE_def LABELS_FILE_def MANIFEST_FILE_def)

lemma not_outdated: "\<not> outdated g (generation_name g)" "\<not> outdated g CURRENT_FILE"
proof -
  have "\<not> g < g - 1" if "g \<noteq> 0"
    using that by (simp add: word_less_nat_alt unat_minus_one)
  then show "\<not> outdated g (generation_name g)"
    by (simp add: outdated_def generation_name_def parse_generation_number)
  show "\<not> outdated g CURRENT_FILE"
    by (simp add: outdated_def CURRENT_FILE_def)
qed

lemma text_of_bytes_of: "list_all (\<lambda>c. (of_char c :: nat) < 128) s \<Longrightarrow> text_of (bytes_of s) = Some s"
proof (induction s)
  case Nil
  then show ?case by (simp add: text_of_def bytes_of_def)
next
  case (Cons c s)
  then have "unat (word_of_nat (of_char c) :: u8) = of_char c"
    by (simp add: unat_of_nat take_bit_nat_eq_self)
  with Cons show ?case
    by (auto simp: text_of_def bytes_of_def split: if_splits)
qed

lemma trim_digits:
  assumes "list_all is_digit s" and "s \<noteq> []"
  shows "trim (s @ [CHR 0x0A]) = s"
proof -
  have digit: "\<not> is_whitespace c" if "is_digit c" for c
    using that by (auto simp: is_digit_def is_whitespace_def)
  have front: "dropWhile is_whitespace (s @ [CHR 0x0A]) = s @ [CHR 0x0A]"
    using assms digit by (cases s) auto
  have "dropWhile is_whitespace (rev s) = rev s"
    using assms digit by (cases s rule: rev_cases) (auto simp: list_all_iff)
  moreover have "is_whitespace (CHR 0x0A)"
    by (simp add: is_whitespace_def)
  ultimately show ?thesis
    by (simp add: trim_def front)
qed

lemma current_text_parses:
  "\<exists>text. text_of (current_text g) = Some text \<and> parse_u64 (trim text) = Inr g"
proof -
  let ?s = "show_nat (unat g)"
  have "list_all (\<lambda>c. (of_char c :: nat) < 128) (?s @ [CHR 0x0A])"
    using show_nat_digits [of "unat g"] by (auto simp: list_all_iff is_digit_def)
  then show ?thesis
    using trim_digits [OF show_nat_digits show_nat_nonempty] parse_u64_show_word
    by (auto simp: current_text_def text_of_bytes_of)
qed

section \<open>What a persist writes\<close>

text \<open>The third-party formats: what they write, they read back.\<close>

definition codec_law :: "('q, 'm) codec \<Rightarrow> bool" where
  "codec_law cod \<longleftrightarrow>
     (\<forall>q. load_positional cod (write_positional cod q) = Inr q) \<and>
     (\<forall>m. load_id_map cod (write_id_map cod m) = Inr m) \<and>
     (\<forall>m data. encode_manifest cod m = Inr data \<longrightarrow> decode_manifest cod data = Inr m)"

definition written_manifest ::
    "('q, 'm) codec \<Rightarrow> ('q, 'm) engine \<Rightarrow> string \<Rightarrow> u64 \<Rightarrow> ('q, 'm) index \<Rightarrow> u64 list option
     \<Rightarrow> ingest_record option \<Rightarrow> shard_manifest" where
  "written_manifest cod eng sid g ix labels last_ingest =
     manifest_for eng sid g ix
       \<lparr>pf_index_bytes = as_u64 (length (index_bytes cod ix)), pf_index_crc32 = crc32 cod (index_bytes cod ix),
        pf_labelled = (labels \<noteq> None),
        pf_labels_count = (case labels of None \<Rightarrow> 0 | Some v \<Rightarrow> as_u64 (length v)),
        pf_labels_crc32 = (case labels of None \<Rightarrow> 0 | Some v \<Rightarrow> crc32 cod (label_bytes v))\<rparr> last_ingest"

definition label_table_fits :: "u64 list option \<Rightarrow> bool" where
  "label_table_fits labels \<longleftrightarrow> (case labels of None \<Rightarrow> True | Some v \<Rightarrow> 8 * length v < 2 ^ 64)"

lemma labels_from_eight: "length xs = 8 \<Longrightarrow> labels_from (xs @ rest) = u64_from_le_bytes xs # labels_from rest"
  by (cases xs rule: labels_from.cases) auto

lemma labels_from_cons: "labels_from (u64_to_le_bytes w @ rest) = w # labels_from rest"
  by (simp add: labels_from_eight)

lemma labels_from_label_bytes [simp]: "labels_from (label_bytes labels) = labels"
  by (induction labels) (simp_all add: label_bytes_def labels_from_cons)

lemma length_label_bytes [simp]: "length (label_bytes labels) = 8 * length labels"
  by (induction labels) (simp_all add: label_bytes_def)

lemma checked_mul_label_count:
  assumes "8 * n < 2 ^ 64"
  shows "checked_mul_u64 (as_u64 n) 8 = Some (as_u64 (8 * n))"
proof -
  have "n < 2 ^ 64" using assms by simp
  then have "uint (as_u64 n) = int n"
    by (simp only: uint_nat unat_as_u64)
  moreover have "int (8 * n) < int (2 ^ 64)"
    using assms by (simp only: of_nat_less_iff)
  ultimately show ?thesis
    by (simp add: checked_mul_u64_def)
qed

lemma labels_of_bytes_written:
  assumes "label_table_fits labels"
  shows "labels_of_bytes cod (written_manifest cod eng sid g ix labels r) (map_option label_bytes labels) = Some labels"
proof (cases labels)
  case None
  then show ?thesis
    by (simp add: labels_of_bytes_def written_manifest_def manifest_for_def)
next
  case (Some v)
  then have "8 * length v < 2 ^ 64"
    using assms by (simp add: label_table_fits_def)
  from checked_mul_label_count [OF this] Some show ?thesis
    by (simp add: labels_of_bytes_def written_manifest_def manifest_for_def del: of_nat_mult)
qed

lemma index_of_bytes_written:
  "codec_law cod \<Longrightarrow> index_of_bytes cod (index_kind_name ix) (index_bytes cod ix) = Some ix"
  by (cases ix) (simp_all add: codec_law_def index_of_bytes_def index_kind_name_def index_bytes_def)

lemma validate_loaded_written: "validate_loaded_index eng (written_manifest cod eng sid g ix labels r) ix = Inr ()"
  by (cases ix) (simp_all add: validate_loaded_index_def written_manifest_def manifest_for_def
      shift_bits_def scale_bits_def)

lemma stored_generation_written:
  assumes law: "codec_law cod" and fits: "label_table_fits labels"
    and raw: "encode_manifest cod (written_manifest cod eng sid g ix labels r) = Inr raw"
  shows "stored_generation cod eng sid g (Some raw) (Some (index_bytes cod ix)) (map_option label_bytes labels) =
    Some (ix, labels, r)"
proof -
  let ?m = "written_manifest cod eng sid g ix labels r"
  have "decode_manifest cod raw = Inr ?m"
    using law raw by (simp add: codec_law_def)
  moreover have "validate_manifest_header ?m sid g = Inr ()" "sm_kind ?m = index_kind_name ix"
    "sm_index_bytes ?m = as_u64 (length (index_bytes cod ix))" "sm_index_crc32 ?m = crc32 cod (index_bytes cod ix)"
    "sm_last_ingest ?m = r"
    by (simp_all add: validate_manifest_header_def written_manifest_def manifest_for_def)
  ultimately show ?thesis
    by (simp add: stored_generation_def index_of_bytes_written [OF law] validate_loaded_written
        labels_of_bytes_written [OF fits])
qed


section \<open>A persist moves from the old content to the new\<close>

lemma file_at_put [simp]:
  "file_at (put p x fs) q = (if q = p then (case x of File d \<Rightarrow> Some d | Directory \<Rightarrow> None) else file_at fs q)"
  by (simp add: file_at_def)

lemma triple_or_cleanup:
  assumes "triple P a Q E" and "triple E c (\<lambda>_. E) E"
  shows "triple P (or_cleanup a c) Q E"
  unfolding triple_def
proof (intro allI impI)
  fix w :: world
  assume "P (w_files w)"
  with assms(1) have A: "case a w of (Done x, w') \<Rightarrow> Q x (w_files w') | (_, w') \<Rightarrow> E (w_files w')"
    by (simp add: triple_def)
  have C: "triple E (and_then (ignoring c) (\<lambda>_. fail_with m)) Q E" for m
    by (intro triple_then [OF triple_ignoring [OF assms(2)]] triple_fail) simp_all
  show "case or_cleanup a c w of (Done x, w') \<Rightarrow> Q x (w_files w') | (_, w') \<Rightarrow> E (w_files w')"
  proof (cases "a w")
    case (Pair r w')
    with A C show ?thesis
      by (cases r) (simp_all add: or_cleanup_def triple_def)
  qed
qed

text \<open>The content before and after, and what any fault may leave.\<close>

type_synonym ('q, 'm) shard_content = "u64 \<times> ('q, 'm) index \<times> u64 list option \<times> ingest_record option"

definition persist_safe ::
    "('q, 'm) codec \<Rightarrow> ('q, 'm) engine \<Rightarrow> files \<Rightarrow> string \<Rightarrow> ('q, 'm) shard_content \<Rightarrow> files \<Rightarrow> bool" where
  "persist_safe cod eng fs0 sid new fs \<longleftrightarrow>
     (\<forall>s. s \<noteq> sid \<longrightarrow> same_content fs0 fs s) \<and>
     (stored_shard cod eng fs sid = stored_shard cod eng fs0 sid \<or> stored_shard cod eng fs sid = Some new)"

definition persist_done ::
    "('q, 'm) codec \<Rightarrow> ('q, 'm) engine \<Rightarrow> files \<Rightarrow> string \<Rightarrow> ('q, 'm) shard_content \<Rightarrow> files \<Rightarrow> bool" where
  "persist_done cod eng fs0 sid new fs \<longleftrightarrow>
     (\<forall>s. s \<noteq> sid \<longrightarrow> same_content fs0 fs s) \<and> stored_shard cod eng fs sid = Some new"

lemma persist_done_safe: "persist_done cod eng fs0 sid new fs \<Longrightarrow> persist_safe cod eng fs0 sid new fs"
  by (simp add: persist_done_def persist_safe_def)

lemma same_content_trans: "same_content a b s \<Longrightarrow> same_content b c s \<Longrightarrow> same_content a c s"
  by (simp add: same_content_def)

lemma persist_safe_same:
  assumes "persist_safe cod eng fs0 sid new fs" and "\<And>s. same_content fs fs' s"
  shows "persist_safe cod eng fs0 sid new fs'"
  using assms same_content_trans same_content_stored [OF assms(2)]
  unfolding persist_safe_def by metis

text \<open>The stages, by the paths that may differ from the old files.\<close>

definition untouched :: "path list \<Rightarrow> string \<Rightarrow> files \<Rightarrow> files \<Rightarrow> bool" where
  "untouched trees sid fs0 fs \<longleftrightarrow>
     (\<forall>p. p \<noteq> [sid] \<and> (\<forall>t \<in> set trees. \<not> prefix t p) \<longrightarrow> node_at fs p = node_at fs0 p)"

definition holds_generation :: "bytes \<Rightarrow> bytes \<Rightarrow> u64 list option \<Rightarrow> path \<Rightarrow> files \<Rightarrow> bool" where
  "holds_generation raw data labels dir fs \<longleftrightarrow>
     file_at fs (dir @ [MANIFEST_FILE]) = Some raw \<and> file_at fs (dir @ [INDEX_FILE]) = Some data \<and>
     (\<forall>v. labels = Some v \<longrightarrow> file_at fs (dir @ [LABELS_FILE]) = Some (label_bytes v))"

lemma untouched_other: "untouched (map (\<lambda>n. [sid, n]) names) sid fs0 fs \<Longrightarrow> s \<noteq> sid \<Longrightarrow> same_content fs0 fs s"
  by (auto simp: untouched_def same_content_def)

lemma untouched_staging:
  assumes "untouched [[sid, temp_name g u], [sid, current_temp_name v]] sid fs0 fs"
  shows "persist_safe cod eng fs0 sid new fs"
proof -
  have "same_content fs0 fs s" for s
    using assms by (cases "s = sid") (auto simp: untouched_def same_content_def)
  then show ?thesis
    using same_content_stored unfolding persist_safe_def by blast
qed

lemma holds_stored_at:
  assumes "codec_law cod" and "label_table_fits labels"
    and "encode_manifest cod (written_manifest cod eng sid g ix labels r) = Inr raw"
    and "holds_generation raw (index_bytes cod ix) labels [sid, generation_name g] fs"
  shows "stored_at cod eng fs sid g = Some (ix, labels, r)"
proof -
  have "stored_generation cod eng sid g (Some raw) (Some (index_bytes cod ix))
      (file_at fs [sid, generation_name g, LABELS_FILE]) =
    stored_generation cod eng sid g (Some raw) (Some (index_bytes cod ix)) (map_option label_bytes labels)"
  proof (cases labels)
    case None
    have "decode_manifest cod raw = Inr (written_manifest cod eng sid g ix labels r)"
      using assms(1,3) by (simp add: codec_law_def)
    moreover have "\<not> sm_labelled (written_manifest cod eng sid g ix labels r)"
      by (simp add: None written_manifest_def manifest_for_def)
    then have "labels_of_bytes cod (written_manifest cod eng sid g ix labels r)
          (file_at fs [sid, generation_name g, LABELS_FILE]) =
        labels_of_bytes cod (written_manifest cod eng sid g ix labels r) None"
      by (simp add: labels_of_bytes_def)
    ultimately show ?thesis
      by (simp add: stored_generation_def None cong: option.case_cong if_cong)
  next
    case (Some v)
    then show ?thesis using assms(4) by (simp add: holds_generation_def)
  qed
  then show ?thesis
    using assms(4) stored_generation_written [OF assms(1-3)]
    by (simp add: stored_at_def holds_generation_def)
qed

lemma activated_safe:
  assumes law: "codec_law cod" "label_table_fits labels"
      "encode_manifest cod (written_manifest cod eng sid g ix labels r) = Inr raw"
    and trees: "untouched [[sid, temp_name g u], [sid, generation_name g], [sid, current_temp_name v]] sid fs0 fs"
    and holds: "holds_generation raw (index_bytes cod ix) labels [sid, generation_name g] fs"
  shows "persist_safe cod eng fs0 sid (g, ix, labels, r) fs"
proof -
  have others: "same_content fs0 fs s" if "s \<noteq> sid" for s
    using trees that by (auto simp: untouched_def same_content_def)
  have cur: "current_generation fs sid = current_generation fs0 sid"
    using trees by (intro current_generation_cong) (simp add: untouched_def)
  have "stored_shard cod eng fs sid = stored_shard cod eng fs0 sid" if "current_generation fs0 sid \<noteq> Some g"
  proof (cases "current_generation fs0 sid")
    case None
    then show ?thesis by (simp add: stored_shard_def cur)
  next
    case (Some g')
    then have "g' \<noteq> g" using that by simp
    then have "stored_at cod eng fs sid g' = stored_at cod eng fs0 sid g'"
      using trees by (intro stored_at_cong) (simp add: untouched_def)
    then show ?thesis by (simp add: stored_shard_def cur Some)
  qed
  moreover have "stored_shard cod eng fs sid = Some (g, ix, labels, r)" if "current_generation fs0 sid = Some g"
    using that holds_stored_at [OF law holds] by (simp add: stored_shard_def cur)
  ultimately show ?thesis
    using others unfolding persist_safe_def by blast
qed

lemma pointed_done:
  assumes law: "codec_law cod" "label_table_fits labels"
      "encode_manifest cod (written_manifest cod eng sid g ix labels r) = Inr raw"
    and trees: "untouched [[sid, temp_name g u], [sid, generation_name g], [sid, current_temp_name v],
        [sid, CURRENT_FILE]] sid fs0 fs"
    and holds: "holds_generation raw (index_bytes cod ix) labels [sid, generation_name g] fs"
    and current: "file_at fs [sid, CURRENT_FILE] = Some (current_text g)"
  shows "persist_done cod eng fs0 sid (g, ix, labels, r) fs"
proof -
  have "same_content fs0 fs s" if "s \<noteq> sid" for s
    using trees that by (auto simp: untouched_def same_content_def)
  moreover have "current_generation fs sid = Some g"
    using current current_text_parses [of g] by (auto simp: current_generation_def)
  ultimately show ?thesis
    using holds_stored_at [OF law holds] by (simp add: persist_done_def stored_shard_def)
qed


section \<open>The stages of a persist\<close>

lemma triple_idle [triples]:
  assumes "\<And>fs. P fs \<Longrightarrow> E fs"
  shows "triple P (syscall env (Sync p) msg) (\<lambda>_. P) E" "triple P (syscall env (Stat p) msg) (\<lambda>_. P) E"
    "triple P (syscall env (Open p) msg) (\<lambda>_. P) E" "triple P (syscall env (ReadDir p) msg) (\<lambda>_. P) E"
  by (rule triple_syscall; use assms in \<open>auto split: if_splits\<close>)+

lemma triple_create:
  assumes "\<And>fs. P fs \<Longrightarrow> E fs" and "\<And>x fs. P fs \<Longrightarrow> P (put p x fs)"
  shows "triple P (syscall env (Create p) msg) (\<lambda>_. P) E"
  by (rule triple_syscall) (use assms in auto)

lemma triple_write:
  assumes "\<And>fs. P fs \<Longrightarrow> E fs" and "\<And>x fs. P fs \<Longrightarrow> P (put p x fs)"
  shows "triple P (syscall env (Write p data) msg) (\<lambda>_ fs. P fs \<and> file_at fs p = Some data) E"
  by (rule triple_syscall) (use assms in auto)

lemma triple_write_synced:
  assumes "\<And>fs. P fs \<Longrightarrow> E fs" and "\<And>x fs. P fs \<Longrightarrow> P (put p x fs)"
  shows "triple P (write_synced env root p data) (\<lambda>_ fs. P fs \<and> file_at fs p = Some data) E"
  unfolding write_synced_def
  by (intro triple_then [OF triple_create] triple_then [OF triple_write] triple_idle) (use assms in auto)

lemma triple_write_labels:
  assumes "\<And>fs. P fs \<Longrightarrow> E fs" and "\<And>x fs. P fs \<Longrightarrow> P (put p x fs)"
  shows "triple P (write_labels env cod root p v)
    (\<lambda>crc fs. P fs \<and> file_at fs p = Some (label_bytes v) \<and> crc = crc32 cod (label_bytes v)) E"
  unfolding write_labels_def
  by (rule triple_then [OF triple_create] | rule triple_then [OF triple_write] |
      rule triple_then [OF triple_idle(1)] | rule triple_done | use assms in auto)+

lemma triple_file_size_crc:
  assumes "\<And>fs. P fs \<Longrightarrow> E fs" and "\<And>fs. P fs \<Longrightarrow> file_at fs p = Some data"
  shows "triple P (file_size_crc env cod root p)
    (\<lambda>(n, crc) fs. P fs \<and> n = as_u64 (length data) \<and> crc = crc32 cod data) E"
proof -
  have read: "triple P (read_bytes env p msg) (\<lambda>d fs. P fs \<and> d = data) E" for msg
    by (rule triple_read_bytes) (use assms in \<open>fastforce simp: file_at_def\<close>)+
  show ?thesis
    unfolding file_size_crc_def
    by (rule triple_then [OF triple_idle(3)] | rule triple_then [OF triple_idle(2)] | rule triple_then [OF read] |
        rule triple_done | use assms in auto)+
qed

lemma untouched_put:
  "t \<in> set trees \<Longrightarrow> prefix t p \<Longrightarrow> untouched trees sid fs0 fs \<Longrightarrow> untouched trees sid fs0 (put p x fs)"
  by (auto simp: untouched_def)

lemma untouched_weaken: "untouched trees sid fs0 fs \<Longrightarrow> set trees \<subseteq> set trees' \<Longrightarrow> untouched trees' sid fs0 fs"
  by (auto simp: untouched_def)

text \<open>Before the rename only the two temporary names differ.\<close>

definition staging :: "string \<Rightarrow> u64 \<Rightarrow> string \<Rightarrow> string \<Rightarrow> path list" where
  "staging sid g u v = [[sid, temp_name g u], [sid, current_temp_name v]]"

lemma write_contents_triple:
  assumes safe: "\<And>fs. untouched (staging sid g u v) sid fs0 fs \<Longrightarrow> E fs"
  shows "triple (untouched (staging sid g u v) sid fs0)
    (write_contents env cod eng root [sid, temp_name g u] sid g ix labels r)
    (\<lambda>m fs. (untouched (staging sid g u v) sid fs0 fs \<and>
       file_at fs [sid, temp_name g u, INDEX_FILE] = Some (index_bytes cod ix) \<and>
       (\<forall>l. labels = Some l \<longrightarrow> file_at fs [sid, temp_name g u, LABELS_FILE] = Some (label_bytes l))) \<and>
       m = written_manifest cod eng sid g ix labels r) E"
proof -
  let ?S = "untouched (staging sid g u v) sid fs0"
  let ?I = "\<lambda>fs. ?S fs \<and> file_at fs [sid, temp_name g u, INDEX_FILE] = Some (index_bytes cod ix)"
  have put: "?S (put ([sid, temp_name g u] @ p) x fs)" if "?S fs" for p x fs
    using that by (intro untouched_put [of "[sid, temp_name g u]"]) (simp_all add: staging_def)
  have W: "triple ?S (syscall env (Write ([sid, temp_name g u] @ [INDEX_FILE]) (index_bytes cod ix)) msg) (\<lambda>_. ?I) E" for msg
    by (rule triple_post [OF triple_write]) (use safe put in auto)
  have Y: "triple ?I (sync_file env root p) (\<lambda>_. ?I) E" for p
    unfolding sync_file_def by (rule triple_idle) (use safe in auto)
  have Z: "triple ?I (file_size_crc env cod root ([sid, temp_name g u] @ [INDEX_FILE]))
      (\<lambda>(n, crc) fs. ?I fs \<and> n = as_u64 (length (index_bytes cod ix)) \<and> crc = crc32 cod (index_bytes cod ix)) E"
    by (rule triple_file_size_crc) (use safe in auto)
  have L: "triple ?I
      (case labels of
         Some values \<Rightarrow>
           and_then (write_labels env cod root ([sid, temp_name g u] @ [LABELS_FILE]) values)
             (\<lambda>crc. done_with (as_u64 (length values), crc))
       | None \<Rightarrow> done_with (0, 0))
      (\<lambda>(c, crc) fs. ?I fs \<and>
         c = (case labels of None \<Rightarrow> 0 | Some l \<Rightarrow> as_u64 (length l)) \<and>
         crc = (case labels of None \<Rightarrow> 0 | Some l \<Rightarrow> crc32 cod (label_bytes l)) \<and>
         (\<forall>l. labels = Some l \<longrightarrow> file_at fs [sid, temp_name g u, LABELS_FILE] = Some (label_bytes l))) E"
  proof (cases labels)
    case None
    then show ?thesis by (auto intro: triple_done)
  next
    case (Some l)
    have "triple ?I (write_labels env cod root ([sid, temp_name g u] @ [LABELS_FILE]) l)
        (\<lambda>crc fs. ?I fs \<and> file_at fs ([sid, temp_name g u] @ [LABELS_FILE]) = Some (label_bytes l) \<and>
           crc = crc32 cod (label_bytes l)) E"
      by (rule triple_write_labels) (use safe put [of _ "[LABELS_FILE]"] in auto)
    then show ?thesis
      unfolding Some option.case by (rule triple_then) (auto intro: triple_done simp: Some)
  qed
  show ?thesis
    unfolding write_contents_def Let_def
    by (rule triple_then [OF W], rule triple_then [OF Y], rule triple_then_pair [OF Z], rule triple_pure,
        rule triple_then_pair [OF L], rule triple_done) (simp add: written_manifest_def)
qed

lemma file_at_move_tree:
  assumes "\<not> prefix a b" and "\<not> prefix b a"
  shows "file_at (move_tree a b fs) p =
    (if prefix b p then file_at fs (a @ drop (length b) p) else if prefix a p then None else file_at fs p)"
  by (simp add: file_at_def node_at_move_tree [OF assms])

lemma triple_move:
  assumes "\<And>fs. P fs \<Longrightarrow> E fs" and "\<And>fs. P fs \<Longrightarrow> Q (move_tree a b fs)"
  shows "triple P (syscall env (Move a b) msg) (\<lambda>_. Q) E"
  by (rule triple_syscall) (use assms in \<open>auto split: if_splits\<close>)

lemma generation_moved:
  assumes "untouched (staging sid g u v) sid fs0 fs" and "holds_generation raw data labels [sid, temp_name g u] fs"
  shows "untouched [[sid, temp_name g u], [sid, generation_name g], [sid, current_temp_name v]] sid fs0
      (move_tree [sid, temp_name g u] [sid, generation_name g] fs)"
    and "holds_generation raw data labels [sid, generation_name g]
      (move_tree [sid, temp_name g u] [sid, generation_name g] fs)"
  using assms
  by (auto simp: untouched_def staging_def node_at_move_tree holds_generation_def file_at_move_tree)

lemma pointer_moved:
  fixes fs :: files and sid v
  assumes "untouched [[sid, temp_name g u], [sid, generation_name g], [sid, current_temp_name v]] sid fs0 fs"
    and "holds_generation raw data labels [sid, generation_name g] fs"
    and "file_at fs [sid, current_temp_name v] = Some (current_text g)"
  defines "fs' \<equiv> move_tree [sid, current_temp_name v] [sid, CURRENT_FILE] fs"
  shows "untouched [[sid, temp_name g u], [sid, generation_name g], [sid, current_temp_name v], [sid, CURRENT_FILE]]
      sid fs0 fs'"
    and "holds_generation raw data labels [sid, generation_name g] fs'"
    and "file_at fs' [sid, CURRENT_FILE] = Some (current_text g)"
  using assms(1-3)
  by (auto simp: fs'_def untouched_def node_at_move_tree holds_generation_def file_at_move_tree)

lemma activate_generation_triple:
  fixes cod :: "('q, 'm) codec" and eng ix g u v sid r fs0 env root
  assumes law: "codec_law cod" "label_table_fits labels"
  defines "m \<equiv> written_manifest cod eng sid g ix labels r"
    and "T \<equiv> [sid, temp_name g u]" and "F \<equiv> [sid, generation_name g]"
    and "safe \<equiv> persist_safe cod eng fs0 sid (g, ix, labels, r)"
  shows "triple
    (\<lambda>fs. untouched (staging sid g u v) sid fs0 fs \<and> file_at fs (T @ [INDEX_FILE]) = Some (index_bytes cod ix) \<and>
       (\<forall>l. labels = Some l \<longrightarrow> file_at fs (T @ [LABELS_FILE]) = Some (label_bytes l)))
    (activate_generation env cod root sid T F [sid, current_temp_name v] g m)
    (\<lambda>_. persist_done cod eng fs0 sid (g, ix, labels, r)) safe" (is "triple ?P _ _ _")
proof (cases "encode_manifest cod m")
  case (Inl e)
  then show ?thesis
    unfolding activate_generation_def safe_def
    by (auto intro!: triple_fail intro: untouched_staging simp: staging_def)
next
  case (Inr raw)
  let ?A = "\<lambda>fs. untouched (staging sid g u v) sid fs0 fs \<and> holds_generation raw (index_bytes cod ix) labels T fs"
  let ?B = "\<lambda>fs. untouched [T, F, [sid, current_temp_name v]] sid fs0 fs \<and>
      holds_generation raw (index_bytes cod ix) labels F fs"
  let ?D = "persist_done cod eng fs0 sid (g, ix, labels, r)"
  note law = law Inr [unfolded m_def]
  have safe0: "untouched (staging sid g u v) sid fs0 fs \<Longrightarrow> safe fs" for fs
    unfolding safe_def staging_def by (rule untouched_staging)
  have safe1: "?B fs \<Longrightarrow> safe fs" for fs
    unfolding safe_def T_def F_def using activated_safe [OF law] by blast
  have safe2: "?D fs \<Longrightarrow> safe fs" for fs
    unfolding safe_def by (rule persist_done_safe)
  have manifest: "triple ?P (write_synced env root (T @ [MANIFEST_FILE]) raw) (\<lambda>_. ?A) safe"
    by (rule triple_post [OF triple_write_synced [where P = ?P]])
      (auto simp: T_def holds_generation_def untouched_def staging_def intro: safe0)
  have renamed: "triple ?A (syscall env (Move T F) msg) (\<lambda>_. ?B) safe" for msg
    by (rule triple_move) (use safe0 generation_moved in \<open>auto simp: T_def F_def\<close>)
  have pointer: "triple ?B (write_synced env root [sid, current_temp_name v] (current_text g))
      (\<lambda>_ fs. ?B fs \<and> file_at fs [sid, current_temp_name v] = Some (current_text g)) safe"
    by (rule triple_write_synced) (use safe1 in \<open>auto simp: T_def F_def holds_generation_def untouched_def\<close>)
  have pointed: "triple (\<lambda>fs. ?B fs \<and> file_at fs [sid, current_temp_name v] = Some (current_text g))
      (syscall env (Move [sid, current_temp_name v] [sid, CURRENT_FILE]) msg) (\<lambda>_. ?D) safe" for msg
    by (rule triple_move)
      (use safe1 pointed_done [OF law pointer_moved] in \<open>auto simp: T_def F_def\<close>)
  show ?thesis
    unfolding activate_generation_def Inr sum.case sync_dir_def
    by (rule triple_then [OF manifest], rule triple_then [OF triple_idle(1)], use safe0 in blast,
        rule triple_then [OF renamed], rule triple_then [OF triple_idle(1)], rule safe1,
        assumption, rule triple_then [OF pointer], rule triple_then [OF pointed], rule triple_idle(1), rule safe2)
qed

lemma same_content_removed:
  assumes "\<And>p. \<not> prefix [sid, n] p \<Longrightarrow> node_at fs' p = node_at fs p"
    and "n \<noteq> CURRENT_FILE" and "\<And>g. n \<noteq> generation_name g"
  shows "same_content fs fs' s"
  using assms by (simp add: same_content_def)

lemma persist_done_removed:
  assumes "persist_done cod eng fs0 sid (g, x) fs" and "outdated g n"
    and "\<And>p. \<not> prefix [sid, n] p \<Longrightarrow> node_at fs' p = node_at fs p"
  shows "persist_done cod eng fs0 sid (g, x) fs'"
proof -
  have n: "n \<noteq> CURRENT_FILE" "n \<noteq> generation_name g"
    using assms(2) not_outdated by auto
  have current: "current_generation fs' sid = current_generation fs sid"
    using assms(3) n by (intro current_generation_cong) simp
  have content: "stored_shard cod eng fs sid = Some (g, x)"
    using assms(1) by (simp add: persist_done_def)
  then have "current_generation fs sid = Some g"
    by (auto simp: stored_shard_def split: option.splits)
  moreover have "stored_at cod eng fs' sid g = stored_at cod eng fs sid g"
    using assms(3) n by (intro stored_at_cong) simp
  ultimately have "stored_shard cod eng fs' sid = Some (g, x)"
    using content by (simp add: stored_shard_def current)
  moreover have "same_content fs fs' s" if "s \<noteq> sid" for s
    using assms(3) that by (simp add: same_content_def)
  ultimately show ?thesis
    using assms(1) same_content_trans unfolding persist_done_def by blast
qed

lemma triple_remove_all:
  assumes "\<And>fs. P fs \<Longrightarrow> E fs"
    and "\<And>fs fs'. P fs \<Longrightarrow> (\<And>q. \<not> prefix p q \<Longrightarrow> node_at fs' q = node_at fs q) \<Longrightarrow> Q fs' \<and> E fs'"
  shows "triple P (syscall env (RemoveAll p) msg) (\<lambda>_. Q) E"
proof (rule triple_syscall)
  fix fs n
  assume P: "P fs"
  show "E fs" by (rule assms(1) [OF P])
  show "E (op_partial (RemoveAll p) n fs)"
    using assms(2) [OF P, of "remove_some p n fs"] by (simp add: node_at_remove_some)
next
  fix fs fs'
  assume "P fs" "op_effect (RemoveAll p) fs = Inr fs'"
  then show "Q fs'"
    using assms(2) [of fs fs'] by (auto split: if_splits)
qed

lemma write_generation_triple:
  assumes "codec_law cod" and "label_table_fits labels"
  shows "triple (\<lambda>fs. fs = fs0) (write_generation env cod eng u v root sid g ix labels r)
    (\<lambda>_. persist_done cod eng fs0 sid (g, ix, labels, r)) (persist_safe cod eng fs0 sid (g, ix, labels, r))"
proof -
  let ?S = "untouched (staging sid g u v) sid fs0"
  let ?T = "[sid, temp_name g u]"
  let ?safe = "persist_safe cod eng fs0 sid (g, ix, labels, r)"
  have safe: "?S fs \<Longrightarrow> ?safe fs" for fs
    unfolding staging_def by (rule untouched_staging)
  have start: "?S fs0" "?S (make_dirs [] [sid] fs0)"
    by (auto simp: untouched_def node_at_make_dirs strict_prefix_def prefix_Cons)
  have made: "triple (\<lambda>fs. fs = fs0) (syscall env (MkDirAll [sid]) msg) (\<lambda>_. ?S) ?safe" for msg
    by (rule triple_syscall) (use safe start in \<open>auto split: if_splits\<close>)
  have found: "triple ?S (path_exists env p) (\<lambda>_. ?S) ?safe" for p
    by (rule triple_path_exists) (use safe in auto)
  have temp: "triple ?S (syscall env (MkDir ?T) msg) (\<lambda>_. ?S) ?safe" for msg
    by (rule triple_syscall)
      (auto simp: staging_def intro: safe untouched_put [of ?T] split: if_splits)
  have cleanup: "triple ?safe (syscall env (RemoveAll ?T) msg) (\<lambda>_. ?safe) ?safe" for msg
  proof (rule triple_remove_all)
    fix fs fs'
    assume fs: "?safe fs" and same: "\<And>q. \<not> prefix ?T q \<Longrightarrow> node_at fs' q = node_at fs q"
    have "same_content fs fs' s" for s
      by (rule same_content_removed [of sid "temp_name g u"]) (simp_all add: same)
    with fs have "?safe fs'"
      by (rule persist_safe_same)
    then show "?safe fs' \<and> ?safe fs'" by simp
  qed
  have contents: "triple ?S
      (and_then (write_contents env cod eng root ?T sid g ix labels r)
        (\<lambda>m. activate_generation env cod root sid ?T [sid, generation_name g] [sid, current_temp_name v] g m))
      (\<lambda>_. persist_done cod eng fs0 sid (g, ix, labels, r)) ?safe"
  proof (rule triple_then [OF write_contents_triple [OF safe]], assumption, rule triple_pure)
    fix m
    assume "m = written_manifest cod eng sid g ix labels r"
    then show "triple
        (\<lambda>fs. ?S fs \<and> file_at fs [sid, temp_name g u, INDEX_FILE] = Some (index_bytes cod ix) \<and>
          (\<forall>l. labels = Some l \<longrightarrow> file_at fs [sid, temp_name g u, LABELS_FILE] = Some (label_bytes l)))
        (activate_generation env cod root sid ?T [sid, generation_name g] [sid, current_temp_name v] g m)
        (\<lambda>_. persist_done cod eng fs0 sid (g, ix, labels, r)) ?safe"
      using activate_generation_triple [OF assms] by simp
  qed
  show ?thesis
    unfolding write_generation_def Let_def
    by (rule triple_then [OF made], rule triple_then [OF found])
      (auto intro!: triple_fail triple_then [OF temp] triple_or_cleanup [OF contents cleanup] safe)
qed

lemma cleanup_triple:
  "triple (persist_done cod eng fs0 sid (g, x)) (cleanup_old_generations env sid g)
     (\<lambda>_. persist_done cod eng fs0 sid (g, x)) (persist_done cod eng fs0 sid (g, x))"
proof -
  let ?D = "persist_done cod eng fs0 sid (g, x)"
  have remove: "triple ?D (ignoring (syscall env (RemoveAll [sid, name]) msg)) (\<lambda>_. ?D) ?D" if "outdated g name" for name msg
  proof (rule triple_ignoring [OF triple_remove_all])
    fix fs fs'
    assume D: "?D fs" and same: "\<And>q. \<not> prefix [sid, name] q \<Longrightarrow> node_at fs' q = node_at fs q"
    have "?D fs'"
      by (rule persist_done_removed [OF D that]) (rule same)
    then show "?D fs' \<and> ?D fs'" by simp
  qed
  have each: "triple ?D (each (\<lambda>name. ignoring (syscall env (RemoveAll [sid, name]) (\<lambda>_. [])))
      (filter (outdated g) names)) (\<lambda>_. ?D) ?D" for names
    by (rule triple_each) (simp add: remove)
  have listed: "triple ?D (\<lambda>w. each (\<lambda>name. ignoring (syscall env (RemoveAll [sid, name]) (\<lambda>_. [])))
      (filter (outdated g) (dir_names [sid] (w_files w))) w) (\<lambda>_. ?D) ?D"
    by (rule triple_files) (rule triple_pre [OF each], simp)
  show ?thesis
    unfolding cleanup_old_generations_def
    by (rule triple_ignoring [OF triple_then [OF triple_idle(4) listed]])
qed

end
