(* ===== verification/Shard_Restore.thy ===== *)
theory Shard_Restore
  imports Shard_Durability
begin

text \<open>
  Restoring refines the abstract content: in every environment a restored registry holds nothing but
  what \<open>stored_shard\<close> says, with its generation, labels and ingest record, and when the file system
  answers every call an open succeeds exactly when every shard the data root points to is intact.
\<close>

section \<open>Actions that only read\<close>

definition quiet :: shard_env where
  "quiet = (\<lambda>_ _. Fine)"

text \<open>\<open>a\<close> reads \<open>fs\<close> only; what it returns is \<open>spec\<close>, and without faults it decides \<open>spec\<close>.\<close>

definition reads_spec :: "(shard_env \<Rightarrow> 'a action) \<Rightarrow> files \<Rightarrow> 'a option \<Rightarrow> bool" where
  "reads_spec a fs spec \<longleftrightarrow>
     (\<forall>env w. w_files w = fs \<longrightarrow>
        (\<exists>r n. a env w = (r, w\<lparr>w_calls := n\<rparr>) \<and> (\<forall>x. r = Done x \<longrightarrow> spec = Some x) \<and>
           (env = quiet \<longrightarrow> (case spec of Some x \<Rightarrow> r = Done x | None \<Rightarrow> \<exists>m. r = Error m))))"

named_theorems reads_intros

lemma reads_done [reads_intros]: "reads_spec (\<lambda>env. done_with x) fs (Some x)"
  unfolding reads_spec_def
proof (intro allI impI, rule exI [of _ "Done x"])
  fix env :: shard_env and w :: world
  show "\<exists>n. done_with x w = (Done x, w\<lparr>w_calls := n\<rparr>) \<and> (\<forall>y. Done x = Done y \<longrightarrow> Some x = Some y) \<and>
      (env = quiet \<longrightarrow> (case Some x of None \<Rightarrow> \<exists>m. Done x = Error m | Some y \<Rightarrow> Done x = Done y))"
    by (rule exI [of _ "w_calls w"]) (simp add: done_with_def)
qed

lemma reads_fail [reads_intros]: "reads_spec (\<lambda>env. fail_with m) fs None"
  unfolding reads_spec_def
proof (intro allI impI, rule exI [of _ "Error m"])
  fix env :: shard_env and w :: world
  show "\<exists>n. fail_with m w = (Error m, w\<lparr>w_calls := n\<rparr>) \<and> (\<forall>y. Error m = Done y \<longrightarrow> None = Some y) \<and>
      (env = quiet \<longrightarrow> (case None of None \<Rightarrow> \<exists>m'. Error m = Error m' | Some y \<Rightarrow> Error m = Done y))"
    by (rule exI [of _ "w_calls w"]) (simp add: fail_with_def)
qed

lemma reads_then [reads_intros]:
  assumes a: "reads_spec a fs s" and f: "\<And>x. s = Some x \<Longrightarrow> reads_spec (\<lambda>env. f env x) fs (t x)"
  shows "reads_spec (\<lambda>env. and_then (a env) (f env)) fs (Option.bind s t)"
  unfolding reads_spec_def
proof (intro allI impI)
  fix env :: shard_env and w :: world
  assume w: "w_files w = fs"
  obtain r n where A: "a env w = (r, w\<lparr>w_calls := n\<rparr>)" "\<And>x. r = Done x \<Longrightarrow> s = Some x"
      "env = quiet \<Longrightarrow> (case s of Some x \<Rightarrow> r = Done x | None \<Rightarrow> \<exists>m. r = Error m)"
    using a w unfolding reads_spec_def by blast
  show "\<exists>r n. and_then (a env) (f env) w = (r, w\<lparr>w_calls := n\<rparr>) \<and> (\<forall>x. r = Done x \<longrightarrow> Option.bind s t = Some x) \<and>
      (env = quiet \<longrightarrow> (case Option.bind s t of Some x \<Rightarrow> r = Done x | None \<Rightarrow> \<exists>m. r = Error m))"
  proof (cases r)
    case (Done x)
    then have s: "s = Some x" using A(2) by simp
    have "w_files (w\<lparr>w_calls := n\<rparr>) = fs" using w by simp
    then obtain r' n' where "f env x (w\<lparr>w_calls := n\<rparr>) = (r', w\<lparr>w_calls := n\<rparr>\<lparr>w_calls := n'\<rparr>)"
        "\<forall>y. r' = Done y \<longrightarrow> t x = Some y"
        "env = quiet \<longrightarrow> (case t x of Some y \<Rightarrow> r' = Done y | None \<Rightarrow> \<exists>m. r' = Error m)"
      using f [OF s] unfolding reads_spec_def by blast
    then show ?thesis
      by (auto simp: and_then_def A(1) Done s)
  next
    case (Error m)
    then show ?thesis
      using A(3) by (auto simp: and_then_def A(1) split: option.splits)
  next
    case Crashed
    then show ?thesis
      using A(3) by (auto simp: and_then_def A(1) split: option.splits)
  qed
qed

lemma reads_conv: "reads_spec a fs s \<Longrightarrow> s = s' \<Longrightarrow> reads_spec a fs s'"
  by simp

definition present :: "files \<Rightarrow> path \<Rightarrow> unit option" where
  "present fs p = (if node_at fs p = None then None else Some ())"

lemma reads_call:
  assumes "op_effect op fs \<in> {Inl e, Inr fs}" and "\<And>n. op_partial op n fs = fs"
  shows "reads_spec (\<lambda>env. syscall env op msg) fs (if op_effect op fs = Inr fs then Some () else None)"
  unfolding reads_spec_def
proof (intro allI impI)
  fix env :: shard_env and w :: world
  assume "w_files w = fs"
  then have w: "w = \<lparr>w_files = fs, w_calls = w_calls w\<rparr>" by simp
  show "\<exists>r n. syscall env op msg w = (r, w\<lparr>w_calls := n\<rparr>) \<and>
      (\<forall>x. r = Done x \<longrightarrow> (if op_effect op fs = Inr fs then Some () else None) = Some x) \<and>
      (env = quiet \<longrightarrow> (case if op_effect op fs = Inr fs then Some () else None of
         Some x \<Rightarrow> r = Done x | None \<Rightarrow> \<exists>m. r = Error m))"
    using assms by (subst (1 2) w) (auto simp: syscall_def quiet_def Let_def split: outcome.splits)
qed

lemma reads_probe [reads_intros]:
  "reads_spec (\<lambda>env. syscall env (Stat p) msg) fs (present fs p)"
  "reads_spec (\<lambda>env. syscall env (Open p) msg) fs (present fs p)"
  using reads_call [of "Stat p" fs "''No such file or directory''" msg]
    reads_call [of "Open p" fs "''No such file or directory''" msg]
  by (cases "node_at fs p"; simp add: present_def)+

lemma reads_read_bytes [reads_intros]: "reads_spec (\<lambda>env. read_bytes env p msg) fs (file_at fs p)"
  unfolding reads_spec_def
proof (intro allI impI)
  fix env :: shard_env and w :: world
  assume "w_files w = fs"
  then have w: "w = \<lparr>w_files = fs, w_calls = w_calls w\<rparr>" by simp
  show "\<exists>r n. read_bytes env p msg w = (r, w\<lparr>w_calls := n\<rparr>) \<and> (\<forall>x. r = Done x \<longrightarrow> file_at fs p = Some x) \<and>
      (env = quiet \<longrightarrow> (case file_at fs p of Some x \<Rightarrow> r = Done x | None \<Rightarrow> \<exists>m. r = Error m))"
    by (subst (1 2) w)
      (auto simp: read_bytes_def and_then_def syscall_def quiet_def Let_def file_at_def
        split: outcome.splits option.splits node.splits)
qed

lemma reads_lift_result [reads_intros]:
  "reads_spec (\<lambda>env. lift_result r) fs (case r of Inl _ \<Rightarrow> None | Inr x \<Rightarrow> Some x)"
  by (cases r) (simp_all add: lift_result_def reads_intros)

lemma reads_if: "(b \<Longrightarrow> reads_spec a fs s) \<Longrightarrow> (\<not> b \<Longrightarrow> reads_spec a' fs s') \<Longrightarrow>
  reads_spec (\<lambda>env. if b then a env else a' env) fs (if b then s else s')"
  by simp

lemma present_file: "file_at fs p = Some d \<Longrightarrow> present fs p = Some ()"
  by (auto simp: file_at_def present_def split: option.splits)

section \<open>The parts of a generation\<close>

lemma reads_file_size_crc:
  "reads_spec (\<lambda>env. file_size_crc env cod root p) fs
     (map_option (\<lambda>d. (as_u64 (length d), crc32 cod d)) (file_at fs p))"
  unfolding file_size_crc_def
  by (rule reads_conv, (rule reads_intros)+) (auto simp: present_file bind_eq_None_conv split: bind_splits)

lemma reads_verify_file:
  "reads_spec (\<lambda>env. verify_file env cod root p n crc) fs
     (case file_at fs p of
        None \<Rightarrow> None
      | Some d \<Rightarrow> if as_u64 (length d) = n \<and> crc32 cod d = crc then Some () else None)"
  unfolding verify_file_def
  by (rule reads_conv, rule reads_then [OF reads_file_size_crc], unfold split_beta, rule reads_if, (rule reads_intros)+)
    (auto split: option.splits)

lemma reads_load_index:
  "reads_spec (\<lambda>env. load_index env cod root sid p kind) fs
     (Option.bind (file_at fs p) (index_of_bytes cod kind))"
proof -
  have load: "reads_spec (\<lambda>env. and_then (read_bytes env p msg) (\<lambda>data. case d data of Inl e \<Rightarrow> fail_with (m e) | Inr q \<Rightarrow> done_with (c q)))
      fs (Option.bind (file_at fs p) (\<lambda>data. case d data of Inl _ \<Rightarrow> None | Inr q \<Rightarrow> Some (c q)))"
    for d :: "bytes \<Rightarrow> string + 'x" and c :: "'x \<Rightarrow> ('q, 'm) index" and m msg
    by (rule reads_then [OF reads_read_bytes]) (auto intro: reads_intros split: sum.split)
  have none: "Option.bind s (\<lambda>_. None) = None" for s :: "bytes option"
    by (cases s) simp_all
  show ?thesis
    unfolding load_index_def index_of_bytes_def
    by (cases "kind = ''positional''"; cases "kind = ''id_map''") (auto simp: none intro: load reads_intros)
qed

lemma reads_files:
  "reads_spec (\<lambda>env. g fs env) fs s \<Longrightarrow> reads_spec (\<lambda>env w. g (w_files w) env w) fs s"
  by (simp add: reads_spec_def)

lemma reads_read_labels:
  "reads_spec (\<lambda>env. read_labels env cod root p cnt crc) fs
     (case file_at fs p of
        None \<Rightarrow> None
      | Some d \<Rightarrow>
          if checked_mul_u64 cnt 8 = Some (as_u64 (length d)) \<and> crc32 cod d = crc then Some (labels_from d) else None)"
proof (cases "checked_mul_u64 cnt 8")
  case None
  then have "read_labels env cod root p cnt crc = fail_with [Lit ''label byte count overflow in '', Lit (shown root p)]" for env
    by (simp add: read_labels_def)
  then show ?thesis
    using None by (auto intro: reads_fail split: option.split)
next
  case (Some n)
  define g where "g = (\<lambda>files env w.
      let n_bytes = (case node_at files p of Some (File data) \<Rightarrow> as_u64 (length data) | _ \<Rightarrow> 0) in
      if n_bytes \<noteq> n then
        fail_with [Lit ''labels '', Lit (shown root p), Lit '' has '', num64 n_bytes,
                   Lit '' bytes, manifest expects '', num64 n] w
      else
        and_then (syscall env (Open p) (path_error ''open labels'' root p)) (\<lambda>_.
        and_then (read_bytes env p (path_error ''read labels'' root p)) (\<lambda>data.
          if crc32 cod data \<noteq> crc then
            fail_with [Lit ''labels '', Lit (shown root p), Lit '' checksum '', hex32 (crc32 cod data),
                       Lit '' differs from manifest '', hex32 crc]
          else done_with (labels_from data))) w)"
  have code: "read_labels env cod root p cnt crc =
      and_then (syscall env (Stat p) (path_error ''stat labels'' root p)) (\<lambda>_ w. g (w_files w) env w)" for env
    by (simp add: read_labels_def Some g_def)
  have G: "reads_spec (\<lambda>env. g fs env) fs
      (if (case node_at fs p of Some (File data) \<Rightarrow> as_u64 (length data) | _ \<Rightarrow> 0) \<noteq> n then None
       else Option.bind (present fs p) (\<lambda>_. Option.bind (file_at fs p)
         (\<lambda>d. if crc32 cod d \<noteq> crc then None else Some (labels_from d))))"
    unfolding g_def Let_def
    by (simp add: if_distribR) (intro conjI impI reads_intros reads_if)
  have "reads_spec (\<lambda>env. read_labels env cod root p cnt crc) fs
      (Option.bind (present fs p) (\<lambda>_.
        if (case node_at fs p of Some (File data) \<Rightarrow> as_u64 (length data) | _ \<Rightarrow> 0) \<noteq> n then None
        else Option.bind (present fs p) (\<lambda>_. Option.bind (file_at fs p)
          (\<lambda>d. if crc32 cod d \<noteq> crc then None else Some (labels_from d)))))"
    unfolding code by (rule reads_then [OF reads_probe(1)]) (rule reads_files [where g = g, OF G])
  then show ?thesis
  proof (rule reads_conv)
    show "Option.bind (present fs p) (\<lambda>_.
        if (case node_at fs p of Some (File data) \<Rightarrow> as_u64 (length data) | _ \<Rightarrow> 0) \<noteq> n then None
        else Option.bind (present fs p) (\<lambda>_. Option.bind (file_at fs p)
          (\<lambda>d. if crc32 cod d \<noteq> crc then None else Some (labels_from d)))) =
      (case file_at fs p of None \<Rightarrow> None
       | Some d \<Rightarrow> if checked_mul_u64 cnt 8 = Some (as_u64 (length d)) \<and> crc32 cod d = crc
           then Some (labels_from d) else None)"
    proof (cases "node_at fs p")
      case (Some x)
      then show ?thesis
        using \<open>checked_mul_u64 cnt 8 = Some n\<close>
        by (cases x) (auto simp: present_def file_at_def)
    qed (simp add: present_def file_at_def)
  qed
qed

lemma reads_restore_labels:
  "reads_spec (\<lambda>env. restore_labels env cod root sid dir manifest) fs
     (labels_of_bytes cod manifest (file_at fs (dir @ [LABELS_FILE])))"
proof (cases "sm_labelled manifest")
  case True
  have "reads_spec (\<lambda>env. restore_labels env cod root sid dir manifest) fs
      (Option.bind (case file_at fs (dir @ [LABELS_FILE]) of None \<Rightarrow> None
         | Some d \<Rightarrow> if checked_mul_u64 (sm_labels_count manifest) 8 = Some (as_u64 (length d)) \<and>
             crc32 cod d = sm_labels_crc32 manifest then Some (labels_from d) else None) (\<lambda>l. Some (Some l)))"
    unfolding restore_labels_def using True
    by (simp add: reads_then [OF reads_read_labels reads_done])
  then show ?thesis
    by (rule reads_conv) (auto simp: labels_of_bytes_def True split: option.split)
next
  case False
  then show ?thesis
    unfolding restore_labels_def labels_of_bytes_def by (auto intro: reads_intros)
qed

lemma reads_restore_generation:
  "reads_spec (\<lambda>env. restore_generation env cod eng root sid g) fs (stored_at cod eng fs sid g)"
proof -
  let ?dir = "[sid, generation_name g]"
  let ?unit = "\<lambda>r :: message + unit. case r of Inl _ \<Rightarrow> None | Inr x \<Rightarrow> Some x"
  let ?run = "\<lambda>env manifest.
      and_then (lift_result (validate_manifest_header manifest sid g)) (\<lambda>_.
      and_then (verify_file env cod root (?dir @ [INDEX_FILE]) (sm_index_bytes manifest) (sm_index_crc32 manifest)) (\<lambda>_.
      and_then (load_index env cod root sid (?dir @ [INDEX_FILE]) (sm_kind manifest)) (\<lambda>ix.
      and_then (lift_result (validate_loaded_index eng manifest ix)) (\<lambda>_.
      and_then (restore_labels env cod root sid ?dir manifest) (\<lambda>labels.
      done_with (ix, labels, sm_last_ingest manifest))))))"
  let ?spec = "\<lambda>manifest.
      Option.bind (?unit (validate_manifest_header manifest sid g)) (\<lambda>_.
      Option.bind (case file_at fs (?dir @ [INDEX_FILE]) of None \<Rightarrow> None
        | Some d \<Rightarrow> if as_u64 (length d) = sm_index_bytes manifest \<and> crc32 cod d = sm_index_crc32 manifest
            then Some () else None) (\<lambda>_.
      Option.bind (Option.bind (file_at fs (?dir @ [INDEX_FILE])) (index_of_bytes cod (sm_kind manifest))) (\<lambda>ix.
      Option.bind (?unit (validate_loaded_index eng manifest ix)) (\<lambda>_.
      Option.bind (labels_of_bytes cod manifest (file_at fs (?dir @ [LABELS_FILE]))) (\<lambda>labels.
      Some (ix, labels, sm_last_ingest manifest))))))"
  have checks: "reads_spec (\<lambda>env. ?run env manifest) fs (?spec manifest)" for manifest
    by (intro reads_then reads_lift_result reads_verify_file reads_load_index reads_restore_labels reads_done)
  have decoded: "reads_spec (\<lambda>env. case decode_manifest cod raw of
      Inl e \<Rightarrow> fail_with [Lit ''decode '', Lit (shown root (?dir @ [MANIFEST_FILE])), Lit '': '', Lit e]
    | Inr manifest \<Rightarrow> ?run env manifest) fs
   (case decode_manifest cod raw of Inl _ \<Rightarrow> None | Inr manifest \<Rightarrow> ?spec manifest)" for raw
    by (cases "decode_manifest cod raw") (simp_all only: sum.case reads_fail checks)
  have "reads_spec (\<lambda>env. restore_generation env cod eng root sid g) fs
     (Option.bind (file_at fs (?dir @ [MANIFEST_FILE])) (\<lambda>raw.
        case decode_manifest cod raw of Inl _ \<Rightarrow> None | Inr manifest \<Rightarrow> ?spec manifest))"
    unfolding restore_generation_def Let_def
    by (rule reads_then [OF reads_read_bytes]) (rule decoded)
  then show ?thesis
    by (rule reads_conv)
      (auto simp: stored_at_def stored_generation_def split: option.split sum.split bind_split)
qed

lemma reads_restore_current:
  "reads_spec (\<lambda>env. restore_current env root sid) fs (current_generation fs sid)"
proof -
  have ascii: "reads_spec (\<lambda>env. read_to_string env p msg) fs (Option.bind (file_at fs p) text_of)" for p msg
    unfolding read_to_string_def
    by (rule reads_then [OF reads_read_bytes]) (auto intro: reads_intros split: option.split)
  have "reads_spec (\<lambda>env. restore_current env root sid) fs
      (Option.bind (Option.bind (file_at fs [sid, CURRENT_FILE]) text_of) (\<lambda>text.
        case parse_u64 (trim text) of Inl _ \<Rightarrow> None | Inr g \<Rightarrow> Some g))"
    unfolding restore_current_def Let_def
    by (rule reads_then [OF ascii]) (auto intro: reads_intros split: sum.split)
  then show ?thesis
    by (rule reads_conv) (auto simp: current_generation_def split: option.split)
qed

section \<open>One directory of the data root\<close>

lemma and_then_DoneE [elim!]:
  assumes "and_then a f w = (Done y, w')"
  obtains x w1 where "a w = (Done x, w1)" and "f x w1 = (Done y, w')"
  using assms by (auto simp: and_then_def split: prod.splits run.splits)

lemma done_with_Done [simp]: "done_with x w = (Done y, w') \<longleftrightarrow> x = y \<and> w = w'"
  by (simp add: done_with_def)

lemma lift_result_Done [simp]: "lift_result r w = (Done x, w') \<longleftrightarrow> r = Inr x \<and> w = w'"
  by (cases r) (simp_all add: lift_result_def fail_with_def)

lemma fail_with_Done [simp]: "fail_with m w \<noteq> (Done x, w')"
  by (simp add: fail_with_def)

lemma reads_spec_Done:
  "reads_spec a fs s \<Longrightarrow> a env w = (Done x, w') \<Longrightarrow> w_files w = fs \<Longrightarrow> s = Some x \<and> w_files w' = fs"
proof -
  assume "reads_spec a fs s" and run: "a env w = (Done x, w')" and w: "w_files w = fs"
  then obtain r n where "a env w = (r, w\<lparr>w_calls := n\<rparr>)" "\<forall>x. r = Done x \<longrightarrow> s = Some x"
    unfolding reads_spec_def by blast
  with run w show "s = Some x \<and> w_files w' = fs" by auto
qed

lemma path_exists_Done:
  "path_exists env p w = (Done b, w') \<Longrightarrow>
     w_files w' = w_files w \<and> (b \<longrightarrow> node_at (w_files w) p \<noteq> None) \<and>
     (env = quiet \<longrightarrow> b = (node_at (w_files w) p \<noteq> None))"
  by (auto simp: path_exists_def syscall_def quiet_def Let_def split: outcome.splits if_splits)

definition tombstoned :: "string \<Rightarrow> bool" where
  "tombstoned n \<longleftrightarrow> strip_prefix ''.deleted-'' n \<noteq> None"

definition with_ingest ::
    "string \<Rightarrow> ingest_record option \<Rightarrow> ('q, 'm) index_store \<Rightarrow> ('q, 'm) index_store" where
  "with_ingest sid r st = (case r of None \<Rightarrow> st | Some x \<Rightarrow> set_ingest_record sid x st)"

lemma restore_dir_Done:
  assumes "restore_dir env cod eng root sid st w = (Done st', w')"
  obtains (tombstone) "tombstoned sid" "st' = st"
      "\<And>p. \<not> prefix [sid] p \<Longrightarrow> node_at (w_files w') p = node_at (w_files w) p"
  | (skipped) "\<not> tombstoned sid" "w_files w' = w_files w" "validate_shard_id sid = Inr ()" "st' = st"
      "env = quiet \<longrightarrow> node_at (w_files w) [sid, CURRENT_FILE] = None"
  | (restored) g ix labels r st1 where "\<not> tombstoned sid" "w_files w' = w_files w" "validate_shard_id sid = Inr ()"
      "stored_shard cod eng (w_files w) sid = Some (g, ix, labels, r)"
      "insert_with_id eng sid ix labels g st = Inr st1" "st' = with_ingest sid r st1"
proof (cases "tombstoned sid")
  case True
  have R: "triple (\<lambda>fs. fs = w_files w) (syscall env (RemoveAll [sid]) msg)
      (\<lambda>_ fs. \<forall>p. \<not> prefix [sid] p \<longrightarrow> node_at fs p = node_at (w_files w) p) (\<lambda>_. True)" for msg
    by (rule triple_remove_all) auto
  then have "\<forall>p. \<not> prefix [sid] p \<longrightarrow> node_at (w_files w') p = node_at (w_files w) p" "st' = st"
    using assms True triple_run [OF R refl]
    by (auto simp: restore_dir_def tombstoned_def)
  with True tombstone show ?thesis by blast
next
  case False
  then obtain b w1 where valid: "validate_shard_id sid = Inr ()"
      and b: "path_exists env [sid, CURRENT_FILE] w = (Done b, w1)"
      and rest: "(if \<not> b then done_with st else
          and_then (restore_current env root sid) (\<lambda>generation.
          and_then (restore_generation env cod eng root sid generation) (\<lambda>(ix, labels, last_ingest).
          and_then (lift_result (insert_with_id eng sid ix labels generation st)) (\<lambda>st'.
          done_with (case last_ingest of None \<Rightarrow> st' | Some r \<Rightarrow> set_ingest_record sid r st'))))) w1 = (Done st', w')"
    using assms by (auto simp: restore_dir_def tombstoned_def)
  note P = path_exists_Done [OF b]
  show ?thesis
  proof (cases b)
    case False
    then show ?thesis
      using skipped \<open>\<not> tombstoned sid\<close> valid P rest by auto
  next
    case True
    with rest obtain g w2 ix labels r w3 st1 where C: "restore_current env root sid w1 = (Done g, w2)"
        and G: "restore_generation env cod eng root sid g w2 = (Done (ix, labels, r), w3)"
        and I: "insert_with_id eng sid ix labels g st = Inr st1" "st' = with_ingest sid r st1" "w' = w3"
      by (auto simp: with_ingest_def)
    have c: "current_generation (w_files w) sid = Some g" "w_files w2 = w_files w"
      using reads_spec_Done [OF reads_restore_current C] P by auto
    have "stored_at cod eng (w_files w) sid g = Some (ix, labels, r)" "w_files w3 = w_files w"
      using reads_spec_Done [OF reads_restore_generation G] c(2) by auto
    with c(1) have "stored_shard cod eng (w_files w) sid = Some (g, ix, labels, r)" "w_files w' = w_files w"
      by (simp_all add: stored_shard_def I(3))
    then show ?thesis
      using restored \<open>\<not> tombstoned sid\<close> valid I(1,2) by blast
  qed
qed

section \<open>The registry after an open\<close>

definition mirrors_shard ::
    "('q, 'm) codec \<Rightarrow> ('q, 'm) engine \<Rightarrow> files \<Rightarrow> ('q, 'm) index_store \<Rightarrow> string \<Rightarrow> bool" where
  "mirrors_shard cod eng fs st s \<longleftrightarrow>
     (case store_get s st of
        None \<Rightarrow> store_generation s st = None \<and> store_labels s st = None \<and> store_ingest s st = None
      | Some ix \<Rightarrow>
          (case store_generation s st of
             None \<Rightarrow> False
           | Some g \<Rightarrow> stored_shard cod eng fs s = Some (g, ix, store_labels s st, store_ingest s st)))"

lemma mirrors_shard_cong:
  assumes "store_get s st' = store_get s st" and "store_generation s st' = store_generation s st"
    and "store_labels s st' = store_labels s st" and "store_ingest s st' = store_ingest s st"
  shows "mirrors_shard cod eng fs st' s \<longleftrightarrow> mirrors_shard cod eng fs st s"
  by (simp only: mirrors_shard_def assms)

text \<open>The registry holds, for every shard, nothing or exactly the content on disk.\<close>

definition mirrors ::
    "('q, 'm) codec \<Rightarrow> ('q, 'm) engine \<Rightarrow> files \<Rightarrow> ('q, 'm) index_store \<Rightarrow> bool" where
  "mirrors cod eng fs st \<longleftrightarrow> (\<forall>s. mirrors_shard cod eng fs st s)"

lemma insert_with_id_Inr:
  assumes "insert_with_id eng sid ix labels g st = Inr st'"
  shows "store_get sid st = None" "validate_shard_id sid = Inr ()"
    "\<And>v. labels = Some v \<Longrightarrow> length v = index_len eng ix"
    "store_get s st' = (if s = sid then Some ix else store_get s st)"
    "store_generation s st' = (if s = sid then Some g else store_generation s st)"
    "store_labels s st' = (if s = sid \<and> labels \<noteq> None then labels else store_labels s st)"
    "store_ingest s st' = store_ingest s st" "reg_root st' = reg_root st"
  using assms
  by (auto simp: insert_with_id_def set_generation_def store_get_def store_generation_def store_labels_def
      store_ingest_def update_conv' Let_def split: if_splits option.splits)

lemma with_ingest_sel [simp]:
  "store_get s (with_ingest sid r st) = store_get s st"
  "store_generation s (with_ingest sid r st) = store_generation s st"
  "store_labels s (with_ingest sid r st) = store_labels s st"
  "store_ingest s (with_ingest sid r st) = (if s = sid \<and> r \<noteq> None then r else store_ingest s st)"
  "reg_root (with_ingest sid r st) = reg_root st"
  by (auto simp: with_ingest_def set_ingest_record_def store_get_def store_generation_def store_labels_def
      store_ingest_def update_conv' split: option.splits)

text \<open>The content outside the tombstones is what it was.\<close>

definition same_shards :: "files \<Rightarrow> files \<Rightarrow> bool" where
  "same_shards fs fs' \<longleftrightarrow>
     (\<forall>s p. \<not> tombstoned s \<longrightarrow> node_at fs' (s # p) = node_at fs (s # p))"

lemma same_shards_content: "same_shards fs fs' \<Longrightarrow> \<not> tombstoned s \<Longrightarrow> same_content fs fs' s"
  by (simp add: same_shards_def same_content_def)

lemma restore_dir_mirrors:
  assumes "restore_dir env cod eng root sid st w = (Done st', w')" and "mirrors cod eng fs0 st"
    and "same_shards fs0 (w_files w)"
  shows "mirrors cod eng fs0 st' \<and> same_shards fs0 (w_files w') \<and> reg_root st' = reg_root st \<and>
    (\<forall>s. s \<noteq> sid \<or> store_get s st \<noteq> None \<longrightarrow> store_get s st' = store_get s st)"
  using assms(1)
proof (cases rule: restore_dir_Done)
  case tombstone
  have "node_at (w_files w') (s # p) = node_at (w_files w) (s # p)" if "\<not> tombstoned s" for s p
    using that tombstone(1) by (intro tombstone(3)) auto
  with tombstone(2) assms(2,3) show ?thesis
    by (simp add: same_shards_def)
next
  case skipped
  with assms(2,3) show ?thesis by simp
next
  case (restored g ix labels r st1)
  note I = insert_with_id_Inr [OF restored(5)]
  have "stored_shard cod eng fs0 sid = Some (g, ix, labels, r)"
    using restored(4) same_content_stored [OF same_shards_content [OF assms(3) restored(1)], of cod eng] by simp
  moreover have "mirrors_shard cod eng fs0 st sid"
    using assms(2) by (simp add: mirrors_def)
  then have "store_labels sid st = None" "store_ingest sid st = None"
    using I(1) by (simp_all add: mirrors_shard_def)
  moreover have "store_get sid st' = Some ix" "store_generation sid st' = Some g"
    using I(4) [of sid] I(5) [of sid] by (simp_all add: restored(6))
  moreover have "store_labels sid st' = labels" "store_ingest sid st' = r"
    using I(6) [of sid] I(7) [of sid] \<open>store_labels sid st = None\<close> \<open>store_ingest sid st = None\<close> by (cases labels; cases r; simp add: restored(6))+
  ultimately have new: "mirrors_shard cod eng fs0 st' sid"
    by (simp only: mirrors_shard_def option.case)
  have "mirrors_shard cod eng fs0 st' s \<longleftrightarrow> mirrors_shard cod eng fs0 st s" if "s \<noteq> sid" for s
    using that by (intro mirrors_shard_cong) (simp_all add: restored(6) I(4-7))
  with new have "mirrors cod eng fs0 st'"
    using assms(2) unfolding mirrors_def by metis
  then show ?thesis
    using assms(3) restored(2) I(1) by (auto simp: restored(6) I(4,8))
qed

section \<open>Opening the data root\<close>

lemma restore_dirs_mirrors:
  assumes "restore_dirs env cod eng root sids st w = (Done st', w')" and "mirrors cod eng fs0 st"
    and "same_shards fs0 (w_files w)"
  shows "mirrors cod eng fs0 st' \<and> reg_root st' = reg_root st \<and>
    (\<forall>s. store_get s st \<noteq> None \<longrightarrow> store_get s st' = store_get s st) \<and>
    (env = quiet \<longrightarrow> (\<forall>s \<in> set sids. \<not> tombstoned s \<and> node_at fs0 [s, CURRENT_FILE] \<noteq> None \<longrightarrow> store_get s st' \<noteq> None))"
  using assms
proof (induction sids arbitrary: st w)
  case Nil
  then show ?case by simp
next
  case (Cons sid sids)
  then obtain st1 w1 where D: "restore_dir env cod eng root sid st w = (Done st1, w1)"
      and R: "restore_dirs env cod eng root sids st1 w1 = (Done st', w')"
    by auto
  note M = restore_dir_mirrors [OF D Cons.prems(2,3)]
  have first: "store_get sid st1 \<noteq> None"
    if "env = quiet" "\<not> tombstoned sid" "node_at fs0 [sid, CURRENT_FILE] \<noteq> None"
    using D
  proof (cases rule: restore_dir_Done)
    case skipped
    then show ?thesis
      using that Cons.prems(3) by (simp add: same_shards_def)
  next
    case (restored g ix labels r st1)
    then show ?thesis
      using insert_with_id_Inr(4) [OF restored(5), of sid] by simp
  qed (use that in simp)
  have st1: "mirrors cod eng fs0 st1" "same_shards fs0 (w_files w1)" "reg_root st1 = reg_root st"
    using M by simp_all
  have keep: "store_get s st1 = store_get s st" if "store_get s st \<noteq> None" for s
    using M that by blast
  note IH = Cons.IH [OF R st1(1,2)]
  show ?case
  proof (intro conjI allI impI ballI)
    show "mirrors cod eng fs0 st'" "reg_root st' = reg_root st"
      using IH st1(3) by simp_all
    show "store_get s st' = store_get s st" if "store_get s st \<noteq> None" for s
      using IH keep [OF that] that by simp
    show "store_get s st' \<noteq> None" if "env = quiet" "s \<in> set (sid # sids)"
      "\<not> tombstoned s \<and> node_at fs0 [s, CURRENT_FILE] \<noteq> None" for s
    proof (cases "s \<in> set sids")
      case True
      then show ?thesis using IH that by simp
    next
      case False
      then have "store_get s st1 \<noteq> None" using first that by simp
      then show ?thesis using IH by simp
    qed
  qed
qed

lemma make_dirs_root [simp]: "make_dirs [] [] fs = fs"
  by simp

lemma mirrors_empty: "mirrors cod eng fs (empty_store root)"
  by (simp add: mirrors_def mirrors_shard_def empty_store_def store_get_def store_generation_def
      store_labels_def store_ingest_def)

lemma set_shard_dirs: "s \<in> set (shard_dirs fs) \<longleftrightarrow> node_at fs [s] = Some Directory"
  using set_dir_names [of s "[]" fs] by (auto simp: shard_dirs_def sort_names_def)

lemma syscall_idle_Done:
  "syscall env (ReadDir p) msg w = (Done (), w') \<Longrightarrow> w_files w' = w_files w"
  "syscall env (MkDirAll []) msg w = (Done (), w') \<Longrightarrow> w_files w' = w_files w"
  by (auto simp: syscall_def Let_def split: outcome.splits if_splits)

lemma store_open_Done:
  assumes "store_open env cod eng root w = (Done st, w')"
  shows "mirrors cod eng (w_files w) st" and "reg_root st = Some root"
    and "env = quiet \<Longrightarrow> node_at (w_files w) [s] = Some Directory \<Longrightarrow> \<not> tombstoned s \<Longrightarrow>
      node_at (w_files w) [s, CURRENT_FILE] \<noteq> None \<Longrightarrow> store_get s st \<noteq> None"
proof -
  obtain w1 w2 where "syscall env (MkDirAll []) (\<lambda>e. [Lit ''create data root '', Lit root, Lit '': '', Lit e]) w = (Done (), w1)"
      and "syscall env (ReadDir []) (path_error ''read data root'' root []) w1 = (Done (), w2)"
      and R: "restore_dirs env cod eng root (shard_dirs (w_files w2)) (empty_store (Some root)) w2 = (Done st, w')"
    using assms by (auto simp: store_open_def restore_all_def)
  then have w2: "w_files w2 = w_files w"
    by (simp add: syscall_idle_Done)
  then have "same_shards (w_files w) (w_files w2)"
    by (simp add: same_shards_def)
  note M = restore_dirs_mirrors [OF R mirrors_empty this]
  show "mirrors cod eng (w_files w) st" "reg_root st = Some root"
    using M by (simp_all add: empty_store_def)
  show "env = quiet \<Longrightarrow> node_at (w_files w) [s] = Some Directory \<Longrightarrow> \<not> tombstoned s \<Longrightarrow>
      node_at (w_files w) [s, CURRENT_FILE] \<noteq> None \<Longrightarrow> store_get s st \<noteq> None"
    using M by (simp add: set_shard_dirs w2)
qed

lemma restore_dirs_only:
  assumes "restore_dirs env cod eng root sids st w = (Done st', w')" and "store_get s st' \<noteq> None"
  shows "store_get s st \<noteq> None \<or> s \<in> set sids"
  using assms
proof (induction sids arbitrary: st w)
  case (Cons sid sids)
  then obtain st1 w1 where D: "restore_dir env cod eng root sid st w = (Done st1, w1)"
      and R: "restore_dirs env cod eng root sids st1 w1 = (Done st', w')"
    by auto
  have "store_get s st1 = store_get s st" if "s \<noteq> sid"
    using D
  proof (cases rule: restore_dir_Done)
    case (restored g ix labels r st2)
    then show ?thesis
      using that insert_with_id_Inr(4) [OF restored(5), of s] by simp
  qed simp_all
  with Cons.IH [OF R Cons.prems(2)] show ?case by (cases "s = sid") auto
qed simp

lemma store_open_only:
  assumes "store_open env cod eng root w = (Done st, w')" and "store_get s st \<noteq> None"
  shows "node_at (w_files w) [s] = Some Directory"
proof -
  obtain w1 w2 where "syscall env (MkDirAll []) (\<lambda>e. [Lit ''create data root '', Lit root, Lit '': '', Lit e]) w = (Done (), w1)"
      and "syscall env (ReadDir []) (path_error ''read data root'' root []) w1 = (Done (), w2)"
      and R: "restore_dirs env cod eng root (shard_dirs (w_files w2)) (empty_store (Some root)) w2 = (Done st, w')"
    using assms(1) by (auto simp: store_open_def restore_all_def)
  then have "w_files w2 = w_files w"
    by (simp add: syscall_idle_Done)
  then show ?thesis
    using restore_dirs_only [OF R assms(2)] by (simp add: set_shard_dirs empty_store_def store_get_def)
qed

section \<open>When an open succeeds\<close>

text \<open>A directory of the data root that an open accepts.\<close>

definition intact :: "('q, 'm) codec \<Rightarrow> ('q, 'm) engine \<Rightarrow> files \<Rightarrow> string \<Rightarrow> bool" where
  "intact cod eng fs s \<longleftrightarrow>
     validate_shard_id s = Inr () \<and>
     (node_at fs [s, CURRENT_FILE] \<noteq> None \<longrightarrow>
        (case stored_shard cod eng fs s of
           None \<Rightarrow> False
         | Some (g, ix, labels, r) \<Rightarrow> (\<forall>v. labels = Some v \<longrightarrow> length v = index_len eng ix)))"

lemma quiet_exists: "path_exists quiet p w = (Done (node_at (w_files w) p \<noteq> None), w\<lparr>w_calls := Suc (w_calls w)\<rparr>)"
  by (simp add: path_exists_def syscall_def quiet_def Let_def)

lemma quiet_reads: "reads_spec a (w_files w) (Some x) \<Longrightarrow> \<exists>n. a quiet w = (Done x, w\<lparr>w_calls := n\<rparr>)"
  unfolding reads_spec_def by fastforce

lemma quiet_current:
  "current_generation (w_files w) sid = Some g \<Longrightarrow>
   \<exists>n. restore_current quiet root sid w = (Done g, w\<lparr>w_calls := n\<rparr>)"
  using quiet_reads [of "\<lambda>env. restore_current env root sid" w g] reads_restore_current [of root sid "w_files w"]
  by simp

lemma quiet_generation:
  "stored_at cod eng (w_files w) sid g = Some x \<Longrightarrow>
   \<exists>n. restore_generation quiet cod eng root sid g w = (Done x, w\<lparr>w_calls := n\<rparr>)"
  using quiet_reads [of "\<lambda>env. restore_generation env cod eng root sid g" w x]
    reads_restore_generation [of cod eng root sid g "w_files w"]
  by simp

lemma insert_with_id_ok:
  assumes "validate_shard_id sid = Inr ()" and "store_get sid st = None"
    and "\<forall>v. labels = Some v \<longrightarrow> length v = index_len eng ix"
  shows "\<exists>st'. insert_with_id eng sid ix labels g st = Inr st'"
  using assms by (auto simp: insert_with_id_def Let_def split: option.splits)

lemma restore_dir_quiet:
  assumes "node_at (w_files w) [sid] = Some Directory"
    and "\<not> tombstoned sid \<Longrightarrow> intact cod eng (w_files w) sid" and "store_get sid st = None"
  shows "\<exists>st' w'. restore_dir quiet cod eng root sid st w = (Done st', w')"
proof (cases "tombstoned sid")
  case True
  then show ?thesis
    using assms(1) by (simp add: restore_dir_def tombstoned_def and_then_def syscall_def quiet_def Let_def done_with_def)
next
  case False
  let ?w1 = "w\<lparr>w_calls := Suc (w_calls w)\<rparr>"
  have valid: "validate_shard_id sid = Inr ()"
    using assms(2) False by (simp add: intact_def)
  show ?thesis
  proof (cases "node_at (w_files w) [sid, CURRENT_FILE] = None")
    case True
    with False valid show ?thesis
      by (simp add: restore_dir_def tombstoned_def and_then_def lift_result_def quiet_exists done_with_def)
  next
    case present: False
    then obtain g ix labels r where content: "stored_shard cod eng (w_files w) sid = Some (g, ix, labels, r)"
        and len: "\<forall>v. labels = Some v \<longrightarrow> length v = index_len eng ix"
      using assms(2) False by (auto simp: intact_def split: option.splits)
    then have "current_generation (w_files w) sid = Some g" "stored_at cod eng (w_files w) sid g = Some (ix, labels, r)"
      by (auto simp: stored_shard_def split: option.splits)
    then obtain n n' where C: "restore_current quiet root sid ?w1 = (Done g, ?w1\<lparr>w_calls := n\<rparr>)"
        and G: "restore_generation quiet cod eng root sid g (?w1\<lparr>w_calls := n\<rparr>) =
          (Done (ix, labels, r), ?w1\<lparr>w_calls := n\<rparr>\<lparr>w_calls := n'\<rparr>)"
      using quiet_current [of ?w1 sid g root]
        quiet_generation [of cod eng "w\<lparr>w_calls := m\<rparr>" sid g "(ix, labels, r)" root for m]
      by fastforce
    obtain st1 where "insert_with_id eng sid ix labels g st = Inr st1"
      using insert_with_id_ok [OF valid assms(3) len] by blast
    with False valid present C G show ?thesis
      by (simp add: restore_dir_def tombstoned_def and_then_def lift_result_def quiet_exists done_with_def)
  qed
qed

lemma restore_dirs_quiet:
  assumes "distinct sids" and "\<forall>s \<in> set sids. node_at (w_files w) [s] = Some Directory"
    and "\<forall>s \<in> set sids. \<not> tombstoned s \<longrightarrow> intact cod eng (w_files w) s" and "\<forall>s \<in> set sids. store_get s st = None"
  shows "\<exists>st' w'. restore_dirs quiet cod eng root sids st w = (Done st', w')"
  using assms
proof (induction sids arbitrary: st w)
  case Nil
  then show ?case by simp
next
  case (Cons sid sids)
  then obtain st1 w1 where D: "restore_dir quiet cod eng root sid st w = (Done st1, w1)"
    using restore_dir_quiet [of w sid cod eng st root] by auto
  have others: "store_get s st1 = store_get s st" if "s \<noteq> sid" for s
    using D
  proof (cases rule: restore_dir_Done)
    case (restored g ix labels r st2)
    then show ?thesis
      using that insert_with_id_Inr(4) [OF restored(5), of s] by simp
  qed simp_all
  have kept: "node_at (w_files w1) (s # p) = node_at (w_files w) (s # p)" if "s \<noteq> sid" for s p
    using D
  proof (cases rule: restore_dir_Done)
    case tombstone
    then show ?thesis using that by simp
  qed simp_all
  have ne: "s \<noteq> sid" if "s \<in> set sids" for s
    using that Cons.prems(1) by auto
  have same: "same_content (w_files w) (w_files w1) s" if "s \<noteq> sid" for s
    using kept [OF that] by (simp add: same_content_def)
  have "intact cod eng (w_files w1) s" if "s \<in> set sids" "\<not> tombstoned s" for s
  proof -
    have "intact cod eng (w_files w) s" using that Cons.prems(3) by simp
    then show ?thesis
      unfolding intact_def same_content_stored [OF same [OF ne [OF that(1)]]] kept [OF ne [OF that(1)]] .
  qed
  then have "\<exists>st' w'. restore_dirs quiet cod eng root sids st1 w1 = (Done st', w')"
    using Cons.prems(1,2,4) others [OF ne] kept [OF ne] by (intro Cons.IH) auto
  then show ?case
    by (auto simp: and_then_def D)
qed

lemma distinct_dir_names: "distinct (map fst fs) \<Longrightarrow> distinct (dir_names p fs)"
proof (induction fs)
  case (Cons e fs)
  obtain q x where e: "e = (q, x)" by (cases e)
  have "last q \<notin> set (dir_names p fs)" if "q \<noteq> []" "butlast q = p"
  proof
    assume "last q \<in> set (dir_names p fs)"
    then have "node_at fs (p @ [last q]) \<noteq> None"
      by (simp only: set_dir_names not_False_eq_True)
    moreover have "p @ [last q] = q"
      using append_butlast_last_id [OF that(1)] that(2) by simp
    ultimately show False
      using Cons.prems by (auto simp: e map_of_eq_None_iff)
  qed
  with Cons show ?case
    by (auto simp: e dir_names_def)
qed (simp add: dir_names_def)

lemma restore_dirs_intact:
  assumes "restore_dirs quiet cod eng root sids st w = (Done st', w')" and "same_shards fs0 (w_files w)"
    and "s \<in> set sids" and "\<not> tombstoned s"
  shows "intact cod eng fs0 s"
  using assms(1-3)
proof (induction sids arbitrary: st w)
  case (Cons sid sids)
  then obtain st1 w1 where D: "restore_dir quiet cod eng root sid st w = (Done st1, w1)"
      and R: "restore_dirs quiet cod eng root sids st1 w1 = (Done st', w')"
    by auto
  have same: "same_shards fs0 (w_files w1)"
    using D
  proof (cases rule: restore_dir_Done)
    case tombstone
    have "node_at (w_files w1) (s # p) = node_at (w_files w) (s # p)" if "\<not> tombstoned s" for s p
      using that tombstone(1) by (intro tombstone(3)) auto
    then show ?thesis using Cons.prems(2) by (simp add: same_shards_def)
  qed (use Cons.prems(2) in simp_all)
  show ?case
  proof (cases "s = sid")
    case True
    from D show ?thesis
    proof (cases rule: restore_dir_Done)
      case tombstone
      then show ?thesis using True assms(4) by simp
    next
      case skipped
      then show ?thesis
        using True assms(4) Cons.prems(2) by (simp add: intact_def same_shards_def)
    next
      case (restored g ix labels r st2)
      then show ?thesis
        using True insert_with_id_Inr(3) [OF restored(5)]
          same_content_stored [OF same_shards_content [OF Cons.prems(2) restored(1)], of cod eng]
        by (simp add: intact_def)
    qed
  next
    case False
    then show ?thesis
      using Cons.IH [OF R same] Cons.prems(3) by simp
  qed
qed simp

section \<open>Properties\<close>

text \<open>
  C19. A restart serves what is on disk: whatever the file system does, an open that returns a registry
  has registered nothing but complete generations that \<open>CURRENT\<close> points to, each with the index,
  labels, generation and ingest record of its verified files; without faults every shard with a
  \<open>CURRENT\<close> pointer is registered.
\<close>

theorem open_mirrors_disk:
  assumes "store_open env cod eng root w = (Done st, w')"
  shows "(\<forall>s. case store_get s st of
      None \<Rightarrow> store_generation s st = None \<and> store_labels s st = None \<and> store_ingest s st = None
    | Some ix \<Rightarrow> (\<exists>g. store_generation s st = Some g \<and>
        stored_shard cod eng (w_files w) s = Some (g, ix, store_labels s st, store_ingest s st))) \<and>
    (env = quiet \<longrightarrow> (\<forall>s. node_at (w_files w) [s] = Some Directory \<and> \<not> tombstoned s \<and>
       node_at (w_files w) [s, CURRENT_FILE] \<noteq> None \<longrightarrow> store_get s st \<noteq> None))"
proof (intro conjI allI impI)
  fix s
  have "mirrors_shard cod eng (w_files w) st s"
    using store_open_Done(1) [OF assms] by (simp add: mirrors_def)
  then show "case store_get s st of
      None \<Rightarrow> store_generation s st = None \<and> store_labels s st = None \<and> store_ingest s st = None
    | Some ix \<Rightarrow> (\<exists>g. store_generation s st = Some g \<and>
        stored_shard cod eng (w_files w) s = Some (g, ix, store_labels s st, store_ingest s st))"
    by (auto simp: mirrors_shard_def split: option.splits)
qed (use store_open_Done(3) [OF assms] in blast)

text \<open>
  C20. Corruption is never served: without faults an open succeeds exactly when every directory of the
  data root that is not a tombstone has a valid shard name and, if it has a \<open>CURRENT\<close> pointer, points
  to a generation whose manifest, checksums, shape, calibration bits and labels all agree; otherwise
  the whole open fails.
\<close>

theorem open_succeeds_iff_intact:
  assumes "distinct (map fst (w_files w))"
  shows "(\<exists>st w'. store_open quiet cod eng root w = (Done st, w')) \<longleftrightarrow>
    (\<forall>s. node_at (w_files w) [s] = Some Directory \<and> \<not> tombstoned s \<longrightarrow> intact cod eng (w_files w) s)"
proof -
  let ?w2 = "w\<lparr>w_calls := Suc (Suc (w_calls w))\<rparr>"
  have "store_open quiet cod eng root w =
      restore_dirs quiet cod eng root (shard_dirs (w_files w)) (empty_store (Some root)) ?w2"
    by (simp add: store_open_def restore_all_def and_then_def syscall_def quiet_def Let_def)
  moreover have "\<exists>st w'. restore_dirs quiet cod eng root (shard_dirs (w_files w)) (empty_store (Some root)) ?w2 = (Done st, w')"
    if "\<forall>s. node_at (w_files w) [s] = Some Directory \<and> \<not> tombstoned s \<longrightarrow> intact cod eng (w_files w) s"
    using that distinct_dir_names [OF assms, of "[]"]
    by (intro restore_dirs_quiet)
      (auto simp: set_shard_dirs empty_store_def store_get_def shard_dirs_def sort_names_def)
  moreover have "intact cod eng (w_files w) s"
    if "restore_dirs quiet cod eng root (shard_dirs (w_files w)) (empty_store (Some root)) ?w2 = (Done st, w')"
      "node_at (w_files w) [s] = Some Directory" "\<not> tombstoned s" for s st w'
    using restore_dirs_intact [OF that(1), of "w_files w" s] that(2,3)
    by (simp add: set_shard_dirs same_shards_def)
  ultimately show ?thesis
    by metis
qed

end
