(* ===== verification/Shard_Properties.thy ===== *)
theory Shard_Properties
  imports Shard_Restore
begin

text \<open>
  The promises of the shard store, stated over its operations: persisting, deleting and reopening,
  for every fault and crash of the file system; and what a crash in the middle of a persist costs.
\<close>

section \<open>Persisting\<close>

definition next_generation :: "string \<Rightarrow> ('q, 'm) index_store \<Rightarrow> u64" where
  "next_generation sid st = (case store_generation sid st of None \<Rightarrow> 0 | Some g \<Rightarrow> g) + 1"

lemma next_generation_unat:
  "checked_add_u64 (case store_generation sid st of None \<Rightarrow> 0 | Some g \<Rightarrow> g) 1 = Some g \<Longrightarrow>
   g = next_generation sid st \<and> unat g = Suc (case store_generation sid st of None \<Rightarrow> 0 | Some g \<Rightarrow> unat g)"
  using checked_add_u64_Some [of "case store_generation sid st of None \<Rightarrow> 0 | Some g \<Rightarrow> g" 1 g]
  by (auto simp: next_generation_def checked_add_u64_def split: option.splits if_splits)

text \<open>The run of a persist that is not refused before it touches the disk.\<close>

lemma persist_runs:
  assumes "persist env cod eng u v sid st w = (r, w')"
  obtains (refused) m where "r = Error m" "w' = w"
  | (running) root ix g where "reg_root st = Some root" "store_get sid st = Some ix" "g = next_generation sid st"
      "unat g = Suc (case store_generation sid st of None \<Rightarrow> 0 | Some g \<Rightarrow> unat g)"
      "and_then (write_generation env cod eng u v root sid g ix (store_labels sid st) (store_ingest sid st)) (\<lambda>_.
         and_then (cleanup_old_generations env sid g) (\<lambda>_. done_with (g, set_generation sid g st))) w = (r, w')"
  using assms next_generation_unat [of sid st]
  by (auto simp: persist_def fail_with_def Let_def split: option.splits)

lemma persist_triple:
  assumes "codec_law cod" and "label_table_fits labels"
  shows "triple (\<lambda>fs. fs = fs0)
    (and_then (write_generation env cod eng u v root sid g ix labels r) (\<lambda>_.
       and_then (cleanup_old_generations env sid g) (\<lambda>_. done_with x)))
    (\<lambda>y fs. y = x \<and> persist_done cod eng fs0 sid (g, ix, labels, r) fs)
    (persist_safe cod eng fs0 sid (g, ix, labels, r))"
proof (rule triple_then [OF write_generation_triple [OF assms]])
  have "triple (persist_done cod eng fs0 sid (g, ix, labels, r)) (cleanup_old_generations env sid g)
      (\<lambda>_. persist_done cod eng fs0 sid (g, ix, labels, r)) (persist_safe cod eng fs0 sid (g, ix, labels, r))"
    by (rule triple_post [OF cleanup_triple]) (auto intro: persist_done_safe)
  then show "triple (persist_done cod eng fs0 sid (g, ix, labels, r))
      (and_then (cleanup_old_generations env sid g) (\<lambda>_. done_with x))
      (\<lambda>y fs. y = x \<and> persist_done cod eng fs0 sid (g, ix, labels, r) fs)
      (persist_safe cod eng fs0 sid (g, ix, labels, r))"
    by (rule triple_then) (simp add: triple_done)
qed

lemma persist_Done:
  assumes "codec_law cod" and "label_table_fits (store_labels sid st)"
    and "persist env cod eng u v sid st w = (Done (g, st'), w')"
  shows "\<exists>ix. store_get sid st = Some ix \<and> st' = set_generation sid g st \<and>
    unat g = Suc (case store_generation sid st of None \<Rightarrow> 0 | Some g \<Rightarrow> unat g) \<and>
    persist_done cod eng (w_files w) sid (g, ix, store_labels sid st, store_ingest sid st) (w_files w')"
  using assms(3)
proof (cases rule: persist_runs)
  case (running root ix g')
  from triple_run [OF persist_triple [OF assms(1,2)] refl running(5)] running(2,4) show ?thesis
    by auto
qed simp

text \<open>A persist that fails or dies leaves the old content or the new one.\<close>

lemma persist_fault:
  assumes "codec_law cod" and "label_table_fits (store_labels sid st)"
    and "persist env cod eng u v sid st w = (r, w')" and "\<And>x. r \<noteq> Done x"
  shows "w_files w' = w_files w \<or>
    (\<exists>ix. store_get sid st = Some ix \<and>
       persist_safe cod eng (w_files w) sid
         (next_generation sid st, ix, store_labels sid st, store_ingest sid st) (w_files w'))"
  using assms(3)
proof (cases rule: persist_runs)
  case (running root ix g)
  from triple_fault [OF persist_triple [OF assms(1,2)] refl running(5)] assms(4) running(2,3)
  show ?thesis by auto
qed simp

lemma same_contents: "(\<forall>s. s \<noteq> sid \<longrightarrow> same_content fs0 fs s) \<Longrightarrow> s \<noteq> sid \<Longrightarrow>
  stored_shard cod eng fs s = stored_shard cod eng fs0 s"
  using same_content_stored by blast

text \<open>
  C18. Persisting is atomic: whatever call fails and wherever the process dies, the content of the
  shard on disk is afterwards either what it was or the registry's index with its labels and ingest
  record under the next generation, and no other shard has changed. A persist that returns has
  moved to the new content and advanced the registry's generation by one.
\<close>

theorem persist_moves_to_new:
  assumes "codec_law cod" and "label_table_fits (store_labels sid st)"
    and "persist env cod eng u v sid st w = (r, w')"
  shows "(\<forall>s. s \<noteq> sid \<longrightarrow> stored_shard cod eng (w_files w') s = stored_shard cod eng (w_files w) s) \<and>
    (case r of
       Done (g, st') \<Rightarrow>
         unat g = Suc (case store_generation sid st of None \<Rightarrow> 0 | Some g \<Rightarrow> unat g) \<and>
         st' = set_generation sid g st \<and>
         (\<exists>ix. store_get sid st = Some ix \<and>
            stored_shard cod eng (w_files w') sid = Some (g, ix, store_labels sid st, store_ingest sid st))
     | _ \<Rightarrow>
         stored_shard cod eng (w_files w') sid = stored_shard cod eng (w_files w) sid \<or>
         (\<exists>ix. store_get sid st = Some ix \<and> stored_shard cod eng (w_files w') sid =
            Some (next_generation sid st, ix, store_labels sid st, store_ingest sid st)))"
proof (cases "\<exists>g st'. r = Done (g, st')")
  case True
  then obtain g st' where r: "r = Done (g, st')" by blast
  note P = persist_Done [OF assms(1,2) assms(3) [unfolded r]]
  then have "\<forall>s. s \<noteq> sid \<longrightarrow> stored_shard cod eng (w_files w') s = stored_shard cod eng (w_files w) s"
    using same_content_stored unfolding persist_done_def by blast
  with P show ?thesis
    by (auto simp: r persist_done_def)
next
  case False
  then have "r \<noteq> Done x" for x
    by (cases x) simp
  note F = persist_fault [OF assms this]
  from F have "\<forall>s. s \<noteq> sid \<longrightarrow> stored_shard cod eng (w_files w') s = stored_shard cod eng (w_files w) s"
    using same_contents by (auto simp: persist_safe_def)
  with F \<open>\<And>x. r \<noteq> Done x\<close> show ?thesis
    by (cases r) (auto simp: persist_safe_def)
qed

section \<open>The shard directory\<close>

definition keeps :: "(files \<Rightarrow> bool) \<Rightarrow> 'a action \<Rightarrow> bool" where
  "keeps P a \<longleftrightarrow> triple P a (\<lambda>_. P) P"

named_theorems keeps_intros

lemma keeps_then [keeps_intros]: "keeps P a \<Longrightarrow> (\<And>x. keeps P (f x)) \<Longrightarrow> keeps P (and_then a f)"
  unfolding keeps_def by (rule triple_then)

lemma keeps_basic [keeps_intros]:
  "keeps P (done_with x)" "keeps P (fail_with m)" "keeps P (path_exists env p)" "keeps P (read_bytes env p msg)"
  "keeps P (syscall env (Sync p) e)" "keeps P (syscall env (Stat p) e)" "keeps P (syscall env (Open p) e)"
  "keeps P (syscall env (ReadDir p) e)"
  unfolding keeps_def
  by (auto intro: triple_done triple_fail triple_path_exists triple_read_bytes triple_idle)

lemma keeps_ignoring [keeps_intros]: "keeps P a \<Longrightarrow> keeps P (ignoring a)"
  unfolding keeps_def by (rule triple_ignoring)

lemma keeps_or_cleanup [keeps_intros]: "keeps P a \<Longrightarrow> keeps P c \<Longrightarrow> keeps P (or_cleanup a c)"
  unfolding keeps_def by (rule triple_or_cleanup)

lemma keeps_each [keeps_intros]: "(\<And>x. keeps P (f x)) \<Longrightarrow> keeps P (each f xs)"
  unfolding keeps_def by (rule triple_each)

lemma keeps_files: "(\<And>fs. keeps P (g fs)) \<Longrightarrow> keeps P (\<lambda>w. g (w_files w) w)"
  by (simp add: keeps_def triple_def)

abbreviation is_shard_dir :: "string \<Rightarrow> files \<Rightarrow> bool" where
  "is_shard_dir sid fs \<equiv> node_at fs [sid] = Some Directory"

text \<open>What happens below the directory of a shard keeps every shard directory.\<close>

lemma keeps_below [keeps_intros]:
  "keeps (is_shard_dir s) (syscall env (Create (sid # n # p)) e)"
  "keeps (is_shard_dir s) (syscall env (Write (sid # n # p) d) e)"
  "keeps (is_shard_dir s) (syscall env (MkDir (sid # n # p)) e)"
  "keeps (is_shard_dir s) (syscall env (RemoveAll (sid # n # p)) e)"
  "a \<noteq> b \<Longrightarrow> keeps (is_shard_dir s) (syscall env (Move [sid, a] [sid, b]) e)"
proof -
  show "keeps (is_shard_dir s) (syscall env (Create (sid # n # p)) e)"
    "keeps (is_shard_dir s) (syscall env (Write (sid # n # p) d) e)"
    "keeps (is_shard_dir s) (syscall env (MkDir (sid # n # p)) e)"
    unfolding keeps_def by (rule triple_syscall; auto split: if_splits)+
  show "keeps (is_shard_dir s) (syscall env (RemoveAll (sid # n # p)) e)"
    unfolding keeps_def by (rule triple_remove_all) auto
  show "keeps (is_shard_dir s) (syscall env (Move [sid, a] [sid, b]) e)" if "a \<noteq> b"
    unfolding keeps_def using that by (intro triple_move) (auto simp: node_at_move_tree)
qed

lemma keeps_write_synced [keeps_intros]: "keeps (is_shard_dir s) (write_synced env root (sid # n # p) d)"
  unfolding write_synced_def by (intro keeps_intros)

lemma keeps_contents: "keeps (is_shard_dir s) (write_contents env cod eng root [sid, t] sid' g ix labels r)"
  unfolding write_contents_def Let_def sync_file_def file_size_crc_def write_labels_def split_beta append.simps
  by (cases labels) (simp_all only: option.case, (intro keeps_intros)+)

lemma keeps_activate:
  "a \<noteq> b \<Longrightarrow> c \<noteq> CURRENT_FILE \<Longrightarrow>
   keeps (is_shard_dir s) (activate_generation env cod root sid [sid, a] [sid, b] [sid, c] g m)"
  unfolding activate_generation_def sync_dir_def append.simps
  by (cases "encode_manifest cod m") (auto intro!: keeps_intros)

lemma triple_keeps: "keeps P a \<Longrightarrow> triple P a (\<lambda>_. P) (\<lambda>_. True)"
  unfolding keeps_def by (erule triple_post) simp_all

lemma write_generation_dirs:
  assumes "triple P (syscall env (MkDirAll [sid]) (path_error ''create shard directory'' root [sid]))
    (\<lambda>_. is_shard_dir s) (\<lambda>_. True)"
  shows "triple P (write_generation env cod eng u v root sid g ix labels r) (\<lambda>_. is_shard_dir s) (\<lambda>_. True)"
proof -
  have "keeps (is_shard_dir s)
      (or_cleanup
        (and_then (write_contents env cod eng root [sid, temp_name g u] sid g ix labels r) (\<lambda>m.
           activate_generation env cod root sid [sid, temp_name g u] [sid, generation_name g]
             [sid, current_temp_name v] g m))
        (syscall env (RemoveAll [sid, temp_name g u]) (\<lambda>_. [])))"
    by (intro keeps_intros keeps_contents keeps_activate) simp_all
  then show ?thesis
    unfolding write_generation_def Let_def
    by (intro triple_then [OF assms] triple_keeps keeps_then keeps_basic) (simp add: keeps_intros)
qed

lemma cleanup_dir: "keeps (is_shard_dir s) (cleanup_old_generations env sid g)"
  unfolding cleanup_old_generations_def by (intro keeps_intros keeps_files)

lemma persist_dirs:
  assumes "persist env cod eng u v sid st w = (Done x, w')"
    and "triple P (syscall env (MkDirAll [sid]) (path_error ''create shard directory'' (the (reg_root st)) [sid]))
      (\<lambda>_. is_shard_dir s) (\<lambda>_. True)" and "P (w_files w)"
  shows "is_shard_dir s (w_files w')"
  using assms(1)
proof (cases rule: persist_runs)
  case (running root ix g)
  have "triple P (and_then (write_generation env cod eng u v root sid g ix (store_labels sid st) (store_ingest sid st)) (\<lambda>_.
         and_then (cleanup_old_generations env sid g) (\<lambda>_. done_with (g, set_generation sid g st))))
      (\<lambda>_. is_shard_dir s) (\<lambda>_. True)"
    by (rule triple_then [OF write_generation_dirs], use assms(2) running(1) in simp,
        rule triple_then [OF triple_keeps [OF cleanup_dir]], rule triple_done)
  from triple_run [OF this assms(3) running(5)] show ?thesis .
qed simp

lemma persist_dir:
  assumes "persist env cod eng u v sid st w = (Done x, w')"
  shows "is_shard_dir sid (w_files w')"
proof (rule persist_dirs [OF assms, where P = "\<lambda>_. True"])
  show "triple (\<lambda>_. True) (syscall env (MkDirAll [sid]) (path_error ''create shard directory'' (the (reg_root st)) [sid]))
      (\<lambda>_. is_shard_dir sid) (\<lambda>_. True)"
    by (rule triple_syscall) (auto split: if_splits)
qed simp

lemma persist_other_dir:
  assumes "persist env cod eng u v sid st w = (Done x, w')" and "is_shard_dir s (w_files w)"
  shows "is_shard_dir s (w_files w')"
proof (rule persist_dirs [OF assms(1), where P = "is_shard_dir s"])
  show "triple (is_shard_dir s) (syscall env (MkDirAll [sid]) (path_error ''create shard directory'' (the (reg_root st)) [sid]))
      (\<lambda>_. is_shard_dir s) (\<lambda>_. True)"
    by (rule triple_syscall) (auto split: if_splits)
qed (rule assms(2))

text \<open>
  What a persist wrote, the next start serves: after a persist that returned, a restart that opens
  the data root registers the shard with the same index, labels and ingest record, under the
  generation the persist returned.
\<close>

theorem persist_then_open:
  assumes "codec_law cod" and "label_table_fits (store_labels sid st)" and "\<not> tombstoned sid"
    and "persist env cod eng u v sid st w = (Done (g, st'), w')"
    and "store_open quiet cod eng root w' = (Done st2, w'')"
  shows "store_get sid st2 = store_get sid st \<and> store_get sid st \<noteq> None \<and> store_generation sid st2 = Some g \<and>
    store_labels sid st2 = store_labels sid st \<and> store_ingest sid st2 = store_ingest sid st"
proof -
  obtain ix where ix: "store_get sid st = Some ix"
      and stored: "stored_shard cod eng (w_files w') sid = Some (g, ix, store_labels sid st, store_ingest sid st)"
    using persist_Done [OF assms(1,2,4)] unfolding persist_done_def by blast
  have "node_at (w_files w') [sid, CURRENT_FILE] \<noteq> None"
    using stored by (auto simp: stored_shard_def current_generation_def file_at_def split: option.splits)
  then obtain ix2 where "store_get sid st2 = Some ix2"
    using store_open_Done(3) [OF assms(5) refl persist_dir [OF assms(4)] assms(3)] by blast
  then show ?thesis
    using store_open_Done(1) [OF assms(5)] stored ix
    by (auto simp: mirrors_def mirrors_shard_def dest!: spec [of _ sid] split: option.splits)
qed

section \<open>Deleting\<close>

lemma tombstone_differs [simp]: "tombstone_name sid uuid \<noteq> sid" "sid \<noteq> tombstone_name sid uuid"
proof -
  have "length sid < length (tombstone_name sid uuid)"
    by (simp add: tombstone_name_def)
  then show "tombstone_name sid uuid \<noteq> sid" "sid \<noteq> tombstone_name sid uuid"
    by auto
qed

lemma tombstone_tombstoned: "tombstoned (tombstone_name sid uuid)"
  by (simp add: tombstoned_def tombstone_name_def)

definition deleted :: "files \<Rightarrow> string \<Rightarrow> files \<Rightarrow> bool" where
  "deleted fs0 sid fs \<longleftrightarrow>
     node_at fs [sid] = None \<and> (\<forall>s p. s \<noteq> sid \<and> \<not> tombstoned s \<longrightarrow> node_at fs (s # p) = node_at fs0 (s # p))"

lemma deleted_removed:
  assumes "deleted fs0 sid fs" and "\<And>q. \<not> prefix [tombstone_name sid u] q \<Longrightarrow> node_at fs' q = node_at fs q"
  shows "deleted fs0 sid fs'"
proof -
  have "node_at fs' (s # p) = node_at fs (s # p)" if "\<not> tombstoned s" for s p
    using that tombstone_tombstoned [of sid u] by (intro assms(2)) auto
  with assms show ?thesis
    by (simp add: deleted_def)
qed

lemma delete_files_triple:
  assumes "\<forall>n. env n (Stat [sid]) = Fine"
  shows "triple (\<lambda>fs. fs = fs0) (delete_files env u root sid)
    (\<lambda>found fs. deleted fs0 sid fs \<and> found = (node_at fs0 [sid] \<noteq> None)) (\<lambda>fs. fs = fs0 \<or> deleted fs0 sid fs)"
proof -
  let ?E = "\<lambda>fs. fs = fs0 \<or> deleted fs0 sid fs"
  let ?found = "node_at fs0 [sid] \<noteq> None"
  have ask: "triple (\<lambda>fs. fs = fs0) (path_exists env [sid]) (\<lambda>b fs. fs = fs0 \<and> b = ?found) ?E"
    using assms by (auto simp: triple_def path_exists_def syscall_def Let_def)
  have moved: "triple (\<lambda>fs. fs = fs0) (syscall env (Move [sid] [tombstone_name sid u]) e) (\<lambda>_. deleted fs0 sid) ?E" for e
    by (rule triple_move) (use tombstone_tombstoned in \<open>auto simp: deleted_def node_at_move_tree\<close>)
  have gone: "triple (deleted fs0 sid) (syscall env (RemoveAll [tombstone_name sid u]) e) (\<lambda>_. deleted fs0 sid) ?E" for e
    by (rule triple_remove_all) (auto intro: deleted_removed)
  have sync: "triple (deleted fs0 sid) (syscall env (Sync []) e) (\<lambda>_. deleted fs0 sid) ?E" for e
    by (rule triple_idle) simp
  have "triple (\<lambda>fs. fs = fs0) (if \<not> b then done_with False else
      (let tombstone = [tombstone_name sid u] in
          and_then (syscall env (Move [sid] tombstone) (path_error ''tombstone shard'' root [sid])) (\<lambda>_.
          and_then (syscall env (Sync []) (path_error ''sync directory'' root [])) (\<lambda>_.
          and_then (syscall env (RemoveAll tombstone) (path_error ''remove tombstoned shard'' root tombstone)) (\<lambda>_.
          and_then (syscall env (Sync []) (path_error ''sync directory'' root [])) (\<lambda>_.
          done_with True))))))
      (\<lambda>found fs. deleted fs0 sid fs \<and> found = ?found) ?E" if "b = ?found" for b
  proof (cases b)
    case True
    then show ?thesis
      using that unfolding Let_def
      by simp (intro triple_then [OF moved] triple_then [OF sync] triple_then [OF gone] triple_done, simp)
  next
    case False
    then show ?thesis
      using that by (auto intro!: triple_done simp: deleted_def)
  qed
  then show ?thesis
    unfolding delete_files_def by (intro triple_then [OF ask] triple_pure)
qed

lemma store_get_forget [simp]:
  "store_get s (forget sid st) = (if s = sid then None else store_get s st)"
  "store_labels s (forget sid st) = (if s = sid then None else store_labels s st)"
  "store_generation s (forget sid st) = (if s = sid then None else store_generation s st)"
  "store_ingest s (forget sid st) = (if s = sid then None else store_ingest s st)"
  by (simp_all add: forget_def store_get_def store_labels_def store_generation_def store_ingest_def delete_conv')

lemma store_delete_runs:
  assumes "store_delete env u sid st w = (r, w')" and "reg_root st = Some root"
  obtains (invalid) m where "r = Error m" and "w' = w"
    | (running) d where "delete_files env u root sid w = (d, w')"
        and "r = (case d of Done found \<Rightarrow> Done (store_get sid st \<noteq> None \<or> found, forget sid st)
               | Error m \<Rightarrow> Error m | Crashed \<Rightarrow> Crashed)"
  using assms
  by (cases "validate_shard_id sid"; cases "delete_files env u root sid w"; cases "fst (delete_files env u root sid w)")
    (auto simp: store_delete_def and_then_def lift_result_def fail_with_def done_with_def)

lemma deleted_others:
  assumes "fs = fs0 \<or> deleted fs0 sid fs" and "s \<noteq> sid" and "\<not> tombstoned s"
  shows "stored_shard cod eng fs s = stored_shard cod eng fs0 s"
proof -
  have "same_content fs0 fs s"
    using assms by (auto simp: deleted_def same_content_def)
  then show ?thesis by (rule same_content_stored)
qed


section \<open>A generation left behind by a crash\<close>

text \<open>
  C22. A generation directory that \<open>CURRENT\<close> does not point to blocks the shard for good: as long as the
  store can see the directory of its next generation, no persist returns, whatever else the file
  system does, and nothing it serves after a restart changes.
\<close>

theorem leftover_generation_blocks:
  assumes "store_get sid st \<noteq> None" and "reg_root st \<noteq> None"
    and "node_at (w_files w) [sid, generation_name (next_generation sid st)] \<noteq> None"
    and "\<forall>n p. env n (Stat p) = Fine"
    and "persist env cod eng u v sid st w = (r, w')"
  shows "(\<forall>x. r \<noteq> Done x) \<and> (\<forall>s. stored_shard cod eng (w_files w') s = stored_shard cod eng (w_files w) s)"
  using assms(5)
proof (cases rule: persist_runs)
  case (running root ix g)
  let ?F = "[sid, generation_name g]"
  let ?P = "\<lambda>fs. node_at fs ?F \<noteq> None \<and> (\<forall>s. same_content (w_files w) fs s)"
  have made: "triple (\<lambda>fs. fs = w_files w) (syscall env (MkDirAll [sid]) e) (\<lambda>_. ?P) (\<lambda>fs. \<forall>s. same_content (w_files w) fs s)" for e
    by (rule triple_syscall)
      (use assms(3) running(3) in \<open>auto simp: same_content_def node_at_make_dirs prefix_Cons strict_prefix_def split: if_splits\<close>)
  have found: "triple ?P (path_exists env ?F) (\<lambda>b fs. (\<forall>s. same_content (w_files w) fs s) \<and> b) (\<lambda>fs. \<forall>s. same_content (w_files w) fs s)"
    using assms(4) by (auto simp: triple_def path_exists_def syscall_def Let_def)
  have "triple (\<lambda>fs. fs = w_files w) (write_generation env cod eng u v root sid g ix (store_labels sid st) (store_ingest sid st))
      (\<lambda>_ _. False) (\<lambda>fs. \<forall>s. same_content (w_files w) fs s)"
    unfolding write_generation_def Let_def
    by (rule triple_then [OF made], rule triple_then [OF found], rule triple_pure) (simp add: triple_fail)
  then have T: "triple (\<lambda>fs. fs = w_files w)
     (and_then (write_generation env cod eng u v root sid g ix (store_labels sid st) (store_ingest sid st)) (\<lambda>_.
         and_then (cleanup_old_generations env sid g) (\<lambda>_. done_with (g, set_generation sid g st))))
      (\<lambda>_ _. False) (\<lambda>fs. \<forall>s. same_content (w_files w) fs s)"
    by (rule triple_then) (simp add: triple_def)
  then have "\<forall>x. r \<noteq> Done x"
    using triple_run [OF T refl] running(5) by auto
  moreover from this have "\<forall>s. same_content (w_files w) (w_files w') s"
    using triple_fault [OF T refl running(5)] by blast
  ultimately show ?thesis
    using same_content_stored by blast
qed simp

end
