(* ===== verification/Shard_Examples.thy ===== *)
theory Shard_Examples
  imports Shard_Properties
begin

text \<open>
  The shard store run on a concrete engine and file format: the properties of the store at concrete
  inputs, a crash between the two renames of a persist, and what an unreadable directory does.
\<close>

section \<open>A concrete store\<close>

text \<open>An engine whose index is the list of its code bytes, and a format for one shard.\<close>

definition demo_engine :: "(bytes, unit) engine" where
  "demo_engine =
     \<lparr>q_len = length, q_dim_opt = (\<lambda>_. Some 8), q_bit_width = (\<lambda>_. 1), q_packed_codes = (\<lambda>q. q),
      q_scales = (\<lambda>q. map (\<lambda>_. F32 0) q), q_tqplus_shift = (\<lambda>_. []), q_tqplus_scale = (\<lambda>_. []),
      q_calibration_state = (\<lambda>_. Uncalibrated),
      q_from_parts = (\<lambda>_ _ _ codes _ _ _. Inr codes), q_new = (\<lambda>_ _. Inr []), q_new_lazy = (\<lambda>_. Inr []),
      q_add_2d = (\<lambda>q vs dim. Inr (q @ replicate (length vs div dim) 0)), q_search = (\<lambda>_ _ _ _. None),
      m_len = (\<lambda>_. 0), m_dim_opt = (\<lambda>_. None), m_bit_width = (\<lambda>_. 4), m_calibration_state = (\<lambda>_. Uncalibrated),
      m_contains = (\<lambda>_ _. False), m_new = (\<lambda>_ _. Inr ()), m_new_lazy = (\<lambda>_. Inr ()),
      m_add_with_ids_2d = (\<lambda>_ _ _ _. Inl ''unsupported''), m_remove = (\<lambda>_ _. (False, ())),
      m_search = (\<lambda>_ _ _. None), m_search_with_allowlist = (\<lambda>_ _ _ _. None), first_invalid_coord = (\<lambda>_ _. None)\<rparr>"

definition demo_manifest :: "u64 \<Rightarrow> shard_manifest" where
  "demo_manifest g =
     manifest_for demo_engine ''s'' g (Positional [7, 9])
       \<lparr>pf_index_bytes = 2, pf_index_crc32 = 16, pf_labelled = True, pf_labels_count = 2, pf_labels_crc32 = 3\<rparr> None"

definition demo_codec :: "(bytes, unit) codec" where
  "demo_codec =
     \<lparr>write_positional = (\<lambda>q. q), load_positional = Inr, write_id_map = (\<lambda>_. []), load_id_map = (\<lambda>_. Inr ()),
      crc32 = (\<lambda>bs. sum_list (map ucast bs)),
      encode_manifest = (\<lambda>m. if m = demo_manifest (sm_generation m) then Inr (u64_to_le_bytes (sm_generation m))
        else Inl ''unsupported''),
      decode_manifest = (\<lambda>d. Inr (demo_manifest (u64_from_le_bytes d)))\<rparr>"

lemma demo_codec_law: "codec_law demo_codec"
  by (auto simp: codec_law_def demo_codec_def split: if_splits)

definition demo_store :: "(bytes, unit) index_store" where
  "demo_store =
     \<lparr>reg_inner = [(''s'', Positional [7, 9])], reg_labels = [(''s'', [1, 2])], reg_generations = [(''s'', 0)],
      reg_ingests = [], reg_root = Some ''/d''\<rparr>"

definition no_files :: world where
  "no_files = \<lparr>w_files = [], w_calls = 0\<rparr>"

text \<open>The process dies at the given call.\<close>

definition dies_at :: "nat \<Rightarrow> shard_env" where
  "dies_at k = (\<lambda>n _. if n = k then Dies 0 else Fine)"

text \<open>A restarted process counts its calls from the start.\<close>

definition restarted :: "world \<Rightarrow> world" where
  "restarted w = w\<lparr>w_calls := 0\<rparr>"

text \<open>Every question about a path fails, as it does below a directory that may not be searched.\<close>

definition blind :: shard_env where
  "blind = (\<lambda>_ op. case op of Stat _ \<Rightarrow> Fault 0 ''Permission denied'' | _ \<Rightarrow> Fine)"

definition demo_persist :: "shard_env \<Rightarrow> (bytes, unit) index_store \<Rightarrow> (u64 \<times> (bytes, unit) index_store) action" where
  "demo_persist env st = persist env demo_codec demo_engine ''t'' ''c'' ''s'' st"

definition demo_open :: "shard_env \<Rightarrow> (bytes, unit) index_store action" where
  "demo_open env = store_open env demo_codec demo_engine ''/d''"

definition persisted_once :: world where
  "persisted_once = restarted (snd (demo_persist quiet demo_store no_files))"

definition persisted_store :: "(bytes, unit) index_store" where
  "persisted_store = set_generation ''s'' 1 demo_store"

text \<open>The second persist dies between the rename of its directory and the new \<open>CURRENT\<close>.\<close>

definition crashed_twice :: world where
  "crashed_twice = restarted (snd (demo_persist (dies_at 18) persisted_store persisted_once))"

lemma demo_fits: "label_table_fits (store_labels ''s'' demo_store)"
  by (simp add: label_table_fits_def store_labels_def demo_store_def)

lemma demo_crash: "fst (demo_persist (dies_at 18) demo_store no_files) = Crashed"
  by code_simp

lemma demo_persists: "fst (demo_persist quiet demo_store no_files) = Done (1, persisted_store)"
  by code_simp

lemma demo_reopens: "fst (demo_open quiet persisted_once) = Done persisted_store"
  by code_simp

section \<open>The properties at concrete inputs\<close>

theorem persist_moves_to_new_witness:
  "fst (demo_persist (dies_at 18) demo_store no_files) = Crashed \<and>
   stored_shard demo_codec demo_engine (w_files (snd (demo_persist (dies_at 18) demo_store no_files))) ''t'' = None"
proof -
  let ?p = "demo_persist (dies_at 18) demo_store no_files"
  have "stored_shard demo_codec demo_engine (w_files (snd ?p)) ''t'' =
      stored_shard demo_codec demo_engine (w_files no_files) ''t''"
    using persist_moves_to_new [OF demo_codec_law demo_fits, of "dies_at 18" demo_engine "''t''" "''c''" no_files
        "fst ?p" "snd ?p"]
    by (simp add: demo_persist_def)
  moreover have "stored_shard demo_codec demo_engine (w_files no_files) ''t'' = None"
    by code_simp
  ultimately show ?thesis
    using demo_crash by simp
qed

theorem persist_then_open_witness:
  "fst (demo_open quiet persisted_once) = Done persisted_store \<and>
   store_get ''s'' persisted_store = Some (Positional [7, 9]) \<and> store_labels ''s'' persisted_store = Some [1, 2]"
proof -
  let ?p = "demo_persist quiet demo_store no_files"
  let ?o = "demo_open quiet (snd ?p)"
  have o: "fst ?o = Done persisted_store"
    by code_simp
  have "store_get ''s'' persisted_store = store_get ''s'' demo_store \<and> store_labels ''s'' persisted_store = store_labels ''s'' demo_store"
    using persist_then_open [OF demo_codec_law demo_fits, of quiet demo_engine "''t''" "''c''" no_files 1 persisted_store "snd ?p"
        "''/d''" persisted_store "snd ?o"] demo_persists o
    by (simp add: demo_persist_def demo_open_def prod_eq_iff tombstoned_def)
  moreover have "store_get ''s'' demo_store = Some (Positional [7, 9]) \<and> store_labels ''s'' demo_store = Some [1, 2]"
    by code_simp
  ultimately show ?thesis
    using demo_reopens by simp
qed


theorem open_mirrors_disk_witness:
  "fst (demo_open quiet persisted_once) = Done persisted_store \<and>
   stored_shard demo_codec demo_engine (w_files persisted_once) ''s'' = Some (1, Positional [7, 9], Some [1, 2], None)"
proof -
  let ?o = "demo_open quiet persisted_once"
  have m: "\<forall>s. case store_get s persisted_store of
      None \<Rightarrow> store_generation s persisted_store = None \<and> store_labels s persisted_store = None \<and>
        store_ingest s persisted_store = None
    | Some ix \<Rightarrow> (\<exists>g. store_generation s persisted_store = Some g \<and>
        stored_shard demo_codec demo_engine (w_files persisted_once) s =
          Some (g, ix, store_labels s persisted_store, store_ingest s persisted_store))"
    using open_mirrors_disk [of quiet demo_codec demo_engine "''/d''" persisted_once persisted_store "snd ?o"] demo_reopens
    by (simp add: demo_open_def prod_eq_iff)
  have "store_get ''s'' persisted_store = Some (Positional [7, 9])" "store_labels ''s'' persisted_store = Some [1, 2]"
    "store_generation ''s'' persisted_store = Some 1" "store_ingest ''s'' persisted_store = None"
    by code_simp+
  with spec [OF m, of "''s''"] show ?thesis
    using demo_reopens by simp
qed

theorem open_succeeds_iff_intact_witness:
  "node_at (w_files persisted_once) [''s''] = Some Directory \<and> intact demo_codec demo_engine (w_files persisted_once) ''s''"
proof -
  have "distinct (map fst (w_files persisted_once))"
    by code_simp
  moreover have "\<exists>st w'. store_open quiet demo_codec demo_engine ''/d'' persisted_once = (Done st, w')"
    using demo_reopens by (intro exI [of _ persisted_store] exI [of _ "snd (demo_open quiet persisted_once)"])
      (simp add: demo_open_def prod_eq_iff)
  moreover have "node_at (w_files persisted_once) [''s''] = Some Directory"
    by code_simp
  ultimately show ?thesis
    using open_succeeds_iff_intact [of persisted_once demo_codec demo_engine "''/d''"] by (simp add: tombstoned_def)
qed

theorem leftover_generation_blocks_witness:
  "fst (demo_open quiet crashed_twice) = Done persisted_store \<and>
   (\<forall>x. fst (demo_persist quiet persisted_store crashed_twice) \<noteq> Done x)"
proof -
  let ?p = "demo_persist quiet persisted_store crashed_twice"
  have "fst (demo_open quiet crashed_twice) = Done persisted_store"
    by code_simp
  moreover have "store_get ''s'' persisted_store \<noteq> None" "reg_root persisted_store \<noteq> None"
    "node_at (w_files crashed_twice) [''s'', generation_name (next_generation ''s'' persisted_store)] \<noteq> None"
    by code_simp+
  ultimately show ?thesis
    using leftover_generation_blocks [of "''s''" persisted_store crashed_twice quiet demo_codec demo_engine "''t''" "''c''"
        "fst ?p" "snd ?p"]
    by (simp add: demo_persist_def quiet_def)
qed

section \<open>What a path that cannot be examined does\<close>

text \<open>A start that may not examine the shard's directory succeeds without the shard.\<close>

theorem blind_start_drops_shard:
  "fst (demo_open quiet persisted_once) = Done persisted_store \<and>
   fst (demo_open blind persisted_once) = Done (empty_store (Some ''/d''))"
  by code_simp

text \<open>A delete that may not examine it reports success and the next start serves the shard again.\<close>

theorem blind_delete_resurrects:
  "fst (store_delete blind ''u'' ''s'' persisted_store persisted_once) = Done (True, forget ''s'' persisted_store) \<and>
   fst (demo_open quiet (snd (store_delete blind ''u'' ''s'' persisted_store persisted_once))) = Done persisted_store"
  by code_simp

end
