(* ===== verification/Config.thy ===== *)
theory Config
  imports Node_Table
begin

text \<open>
  Environment parsing (\<^verbatim>\<open>src/src/config.rs\<close>). The environment is an argument: the answer of
  \<^verbatim>\<open>std::env::var\<close> for every name. \<open>FromStr\<close> of the type at hand is an argument of \<open>env_value\<close>.
\<close>

datatype env_var = Present string | NotPresent | NotUnicode string

type_synonym environment = "string \<Rightarrow> env_var"

definition cannot_read :: "string \<Rightarrow> string \<Rightarrow> message" where
  "cannot_read name e = [Lit ''cannot read '', Lit name, Lit '': '', Lit e]"

definition env_value ::
    "environment \<Rightarrow> (string \<Rightarrow> string + 'a) \<Rightarrow> string \<Rightarrow> 'a \<Rightarrow> message + 'a" where
  "env_value env from_str name fallback =
     (case env name of
        Present raw \<Rightarrow>
          (case from_str raw of
             Inl e \<Rightarrow> Inl [Lit ''invalid '', Lit name, Lit ''='', Dbg raw, Lit '': '', Lit e]
           | Inr v \<Rightarrow> Inr v)
      | NotPresent \<Rightarrow> Inr fallback
      | NotUnicode e \<Rightarrow> Inl (cannot_read name e))"

definition parse_u64_text :: "string \<Rightarrow> string + u64" where
  "parse_u64_text s = (case parse_u64 s of Inl e \<Rightarrow> Inl (parse_int_message e) | Inr v \<Rightarrow> Inr v)"

definition parse_usize_text :: "string \<Rightarrow> string + nat" where
  "parse_usize_text s = (case parse_u64 s of Inl e \<Rightarrow> Inl (parse_int_message e) | Inr v \<Rightarrow> Inr (unat v))"

definition must_be_positive :: "string \<Rightarrow> message" where
  "must_be_positive name = [Lit name, Lit '' must be positive'']"

definition positive_usize :: "environment \<Rightarrow> string \<Rightarrow> nat \<Rightarrow> message + nat" where
  "positive_usize env name fallback =
     rbind (env_value env parse_usize_text name fallback) (\<lambda>v.
       if v = 0 then Inl (must_be_positive name) else Inr v)"

definition optional_positive_u64 :: "environment \<Rightarrow> string \<Rightarrow> message + u64 option" where
  "optional_positive_u64 env name =
     (case env name of
        Present raw \<Rightarrow>
          (case parse_u64_text raw of
             Inl e \<Rightarrow> Inl [Lit ''invalid '', Lit name, Lit ''='', Dbg raw, Lit '': '', Lit e]
           | Inr v \<Rightarrow> if v = 0 then Inl (must_be_positive name) else Inr (Some v))
      | NotPresent \<Rightarrow> Inr None
      | NotUnicode e \<Rightarrow> Inl (cannot_read name e))"

definition to_ascii_lowercase :: "string \<Rightarrow> string" where
  "to_ascii_lowercase s =
     map (\<lambda>c. let n = (of_char c :: nat) in if 65 \<le> n \<and> n \<le> 90 then char_of (n + 32) else c) s"

definition enabled :: "environment \<Rightarrow> string \<Rightarrow> message + bool" where
  "enabled env name =
     (case env name of
        Present raw \<Rightarrow>
          (let v = to_ascii_lowercase raw in
           if v \<in> set [''1'', ''true'', ''yes''] then Inr True
           else if v \<in> set [''0'', ''false'', ''no''] then Inr False
           else Inl [Lit name, Lit '' must be true or false, got '', Dbg raw])
      | NotPresent \<Rightarrow> Inr False
      | NotUnicode e \<Rightarrow> Inl (cannot_read name e))"

text \<open>What a start with a positive setting can rely on.\<close>

lemma positive_usize_Inr: "positive_usize env name fallback = Inr v \<Longrightarrow> 0 < v"
  by (auto simp: positive_usize_def split: if_splits)

lemma optional_positive_u64_Some: "optional_positive_u64 env name = Inr (Some v) \<Longrightarrow> v \<noteq> 0"
  by (auto simp: optional_positive_u64_def split: env_var.splits sum.splits if_splits)

lemma positive_usize_absent: "env name = NotPresent \<Longrightarrow> 0 < fallback \<Longrightarrow> positive_usize env name fallback = Inr fallback"
  by (simp add: positive_usize_def env_value_def)

end
