(* ===== verification/Node_Index.thy ===== *)
theory Node_Index
  imports Engine Config Label_Filter Row_Transfer
begin

text \<open>
  The node's request checks and the search of one open index (\<^verbatim>\<open>src/src/service.rs\<close>): limits,
  \<^verbatim>\<open>index_info\<close>, \<^verbatim>\<open>calibration_of_index\<close>, \<^verbatim>\<open>prepare_filter\<close>, \<^verbatim>\<open>validate_queries\<close>,
  \<^verbatim>\<open>search_prepared\<close> and \<^verbatim>\<open>raise_floor\<close>. The engine's searches panic on malformed input;
  \<open>search_laws\<close> is what its documentation promises on well-formed input, and the lemmas show that
  what the checks let through is well formed and that the answers line up with the queries.
\<close>

section \<open>Limits\<close>

record service_limits =
  max_k :: nat
  max_queries_per_request :: nat
  max_vector_coordinates_per_frame :: nat
  max_concurrent_scans :: nat

text \<open>\<open>cpus\<close> is the answer of \<open>available_parallelism\<close>.\<close>

definition default_service_limits :: "nat option \<Rightarrow> service_limits" where
  "default_service_limits cpus =
     \<lparr>max_k = 1000, max_queries_per_request = 64, max_vector_coordinates_per_frame = 4000000,
      max_concurrent_scans = (case cpus of None \<Rightarrow> 1 | Some n \<Rightarrow> n)\<rparr>"

definition limits_from_env :: "environment \<Rightarrow> nat option \<Rightarrow> message + service_limits" where
  "limits_from_env env cpus =
     (let defaults = default_service_limits cpus in
      rbind (positive_usize env ''TURBOVEC_MAX_K'' (max_k defaults)) (\<lambda>k.
      rbind (positive_usize env ''TURBOVEC_MAX_QUERIES'' (max_queries_per_request defaults)) (\<lambda>q.
      rbind (positive_usize env ''TURBOVEC_MAX_FRAME_COORDINATES''
               (max_vector_coordinates_per_frame defaults)) (\<lambda>c.
      rbind (positive_usize env ''TURBOVEC_MAX_CONCURRENT_SCANS'' (max_concurrent_scans defaults)) (\<lambda>s.
      Inr \<lparr>max_k = k, max_queries_per_request = q, max_vector_coordinates_per_frame = c,
           max_concurrent_scans = s\<rparr>)))))"

text \<open>The assertions of \<open>with_limits_and_metrics\<close>: the service is built or the start panics.\<close>

definition with_limits_and_metrics :: "service_limits \<Rightarrow> status failure + service_limits" where
  "with_limits_and_metrics limits =
     (if 0 < max_k limits \<and> 0 < max_queries_per_request limits \<and>
         0 < max_vector_coordinates_per_frame limits \<and> 0 < max_concurrent_scans limits
      then Inr limits else Inl Panic)"

lemma limits_from_env_start:
  "limits_from_env env cpus = Inr limits \<Longrightarrow> with_limits_and_metrics limits = Inr limits"
  by (auto simp: limits_from_env_def with_limits_and_metrics_def Let_def dest!: positive_usize_Inr)

definition validate_k :: "service_limits \<Rightarrow> nat \<Rightarrow> status + unit" where
  "validate_k limits k =
     (if k = 0 \<or> max_k limits < k
      then Inl (invalid_argument [Lit ''k must be between 1 and '', num (max_k limits)])
      else Inr ())"

definition validate_vector_frame :: "service_limits \<Rightarrow> nat \<Rightarrow> status + unit" where
  "validate_vector_frame limits coordinates =
     (if max_vector_coordinates_per_frame limits < coordinates
      then Inl (mk_status ResourceExhausted
        [Lit ''vector frame has '', num coordinates, Lit '' coordinates; limit is '',
         num (max_vector_coordinates_per_frame limits)])
      else Inr ())"

section \<open>Index metadata and calibration\<close>

fun wire_calibration_state :: "calibration_state \<Rightarrow> int" where
  "wire_calibration_state Uncalibrated = CALIBRATION_STATE_UNCALIBRATED"
| "wire_calibration_state Calibrated = CALIBRATION_STATE_CALIBRATED"
| "wire_calibration_state OtherCalibration = CALIBRATION_STATE_UNSPECIFIED"

definition index_info_of ::
    "('q, 'm) engine \<Rightarrow> string \<Rightarrow> ('q, 'm) index \<Rightarrow> bool \<Rightarrow> u64 \<Rightarrow> index_info" where
  "index_info_of eng sid ix labelled generation =
     \<lparr>info_index_id = sid, info_kind = index_kind ix,
      info_dim = as_u32 (case index_dim_opt eng ix of None \<Rightarrow> 0 | Some d \<Rightarrow> d),
      info_bit_width = as_u32 (index_bit_width eng ix), info_len = as_u64 (index_len eng ix),
      info_calibration_state = wire_calibration_state (index_calibration_state eng ix),
      info_labelled = labelled, info_generation = generation\<rparr>"

definition positional :: "string \<Rightarrow> ('q, 'm) index \<Rightarrow> status + 'q" where
  "positional what ix =
     (case ix of
        Positional q \<Rightarrow> Inr q
      | IdMap _ \<Rightarrow> Inl (precondition POSITIONAL_INDEX_REQUIRED
          [Lit what, Lit '' needs a POSITIONAL index; turbovec's IdMapIndex does not expose the packed codes or the calibration pair this call reads'']))"

definition calibration_of :: "('q, 'm) engine \<Rightarrow> 'q \<Rightarrow> calibration" where
  "calibration_of eng q =
     \<lparr>cal_state = wire_calibration_state (q_calibration_state eng q),
      tqplus_shift = q_tqplus_shift eng q, tqplus_scale = q_tqplus_scale eng q\<rparr>"

definition calibration_of_index :: "('q, 'm) engine \<Rightarrow> ('q, 'm) index \<Rightarrow> status + calibration" where
  "calibration_of_index eng ix =
     rbind (case ix of
              Positional q \<Rightarrow> Inr (q_tqplus_shift eng q, q_tqplus_scale eng q)
            | IdMap m \<Rightarrow>
                (case m_calibration_state eng m of
                   Uncalibrated \<Rightarrow> Inr ([], [])
                 | _ \<Rightarrow> Inl (precondition INVALID_CALIBRATION
                     [Lit ''this id-mapped index holds a committed TQ+ pair, which turbovec's IdMapIndex does not expose for reading; its pair cannot be verified against a collection's''])))
       (\<lambda>(shift, scale).
         Inr \<lparr>cal_state = wire_calibration_state (index_calibration_state eng ix),
              tqplus_shift = shift, tqplus_scale = scale\<rparr>)"

section \<open>Filters\<close>

datatype search_filter = NoFilter | SlotMask "bool list" | ExternalIds "u64 list"

text \<open>The loop over the slots of an allowlist; \<open>flags[slot] = true\<close>.\<close>

fun mark_slots :: "nat \<Rightarrow> u64 list \<Rightarrow> bool list \<Rightarrow> status + bool list" where
  "mark_slots len [] flags = Inr flags"
| "mark_slots len (s # ss) flags =
     (case to_usize s of
        None \<Rightarrow> Inl (invalid_argument [Lit ''slot '', num64 s, Lit '' out of range''])
      | Some slot \<Rightarrow>
          if len \<le> slot then
            Inl (invalid_argument [Lit ''slot '', num slot, Lit '' out of range (index holds '', num len, Lit '' vectors)''])
          else mark_slots len ss (flags[slot := True]))"

fun check_ids :: "('q, 'm) engine \<Rightarrow> 'm \<Rightarrow> u64 list \<Rightarrow> status + unit" where
  "check_ids eng m [] = Inr ()"
| "check_ids eng m (i # is) =
     (if \<not> m_contains eng m i
      then Inl (invalid_argument [Lit ''allowlist id '', num64 i, Lit '' is not present in the index''])
      else check_ids eng m is)"

definition prepare_filter :: "('q, 'm) engine \<Rightarrow> ('q, 'm) index \<Rightarrow> u64 list \<Rightarrow> status + search_filter" where
  "prepare_filter eng ix allowlist =
     (if allowlist = [] then Inr NoFilter
      else
        (case ix of
           Positional q \<Rightarrow>
             rbind (mark_slots (q_len eng q) allowlist (replicate (q_len eng q) False)) (\<lambda>flags. Inr (SlotMask flags))
         | IdMap m \<Rightarrow> rbind (check_ids eng m allowlist) (\<lambda>_. Inr (ExternalIds allowlist))))"

section \<open>Queries\<close>

text \<open>\<open>usize::is_multiple_of\<close>: only zero is a multiple of zero.\<close>

definition is_multiple_of :: "nat \<Rightarrow> nat \<Rightarrow> bool" where
  "is_multiple_of n d \<longleftrightarrow> (if d = 0 then n = 0 else n mod d = 0)"

definition validate_queries :: "('q, 'm) engine \<Rightarrow> f32 list \<Rightarrow> nat \<Rightarrow> status + unit" where
  "validate_queries eng queries dim =
     (if queries = [] \<or> \<not> is_multiple_of (length queries) dim then
        Inl (invalid_argument
          [Lit ''query buffer length '', num (length queries), Lit '' is not a positive multiple of dim '', num dim])
      else
        (case first_invalid_coord eng queries dim of
           Some (qi, ci, v) \<Rightarrow>
             Inl (invalid_argument
               [Lit ''invalid query value at query '', num qi, Lit '', coord '', num ci, Lit '': '', Flt v])
         | None \<Rightarrow> Inr ()))"

record query_result =
  qr_scores :: "f32 list"
  qr_ids :: "u64 list"
  qr_labels :: "u64 list"

definition no_results :: query_result where
  "no_results = \<lparr>qr_scores = [], qr_ids = [], qr_labels = []\<rparr>"

text \<open>\<open>table.get(slot as usize).expect(..)\<close> for every slot; \<open>None\<close> is the panic.\<close>

fun slot_labels :: "u64 list \<Rightarrow> u64 list \<Rightarrow> u64 list option" where
  "slot_labels table [] = Some []"
| "slot_labels table (s # ss) =
     (case nth_opt table (unat s) of
        None \<Rightarrow> None
      | Some l \<Rightarrow> map_option ((#) l) (slot_labels table ss))"

definition as_slots :: "int list \<Rightarrow> u64 list" where
  "as_slots is = map word_of_int is"

definition positional_result :: "u64 list option \<Rightarrow> f32 list \<times> int list \<Rightarrow> status failure + query_result" where
  "positional_result labels = (\<lambda>(scores, indices).
     case (case labels of None \<Rightarrow> Some [] | Some table \<Rightarrow> slot_labels table (as_slots indices)) of
       None \<Rightarrow> Inl Panic
     | Some ls \<Rightarrow> Inr \<lparr>qr_scores = scores, qr_ids = as_slots indices, qr_labels = ls\<rparr>)"

fun collect_results :: "('a \<Rightarrow> 'e + 'b) \<Rightarrow> 'a list \<Rightarrow> 'e + 'b list" where
  "collect_results f [] = Inr []"
| "collect_results f (x # xs) = rbind (f x) (\<lambda>y. rbind (collect_results f xs) (\<lambda>ys. Inr (y # ys)))"

text \<open>The \<open>nq * k_eff\<close> buffers of an id-mapped search, cut per query.\<close>

definition id_map_result :: "f32 list \<Rightarrow> u64 list \<Rightarrow> nat \<Rightarrow> nat \<Rightarrow> status failure + query_result" where
  "id_map_result scores ids k_eff qi =
     (let lo = qi * k_eff; hi = lo + k_eff in
      case (slice lo hi scores, slice lo hi ids) of
        (Some s, Some i) \<Rightarrow> Inr \<lparr>qr_scores = s, qr_ids = i, qr_labels = []\<rparr>
      | _ \<Rightarrow> Inl Panic)"

definition search_positional ::
    "('q, 'm) engine \<Rightarrow> 'q \<Rightarrow> f32 list \<Rightarrow> nat \<Rightarrow> search_filter \<Rightarrow> u64 list option
     \<Rightarrow> status failure + query_result list" where
  "search_positional eng q queries k filt labels =
     (case q_search eng q queries k (case filt of SlotMask flags \<Rightarrow> Some flags | _ \<Rightarrow> None) of
        None \<Rightarrow> Inl Panic
      | Some results \<Rightarrow> collect_results (positional_result labels) results)"

definition search_id_map ::
    "('q, 'm) engine \<Rightarrow> 'm \<Rightarrow> f32 list \<Rightarrow> nat \<Rightarrow> nat \<Rightarrow> search_filter
     \<Rightarrow> status failure + query_result list" where
  "search_id_map eng m queries dim k filt =
     (case (case filt of
              ExternalIds allow \<Rightarrow>
                (case m_search_with_allowlist eng m queries k allow of
                   Some (Inr found) \<Rightarrow> Some found
                 | _ \<Rightarrow> None)
            | _ \<Rightarrow> m_search eng m queries k) of
        None \<Rightarrow> Inl Panic
      | Some (scores, ids) \<Rightarrow>
          (let nq = length queries div dim; k_eff = (if nq = 0 then 0 else length scores div nq)
           in collect_results (id_map_result scores ids k_eff) [0..<nq]))"

definition search_prepared ::
    "('q, 'm) engine \<Rightarrow> ('q, 'm) index \<Rightarrow> f32 list \<Rightarrow> nat \<Rightarrow> nat \<Rightarrow> search_filter \<Rightarrow> u64 list option
     \<Rightarrow> status failure + query_result list" where
  "search_prepared eng ix queries dim k filt labels =
     (if index_is_empty eng ix then Inr (replicate (length queries div dim) no_results)
      else
        (case ix of
           Positional q \<Rightarrow> search_positional eng q queries k filt labels
         | IdMap m \<Rightarrow> search_id_map eng m queries dim k filt))"

text \<open>
  The body of \<open>Search\<close> under the read lock.
\<close>

definition search_index ::
    "service_limits \<Rightarrow> ('q, 'm) engine \<Rightarrow> ('q, 'm) index \<Rightarrow> u64 list option \<Rightarrow> f32 list \<Rightarrow> nat \<Rightarrow> u64 list
     \<Rightarrow> status failure + query_result list" where
  "search_index limits eng ix labels queries k allowlist =
     (case index_dim_opt eng ix of
        None \<Rightarrow> Inl (Failed (failed_precondition [Lit ''index has no vectors; add vectors before searching'']))
      | Some dim \<Rightarrow>
          rbind (checked (validate_queries eng queries dim)) (\<lambda>_.
            if max_queries_per_request limits < length queries div dim then
              Inl (Failed (mk_status ResourceExhausted
                [Lit ''request has '', num (length queries div dim), Lit '' queries; limit is '',
                 num (max_queries_per_request limits)]))
            else
              rbind (checked (prepare_filter eng ix allowlist)) (\<lambda>filt.
                search_prepared eng ix queries dim k filt labels)))"

section \<open>What the engine's searches promise\<close>

definition well_formed_queries :: "('q, 'm) engine \<Rightarrow> f32 list \<Rightarrow> nat \<Rightarrow> bool" where
  "well_formed_queries eng queries dim \<longleftrightarrow>
     queries \<noteq> [] \<and> 0 < dim \<and> dim dvd length queries \<and> first_invalid_coord eng queries dim = None"

text \<open>One query's answer over \<open>n\<close> rows: at most k distinct slots that the filter admits.\<close>

definition answers :: "nat \<Rightarrow> nat \<Rightarrow> bool list option \<Rightarrow> f32 list \<times> int list \<Rightarrow> bool" where
  "answers n k flags = (\<lambda>(scores, slots).
     length scores = length slots \<and> length slots \<le> k \<and> distinct slots \<and>
     list_all (\<lambda>s. 0 \<le> s \<and> s < int n \<and> (case flags of None \<Rightarrow> True | Some f \<Rightarrow> f ! nat s)) slots)"

text \<open>The flat buffers of an id-mapped search: one stride for every query.\<close>

definition flat_answers :: "nat \<Rightarrow> nat \<Rightarrow> (u64 \<Rightarrow> bool) \<Rightarrow> f32 list \<times> u64 list \<Rightarrow> bool" where
  "flat_answers nq k known = (\<lambda>(scores, ids).
     length scores = length ids \<and> nq dvd length ids \<and> length ids div nq \<le> k \<and> list_all known ids)"

definition search_laws :: "('q, 'm) engine \<Rightarrow> bool" where
  "search_laws eng \<longleftrightarrow>
     (\<forall>q qs k flags dim. q_dim_opt eng q = Some dim \<and> 0 < q_len eng q \<and> well_formed_queries eng qs dim \<and>
        (\<forall>f. flags = Some f \<longrightarrow> length f = q_len eng q) \<longrightarrow>
        (\<exists>rs. q_search eng q qs k flags = Some rs \<and> length rs = length qs div dim \<and>
           list_all (answers (q_len eng q) k flags) rs)) \<and>
     (\<forall>m qs k dim. m_dim_opt eng m = Some dim \<and> 0 < m_len eng m \<and> well_formed_queries eng qs dim \<longrightarrow>
        (\<exists>found. m_search eng m qs k = Some found \<and>
           flat_answers (length qs div dim) k (m_contains eng m) found)) \<and>
     (\<forall>m qs k dim allow. m_dim_opt eng m = Some dim \<and> 0 < m_len eng m \<and> well_formed_queries eng qs dim \<and>
        allow \<noteq> [] \<and> list_all (m_contains eng m) allow \<longrightarrow>
        (\<exists>found. m_search_with_allowlist eng m qs k allow = Some (Inr found) \<and>
           flat_answers (length qs div dim) k (\<lambda>i. i \<in> set allow) found))"

section \<open>The checks are sufficient\<close>

lemma validate_queries_Inr:
  "validate_queries eng queries dim = Inr () \<longleftrightarrow> well_formed_queries eng queries dim"
  by (cases "dim = 0")
    (auto simp: validate_queries_def well_formed_queries_def is_multiple_of_def mod_eq_0_iff_dvd split: option.splits)

lemma mark_slots_Inr:
  "mark_slots len ss flags = Inr flags' \<Longrightarrow> length flags = len \<Longrightarrow>
   length flags' = len \<and> list_all (\<lambda>s. unat s < len) ss \<and>
   (\<forall>i < len. flags' ! i \<longleftrightarrow> flags ! i \<or> (\<exists>s \<in> set ss. unat s = i))"
proof (induction ss arbitrary: flags)
  case (Cons s ss)
  then show ?case
    by (auto simp: nth_list_update split: if_splits)
qed simp

lemma mark_slots_accepts:
  "list_all (\<lambda>s. unat s < len) ss \<Longrightarrow> \<exists>flags'. mark_slots len ss flags = Inr flags'"
  by (induction ss arbitrary: flags) auto

lemma check_ids_Inr: "check_ids eng m is = Inr () \<longleftrightarrow> list_all (m_contains eng m) is"
  by (induction "is") auto

text \<open>Which ids of an index a request's allowlist admits; the empty list admits all.\<close>

definition admits :: "u64 list \<Rightarrow> u64 \<Rightarrow> bool" where
  "admits allowlist i \<longleftrightarrow> allowlist = [] \<or> i \<in> set allowlist"

definition known_id :: "('q, 'm) engine \<Rightarrow> ('q, 'm) index \<Rightarrow> u64 \<Rightarrow> bool" where
  "known_id eng ix i \<longleftrightarrow> (case ix of Positional q \<Rightarrow> unat i < q_len eng q | IdMap m \<Rightarrow> m_contains eng m i)"

lemma prepare_filter_accepts_iff:
  "(\<exists>filt. prepare_filter eng ix allowlist = Inr filt) \<longleftrightarrow> list_all (known_id eng ix) allowlist"
proof (cases ix)
  case (Positional q)
  have "(\<exists>flags. mark_slots (q_len eng q) allowlist (replicate (q_len eng q) False) = Inr flags) \<longleftrightarrow>
      list_all (\<lambda>s. unat s < q_len eng q) allowlist"
    using mark_slots_Inr [of "q_len eng q" allowlist "replicate (q_len eng q) False"] mark_slots_accepts
    by fastforce
  then show ?thesis
    by (auto simp: prepare_filter_def known_id_def [abs_def] Positional rbind_Inr_iff)
next
  case (IdMap m)
  then show ?thesis
    by (auto simp: prepare_filter_def known_id_def [abs_def] rbind_Inr_iff check_ids_Inr)
qed

lemma prepare_filter_refusal:
  "prepare_filter eng ix allowlist = Inl e \<Longrightarrow> st_code e = InvalidArgument"
proof -
  have m: "mark_slots len ss flags = Inl e \<Longrightarrow> st_code e = InvalidArgument" for len ss flags
    by (induction ss arbitrary: flags) (auto split: if_splits)
  have c: "check_ids eng m is = Inl e \<Longrightarrow> st_code e = InvalidArgument" for m "is"
    by (induction "is") (auto split: if_splits)
  show "prepare_filter eng ix allowlist = Inl e \<Longrightarrow> st_code e = InvalidArgument"
    using m c by (auto simp: prepare_filter_def rbind_def split: if_splits index.splits sum.splits)
qed

lemma prepare_filter_positional:
  assumes "prepare_filter eng (Positional q) allowlist = Inr filt"
  shows "(allowlist = [] \<and> filt = NoFilter) \<or>
    (\<exists>flags. allowlist \<noteq> [] \<and> filt = SlotMask flags \<and> length flags = q_len eng q \<and>
       (\<forall>i < q_len eng q. flags ! i \<longleftrightarrow> (\<exists>s \<in> set allowlist. unat s = i)))"
proof (cases "allowlist = []")
  case True
  then show ?thesis
    using assms by (simp add: prepare_filter_def)
next
  case False
  then obtain flags where "mark_slots (q_len eng q) allowlist (replicate (q_len eng q) False) = Inr flags"
      "filt = SlotMask flags"
    using assms by (auto simp: prepare_filter_def)
  then show ?thesis
    using False mark_slots_Inr [of "q_len eng q" allowlist "replicate (q_len eng q) False" flags] by simp
qed

lemma prepare_filter_id_map:
  assumes "prepare_filter eng (IdMap m) allowlist = Inr filt"
  shows "(allowlist = [] \<and> filt = NoFilter) \<or>
    (allowlist \<noteq> [] \<and> filt = ExternalIds allowlist \<and> list_all (m_contains eng m) allowlist)"
  using assms by (auto simp: prepare_filter_def check_ids_Inr split: if_splits)

section \<open>The answers line up with the queries\<close>

lemma collect_results_Inr:
  "collect_results f xs = Inr ys \<longleftrightarrow> length ys = length xs \<and> (\<forall>i < length xs. f (xs ! i) = Inr (ys ! i))"
proof (induction xs arbitrary: ys)
  case Nil
  then show ?case by auto
next
  case (Cons x xs)
  show ?case
  proof (cases ys)
    case Nil
    then show ?thesis by (auto simp: rbind_Inr_iff)
  next
    case (Cons y ys')
    then show ?thesis
      using Cons.IH [of ys'] by (auto simp: rbind_Inr_iff nth_Cons split: nat.splits)
  qed
qed

lemma collect_results_total:
  assumes "\<And>x. x \<in> set xs \<Longrightarrow> f x = Inr (g x)"
  shows "collect_results f xs = Inr (map g xs)"
  using assms by (induction xs) auto

lemma slot_labels_total:
  "list_all (\<lambda>s. unat s < length table) ss \<Longrightarrow> slot_labels table ss = Some (map (\<lambda>s. table ! unat s) ss)"
  by (induction ss) auto

text \<open>A slot number survives the cast to \<open>u64\<close>.\<close>

lemma unat_slot: "0 \<le> s \<Longrightarrow> nat s < 2 ^ 64 \<Longrightarrow> unat (word_of_int s :: u64) = nat s"
proof -
  assume s: "0 \<le> s" "nat s < 2 ^ 64"
  then have "int (nat s) < int (2 ^ 64)"
    by (simp only: of_nat_less_iff)
  then have "uint (word_of_int s :: u64) = s"
    using s(1) by (simp add: uint_word_of_int)
  then show ?thesis
    by (metis unat_eq_nat_uint)
qed

text \<open>What one query's result says, over the index's rows.\<close>

definition result_ok ::
    "('q, 'm) engine \<Rightarrow> ('q, 'm) index \<Rightarrow> u64 list option \<Rightarrow> nat \<Rightarrow> u64 list \<Rightarrow> query_result \<Rightarrow> bool" where
  "result_ok eng ix labels k allowlist r \<longleftrightarrow>
     length (qr_scores r) = length (qr_ids r) \<and> length (qr_ids r) \<le> k \<and>
     list_all (\<lambda>i. known_id eng ix i \<and> admits allowlist i) (qr_ids r) \<and>
     qr_labels r = (case (ix, labels) of
        (Positional _, Some table) \<Rightarrow> map (\<lambda>i. table ! unat i) (qr_ids r)
      | _ \<Rightarrow> [])"

lemma answers_positional_result:
  assumes "answers (q_len eng q) k flags found" and "q_len eng q < 2 ^ 64"
    and labels: "\<forall>table. labels = Some table \<longrightarrow> length table = q_len eng q"
    and flags: "flags = None \<and> allowlist = [] \<or>
      (\<exists>f. flags = Some f \<and> (\<forall>i < q_len eng q. f ! i \<longleftrightarrow> (\<exists>s \<in> set allowlist. unat s = i)))"
  shows "\<exists>r. positional_result labels found = Inr r \<and> result_ok eng (Positional q) labels k allowlist r"
proof -
  obtain scores slots where found: "found = (scores, slots)" by (cases found)
  let ?n = "q_len eng q"
  have A: "length scores = length slots" "length slots \<le> k"
      "\<And>s. s \<in> set slots \<Longrightarrow> 0 \<le> s \<and> s < int ?n \<and> (case flags of None \<Rightarrow> True | Some f \<Rightarrow> f ! nat s)"
    using assms(1) by (auto simp: answers_def found list_all_iff)
  have unat: "unat (word_of_int s :: u64) = nat s" if "s \<in> set slots" for s
    using A(3) [OF that] assms(2) by (intro unat_slot) linarith+
  have small: "nat s < ?n" if "s \<in> set slots" for s
    using A(3) [OF that] by linarith
  have known: "list_all (\<lambda>i. known_id eng (Positional q) i) (as_slots slots)"
    using small by (auto simp: as_slots_def list_all_iff known_id_def unat)
  have admitted: "admits allowlist (word_of_int s)" if s: "s \<in> set slots" for s
  proof (cases flags)
    case None
    then show ?thesis
      using flags by (simp add: admits_def)
  next
    case (Some f)
    then have "f ! nat s"
      using A(3) [OF s] by simp
    then obtain t where "t \<in> set allowlist" "unat t = unat (word_of_int s :: u64)"
      using flags small [OF s] Some by (auto simp: unat [OF s])
    then show ?thesis
      by (metis admits_def unsigned_word_eqI)
  qed
  have "\<exists>ls. (case labels of None \<Rightarrow> Some [] | Some table \<Rightarrow> slot_labels table (as_slots slots)) = Some ls \<and>
      ls = (case labels of None \<Rightarrow> [] | Some table \<Rightarrow> map (\<lambda>i. table ! unat i) (as_slots slots))"
    using labels small slot_labels_total [of _ "as_slots slots"]
    by (auto simp: as_slots_def list_all_iff unat split: option.splits)
  then show ?thesis
    using A(1,2) known admitted
    by (auto simp: positional_result_def found result_ok_def as_slots_def list_all_iff split: option.splits)
qed

lemma flat_id_map_result:
  assumes "flat_answers nq k known (scores, ids)" and "qi < nq"
  shows "\<exists>r. id_map_result scores ids (length scores div nq) qi = Inr r \<and>
    length (qr_scores r) = length (qr_ids r) \<and> length (qr_ids r) \<le> k \<and> list_all known (qr_ids r) \<and> qr_labels r = []"
proof -
  let ?e = "length ids div nq"
  have A: "length scores = length ids" "nq * ?e = length ids" "?e \<le> k" "list_all known ids"
    using assms(1) by (auto simp: flat_answers_def)
  have "Suc qi * ?e \<le> nq * ?e"
    using assms(2) by (intro mult_le_mono1) simp
  then have "qi * ?e + ?e \<le> length ids"
    using A(2) by simp
  moreover have "list_all known (take ?e (drop (qi * ?e) ids))"
    using A(4) by (auto simp: list_all_iff dest!: in_set_takeD in_set_dropD)
  ultimately show ?thesis
    using A(1,3) by (auto simp: id_map_result_def slice_def Let_def)
qed

lemma search_id_map_total:
  assumes "search_laws eng" and "m_dim_opt eng m = Some dim" and "0 < m_len eng m"
    and wf: "well_formed_queries eng queries dim"
    and "prepare_filter eng (IdMap m) allowlist = Inr filt"
  shows "\<exists>rs. search_id_map eng m queries dim k filt = Inr rs \<and> length rs = length queries div dim \<and>
    list_all (result_ok eng (IdMap m) labels k allowlist) rs"
proof -
  let ?nq = "length queries div dim"
  let ?known = "\<lambda>i. known_id eng (IdMap m) i \<and> admits allowlist i"
  have "0 < ?nq"
    using wf by (auto simp: well_formed_queries_def div_greater_zero_iff dvd_imp_le)
  have "\<exists>found. (case filt of ExternalIds allow \<Rightarrow>
          (case m_search_with_allowlist eng m queries k allow of Some (Inr found) \<Rightarrow> Some found | _ \<Rightarrow> None)
        | _ \<Rightarrow> m_search eng m queries k) = Some found \<and> flat_answers ?nq k ?known found"
    using prepare_filter_id_map [OF assms(5)]
  proof (elim disjE conjE)
    assume "allowlist = []" "filt = NoFilter"
    moreover obtain found where "m_search eng m queries k = Some found" "flat_answers ?nq k (m_contains eng m) found"
      using assms(1-4) unfolding search_laws_def by blast
    ultimately show ?thesis
      by (auto simp: flat_answers_def known_id_def admits_def)
  next
    assume F: "allowlist \<noteq> []" "filt = ExternalIds allowlist" "list_all (m_contains eng m) allowlist"
    then obtain found where "m_search_with_allowlist eng m queries k allowlist = Some (Inr found)"
        "flat_answers ?nq k (\<lambda>i. i \<in> set allowlist) found"
      using assms(1-4) unfolding search_laws_def by blast
    with F show ?thesis
      by (auto simp: flat_answers_def known_id_def admits_def list_all_iff)
  qed
  then obtain scores ids where run: "search_id_map eng m queries dim k filt =
        collect_results (id_map_result scores ids (length scores div ?nq)) [0..<?nq]"
      and flat: "flat_answers ?nq k ?known (scores, ids)"
    using \<open>0 < ?nq\<close> unfolding search_id_map_def Let_def by force
  have "\<exists>g. \<forall>qi < ?nq. id_map_result scores ids (length scores div ?nq) qi = Inr (g qi) \<and>
      result_ok eng (IdMap m) labels k allowlist (g qi)"
    using flat_id_map_result [OF flat] by (intro choice_iff' [THEN iffD1]) (force simp: result_ok_def)
  then obtain g where g: "\<forall>qi < ?nq. id_map_result scores ids (length scores div ?nq) qi = Inr (g qi) \<and>
      result_ok eng (IdMap m) labels k allowlist (g qi)"
    by blast
  then have "collect_results (id_map_result scores ids (length scores div ?nq)) [0..<?nq] = Inr (map g [0..<?nq])"
    by (intro collect_results_total) simp
  with g run show ?thesis
    by (simp add: list_all_iff)
qed

lemma search_positional_total:
  assumes "search_laws eng" and "q_dim_opt eng q = Some dim" and "0 < q_len eng q" and "q_len eng q < 2 ^ 64"
    and "well_formed_queries eng queries dim"
    and filt: "prepare_filter eng (Positional q) allowlist = Inr filt"
    and labels: "\<forall>table. labels = Some table \<longrightarrow> length table = q_len eng q"
  shows "\<exists>rs. search_positional eng q queries k filt labels = Inr rs \<and> length rs = length queries div dim \<and>
    list_all (result_ok eng (Positional q) labels k allowlist) rs"
proof -
  let ?flags = "case filt of SlotMask flags \<Rightarrow> Some flags | _ \<Rightarrow> None"
  note F = prepare_filter_positional [OF filt]
  have "\<forall>f. ?flags = Some f \<longrightarrow> length f = q_len eng q"
    using F by auto
  then obtain found where found: "q_search eng q queries k ?flags = Some found"
      "length found = length queries div dim" "list_all (answers (q_len eng q) k ?flags) found"
    using assms(1-3,5) unfolding search_laws_def by blast
  have "?flags = None \<and> allowlist = [] \<or>
      (\<exists>f. ?flags = Some f \<and> (\<forall>i < q_len eng q. f ! i \<longleftrightarrow> (\<exists>s \<in> set allowlist. unat s = i)))"
    using F by auto
  then have "\<exists>g. \<forall>x \<in> set found. positional_result labels x = Inr (g x) \<and>
      result_ok eng (Positional q) labels k allowlist (g x)"
    using answers_positional_result [OF _ assms(4) labels] found(3)
    by (intro bchoice) (auto simp: list_all_iff)
  then obtain g where g: "\<forall>x \<in> set found. positional_result labels x = Inr (g x) \<and>
      result_ok eng (Positional q) labels k allowlist (g x)"
    by blast
  then have "collect_results (positional_result labels) found = Inr (map g found)"
    by (intro collect_results_total) simp
  with g found show ?thesis
    by (simp add: search_positional_def list_all_iff)
qed

text \<open>A table of labels covers a positional index when it has an entry for every row.\<close>

definition labels_cover :: "('q, 'm) engine \<Rightarrow> ('q, 'm) index \<Rightarrow> u64 list option \<Rightarrow> bool" where
  "labels_cover eng ix labels \<longleftrightarrow>
     (case (ix, labels) of (Positional q, Some table) \<Rightarrow> length table = q_len eng q | _ \<Rightarrow> True)"

lemma search_prepared_total:
  assumes "search_laws eng" and "index_dim_opt eng ix = Some dim" and "index_len eng ix < 2 ^ 64"
    and "well_formed_queries eng queries dim" and "prepare_filter eng ix allowlist = Inr filt"
    and "labels_cover eng ix labels"
  shows "\<exists>rs. search_prepared eng ix queries dim k filt labels = Inr rs \<and> length rs = length queries div dim \<and>
    list_all (result_ok eng ix labels k allowlist) rs"
proof (cases "index_is_empty eng ix")
  case True
  have "result_ok eng ix labels k allowlist no_results"
    by (auto simp: result_ok_def no_results_def split: index.splits option.splits)
  with True show ?thesis
    by (simp add: search_prepared_def list_all_iff)
next
  case False
  with assms show ?thesis
    by (cases ix)
      (auto simp: search_prepared_def index_is_empty_def index_len_def index_dim_opt_def labels_cover_def
        intro!: search_positional_total search_id_map_total)
qed

text \<open>The refusals of a search, by code.\<close>

lemma search_index_cases:
  assumes "search_laws eng" and "index_len eng ix < 2 ^ 64" and "labels_cover eng ix labels"
  shows "case search_index limits eng ix labels queries k allowlist of
      Inr rs \<Rightarrow> (\<exists>dim. index_dim_opt eng ix = Some dim \<and> well_formed_queries eng queries dim \<and>
        length rs = length queries div dim \<and> length rs \<le> max_queries_per_request limits \<and>
        list_all (known_id eng ix) allowlist \<and> list_all (result_ok eng ix labels k allowlist) rs)
    | Inl (Failed e) \<Rightarrow> st_code e \<in> {FailedPrecondition, InvalidArgument, ResourceExhausted}
    | Inl Panic \<Rightarrow> False"
proof (cases "index_dim_opt eng ix")
  case None
  then show ?thesis
    by (simp add: search_index_def)
next
  case (Some dim)
  show ?thesis
  proof (cases "validate_queries eng queries dim")
    case (Inl e)
    then have "st_code e = InvalidArgument"
      by (auto simp: validate_queries_def split: if_splits option.splits)
    with Inl Some show ?thesis
      by (simp add: search_index_def)
  next
    case (Inr u)
    then have wf: "well_formed_queries eng queries dim"
      by (simp add: validate_queries_Inr flip: unit_eq)
    show ?thesis
    proof (cases "max_queries_per_request limits < length queries div dim")
      case True
      with Inr Some show ?thesis
        by (simp add: search_index_def)
    next
      case False
      show ?thesis
      proof (cases "prepare_filter eng ix allowlist")
        case (Inl e)
        with Inr Some False prepare_filter_refusal [OF Inl] show ?thesis
          by (simp add: search_index_def)
      next
        case filt: (Inr filt)
        with search_prepared_total [OF assms(1) Some assms(2) wf filt assms(3), of k]
        obtain rs where "search_prepared eng ix queries dim k filt labels = Inr rs"
            "length rs = length queries div dim" "list_all (result_ok eng ix labels k allowlist) rs"
          by blast
        with Inr Some False filt wf prepare_filter_accepts_iff [of eng ix allowlist] show ?thesis
          by (auto simp: search_index_def)
      qed
    qed
  qed
qed

end
