(* ===== verification/Node_Service.thy ===== *)
theory Node_Service
  imports Node_Index Shard_Store
begin

text \<open>
  The handlers of \<^verbatim>\<open>TurboVecService\<close> (\<^verbatim>\<open>src/src/service.rs\<close>) over the registry and the shard files,
  the streamed search apart. A handler takes the registry and the file system to its answer and
  their new states. The handlers of one server run here one at a time: each takes the locks it
  needs for the step that matters (an \<open>Add\<close> additionally runs under its index's mutation lock), and
  no invariant below depends on how their reads interleave. A panic inside \<open>spawn_blocking\<close> reaches
  the caller as an internal error; here it is \<open>Panicked\<close>, which the properties exclude.
\<close>

datatype 'r answer = Reply 'r | Refused status | Panicked | Died

type_synonym ('q, 'm, 'r) handled = "'r answer \<times> ('q, 'm) index_store \<times> world"

fun answer_of :: "status failure + 'r \<Rightarrow> 'r answer" where
  "answer_of (Inr r) = Reply r"
| "answer_of (Inl (Failed e)) = Refused e"
| "answer_of (Inl Panic) = Panicked"

text \<open>A store operation on the blocking pool, its error under a status code.\<close>

definition on_store ::
    "(message \<Rightarrow> status) \<Rightarrow> ('x \<times> ('q, 'm) index_store) action \<Rightarrow> ('x \<Rightarrow> 'r)
     \<Rightarrow> ('q, 'm) index_store \<Rightarrow> world \<Rightarrow> ('q, 'm, 'r) handled" where
  "on_store refuse a reply st w =
     (case a w of
        (Done (x, st'), w') \<Rightarrow> (Reply (reply x), st', w')
      | (Error m, w') \<Rightarrow> (Refused (refuse m), st, w')
      | (Crashed, w') \<Rightarrow> (Died, st, w'))"

section \<open>Handles and metadata\<close>

definition node_handle :: "('q, 'm) index_store \<Rightarrow> string \<Rightarrow> status + ('q, 'm) index" where
  "node_handle st sid =
     (case store_get sid st of
        None \<Rightarrow> Inl (mk_status NotFound [Lit ''unknown index_id: '', Lit sid])
      | Some ix \<Rightarrow> Inr ix)"

definition node_info :: "('q, 'm) engine \<Rightarrow> ('q, 'm) index_store \<Rightarrow> string \<Rightarrow> ('q, 'm) index \<Rightarrow> index_info" where
  "node_info eng st sid ix =
     index_info_of eng sid ix (store_labels sid st \<noteq> None)
       (case store_generation sid st of None \<Rightarrow> 0 | Some g \<Rightarrow> g)"

definition store_handles :: "('q, 'm) index_store \<Rightarrow> (string \<times> ('q, 'm) index) list" where
  "store_handles st = reg_inner st"

text \<open>Locks are never poisoned here, so only the generations decide.\<close>

definition node_ready :: "('q, 'm) index_store \<Rightarrow> bool" where
  "node_ready st \<longleftrightarrow>
     list_all (\<lambda>(sid, _). case store_generation sid st of None \<Rightarrow> False | Some g \<Rightarrow> 0 < g) (store_handles st) \<or>
     reg_root st = None"

record create_index_request =
  ci_dim :: u32
  ci_bit_width :: u32
  ci_kind :: int
  ci_lazy :: bool

definition new_index :: "('q, 'm) engine \<Rightarrow> create_index_request \<Rightarrow> status + ('q, 'm) index" where
  "new_index eng req =
     (let bit_width = unat (ci_bit_width req); dim = unat (ci_dim req);
          refused = (\<lambda>e. invalid_argument [Lit e]) in
      if ci_kind req \<noteq> INDEX_KIND_UNSPECIFIED \<and> ci_kind req \<noteq> INDEX_KIND_POSITIONAL
          \<and> ci_kind req \<noteq> INDEX_KIND_ID_MAP then Inl (invalid_argument [Lit ''unknown index kind''])
      else if ci_kind req = INDEX_KIND_UNSPECIFIED then Inl (invalid_argument [Lit ''index kind is required''])
      else if ci_kind req = INDEX_KIND_POSITIONAL then
        (case (if ci_lazy req then q_new_lazy eng bit_width else q_new eng dim bit_width) of
           Inl e \<Rightarrow> Inl (refused e)
         | Inr q \<Rightarrow> Inr (Positional q))
      else
        (case (if ci_lazy req then m_new_lazy eng bit_width else m_new eng dim bit_width) of
           Inl e \<Rightarrow> Inl (refused e)
         | Inr m \<Rightarrow> Inr (IdMap m)))"

text \<open>Register a new index under the fresh name \<open>uuid\<close> and describe it.\<close>

definition register ::
    "('q, 'm) engine \<Rightarrow> string \<Rightarrow> ('q, 'm) index \<Rightarrow> u64 list option \<Rightarrow> ('q, 'm) index_store \<Rightarrow> world
     \<Rightarrow> ('q, 'm, string \<times> index_info) handled" where
  "register eng uuid ix labels st w =
     (case store_insert eng uuid ix labels st of
        Inl (Failed e) \<Rightarrow> (Refused e, st, w)
      | Inl Panic \<Rightarrow> (Panicked, st, w)
      | Inr (sid, st') \<Rightarrow>
          (case node_handle st' sid of
             Inl e \<Rightarrow> (Refused e, st', w)
           | Inr ix' \<Rightarrow> (Reply (sid, node_info eng st' sid ix'), st', w)))"

definition create_index ::
    "('q, 'm) engine \<Rightarrow> string \<Rightarrow> create_index_request \<Rightarrow> ('q, 'm) index_store \<Rightarrow> world
     \<Rightarrow> ('q, 'm, string \<times> index_info) handled" where
  "create_index eng uuid req st w =
     (case new_index eng req of
        Inl e \<Rightarrow> (Refused e, st, w)
      | Inr ix \<Rightarrow> register eng uuid ix None st w)"

definition drop_index ::
    "shard_env \<Rightarrow> string \<Rightarrow> string \<Rightarrow> ('q, 'm) index_store \<Rightarrow> world \<Rightarrow> ('q, 'm, bool) handled" where
  "drop_index env uuid sid st w = on_store internal (store_delete env uuid sid st) (\<lambda>dropped. dropped) st w"

definition get_index_info ::
    "('q, 'm) engine \<Rightarrow> string \<Rightarrow> ('q, 'm) index_store \<Rightarrow> world \<Rightarrow> ('q, 'm, index_info) handled" where
  "get_index_info eng sid st w =
     (answer_of (checked (rbind (node_handle st sid) (\<lambda>ix. Inr (node_info eng st sid ix)))), st, w)"

definition list_indexes ::
    "('q, 'm) engine \<Rightarrow> ('q, 'm) index_store \<Rightarrow> world \<Rightarrow> ('q, 'm, index_info list) handled" where
  "list_indexes eng st w = (Reply (map (\<lambda>(sid, ix). node_info eng st sid ix) (store_handles st)), st, w)"

section \<open>Adding rows\<close>

record add_request =
  ad_index_id :: string
  ad_dim :: u32
  ad_vectors :: "f32 list"
  ad_ids :: "u64 list"
  ad_operation_id :: string
  ad_expected_len :: "u64 option"
  ad_expected_rows :: u64

record add_response =
  ar_added :: u64
  ar_len :: u64
  ar_generation :: u64
  ar_replayed :: bool
  ar_operation_id :: string

text \<open>The frames after the first are checked against it and staged; nothing is written yet.\<close>

fun stage_frames ::
    "service_limits \<Rightarrow> add_request \<Rightarrow> (status + add_request) list \<Rightarrow> status + add_request" where
  "stage_frames limits combined [] = Inr combined"
| "stage_frames limits combined (frame # later) =
     rbind frame (\<lambda>chunk.
       if ad_index_id chunk \<noteq> [] \<and> ad_index_id chunk \<noteq> ad_index_id combined then
         Inl (invalid_argument [Lit ''every add frame must carry the same index_id''])
       else if ad_dim chunk \<noteq> ad_dim combined \<or>
           (ad_operation_id chunk \<noteq> [] \<and> ad_operation_id chunk \<noteq> ad_operation_id combined) \<or>
           (ad_expected_len chunk \<noteq> None \<and> ad_expected_len chunk \<noteq> ad_expected_len combined) \<or>
           (ad_expected_rows chunk \<noteq> 0 \<and> ad_expected_rows chunk \<noteq> ad_expected_rows combined) then
         Inl (invalid_argument [Lit ''every add frame must repeat the same operation metadata''])
       else
         (case checked_add_usize (length (ad_vectors combined)) (length (ad_vectors chunk)) of
            None \<Rightarrow> Inl (mk_status ResourceExhausted [Lit ''add operation is too large''])
          | Some next_coordinates \<Rightarrow>
              rbind (validate_vector_frame limits next_coordinates) (\<lambda>_.
                stage_frames limits
                  (combined\<lparr>ad_vectors := ad_vectors combined @ ad_vectors chunk,
                            ad_ids := ad_ids combined @ ad_ids chunk\<rparr>) later)))"

definition bad_buffer :: "nat \<Rightarrow> nat \<Rightarrow> status" where
  "bad_buffer n dim =
     invalid_argument
       [Lit ''vector buffer length '', num n, Lit '' is not a positive multiple of dim '', num dim]"

text \<open>What the declared operation must look like before the mutation lock is taken.\<close>

definition check_operation :: "('q, 'm) index_store \<Rightarrow> add_request \<Rightarrow> u64 \<Rightarrow> status + unit" where
  "check_operation st req rows =
     (if ad_operation_id req \<noteq> [] then
        (if reg_root st = None then
           Inl (failed_precondition [Lit ''retry-safe ingest requires TURBOVEC_DATA_DIR''])
         else if ad_expected_len req = None \<or> ad_expected_rows req \<noteq> rows then
           Inl (invalid_argument
             [Lit ''operation '', Lit (ad_operation_id req), Lit '' must declare expected_len and exactly '',
              num64 rows, Lit '' expected_rows''])
         else Inr ())
      else if ad_expected_len req \<noteq> None \<or> ad_expected_rows req \<noteq> 0 then
        Inl (invalid_argument [Lit ''expected_len and expected_rows require operation_id''])
      else Inr ())"

definition stage_add ::
    "service_limits \<Rightarrow> ('q, 'm) index_store \<Rightarrow> (status + add_request) list
     \<Rightarrow> status + (add_request \<times> u64 \<times> ('q, 'm) index)" where
  "stage_add limits st stream =
     (case stream of
        [] \<Rightarrow> Inl (invalid_argument [Lit ''empty add stream: no frames received''])
      | frame # later \<Rightarrow>
          rbind frame (\<lambda>first.
          rbind (validate_vector_frame limits (length (ad_vectors first))) (\<lambda>_.
          rbind (node_handle st (ad_index_id first)) (\<lambda>ix.
            if store_labels (ad_index_id first) st \<noteq> None then
              Inl (precondition LABELLED_INDEX_IMMUTABLE
                [Lit ''index '', Lit (ad_index_id first),
                 Lit '' carries external row labels from ImportRows; build a new index from its rows plus the new ones instead''])
            else
              rbind (stage_frames limits first later) (\<lambda>combined.
                let dim = unat (ad_dim combined) in
                if dim = 0 \<or> \<not> is_multiple_of (length (ad_vectors combined)) dim then
                  Inl (bad_buffer (length (ad_vectors combined)) dim)
                else
                  (let rows = as_u64 (length (ad_vectors combined) div dim) in
                   rbind (check_operation st combined rows) (\<lambda>_. Inr (combined, rows, ix))))))))"

text \<open>\<open>add_chunk\<close>: the rows added and the index that holds them.\<close>

definition add_chunk :: "('q, 'm) engine \<Rightarrow> ('q, 'm) index \<Rightarrow> add_request \<Rightarrow> status + (u64 \<times> ('q, 'm) index)" where
  "add_chunk eng ix chunk =
     (let dim = unat (ad_dim chunk); n_coords = length (ad_vectors chunk) in
      if dim = 0 \<or> \<not> is_multiple_of n_coords dim then Inl (bad_buffer n_coords dim)
      else
        (let n = as_u64 (n_coords div dim) in
         case ix of
           Positional q \<Rightarrow>
             if ad_ids chunk \<noteq> [] then
               Inl (invalid_argument [Lit ''ids must be empty for a positional index''])
             else
               (case q_add_2d eng q (ad_vectors chunk) dim of
                  Inl e \<Rightarrow> Inl (invalid_argument [Lit e])
                | Inr q' \<Rightarrow> Inr (n, Positional q'))
         | IdMap m \<Rightarrow>
             (case m_add_with_ids_2d eng m (ad_vectors chunk) dim (ad_ids chunk) of
                Inl e \<Rightarrow> Inl (invalid_argument [Lit e])
              | Inr m' \<Rightarrow> Inr (n, IdMap m'))))"

text \<open>What an operation id finds when the mutation lock is held.\<close>

datatype ingest_decision = Conflict status | Replay ingest_record | Apply

definition decide_ingest ::
    "('q, 'm) index_store \<Rightarrow> add_request \<Rightarrow> u64 \<Rightarrow> u64 \<Rightarrow> ingest_decision" where
  "decide_ingest st req rows current_len =
     (let expected = (case ad_expected_len req of None \<Rightarrow> 0 | Some n \<Rightarrow> n);
          fresh = (if current_len \<noteq> expected
                   then Conflict (mk_status Aborted
                     [Lit ''ingest generation conflict: expected len '', num64 expected,
                      Lit '', current len is '', num64 current_len])
                   else Apply) in
      case store_ingest (ad_index_id req) st of
        None \<Rightarrow> fresh
      | Some r \<Rightarrow>
          if ir_operation_id r = ad_operation_id req then
            (if ir_expected_len r \<noteq> expected \<or> ir_rows r \<noteq> rows \<or> ir_len r \<noteq> current_len
             then Conflict (failed_precondition
               [Lit ''operation_id was already used with different ingest metadata''])
             else Replay r)
          else fresh)"

definition added_response :: "add_request \<Rightarrow> u64 \<Rightarrow> u64 \<Rightarrow> bool \<Rightarrow> u64 \<Rightarrow> add_response" where
  "added_response req rows len replayed generation =
     \<lparr>ar_added = rows, ar_len = len, ar_generation = generation, ar_replayed = replayed,
      ar_operation_id = ad_operation_id req\<rparr>"

text \<open>The record of an applied operation, before it is persisted.\<close>

definition ingest_record_for ::
    "('q, 'm) index_store \<Rightarrow> add_request \<Rightarrow> u64 \<Rightarrow> u64 \<Rightarrow> status + ingest_record" where
  "ingest_record_for st req rows len =
     (case checked_add_u64 (case store_generation (ad_index_id req) st of None \<Rightarrow> 0 | Some g \<Rightarrow> g) 1 of
        None \<Rightarrow> Inl (internal [Lit ''generation counter overflow''])
      | Some g \<Rightarrow>
          Inr \<lparr>ir_operation_id = ad_operation_id req,
               ir_expected_len = (case ad_expected_len req of None \<Rightarrow> 0 | Some n \<Rightarrow> n),
               ir_rows = rows, ir_len = len, ir_generation = g\<rparr>)"

text \<open>The write of an operation: rows, then its record, then the generation that holds both.\<close>

definition apply_ingest ::
    "shard_env \<Rightarrow> ('q, 'm) codec \<Rightarrow> ('q, 'm) engine \<Rightarrow> string \<Rightarrow> string \<Rightarrow> add_request \<Rightarrow> u64
     \<Rightarrow> ('q, 'm) index \<Rightarrow> u64 \<Rightarrow> ('q, 'm) index_store \<Rightarrow> world \<Rightarrow> ('q, 'm, add_response) handled" where
  "apply_ingest env cod eng u v req rows ix current_len st w =
     (case add_chunk eng ix req of
        Inl e \<Rightarrow> (Refused e, st, w)
      | Inr (added, ix') \<Rightarrow>
          (let sid = ad_index_id req; len = current_len + added; st1 = set_index sid ix' st in
           if ad_operation_id req = [] then (Reply (added_response req added len False 0), st1, w)
           else
             (case ingest_record_for st1 req rows len of
                Inl e \<Rightarrow> (Refused e, st1, w)
              | Inr r \<Rightarrow>
                  (let st2 = set_ingest_record sid r st1 in
                   on_store internal (persist env cod eng u v sid st2) (added_response req added len False) st2 w))))"

text \<open>A replay answers from the record; an operation that was applied but not persisted is persisted now.\<close>

definition replay_ingest ::
    "shard_env \<Rightarrow> ('q, 'm) codec \<Rightarrow> ('q, 'm) engine \<Rightarrow> string \<Rightarrow> string \<Rightarrow> add_request \<Rightarrow> u64
     \<Rightarrow> ingest_record \<Rightarrow> ('q, 'm) index_store \<Rightarrow> world \<Rightarrow> ('q, 'm, add_response) handled" where
  "replay_ingest env cod eng u v req rows r st w =
     (if store_generation (ad_index_id req) st = Some (ir_generation r)
      then (Reply (added_response req rows (ir_len r) True (ir_generation r)), st, w)
      else on_store internal (persist env cod eng u v (ad_index_id req) st)
             (added_response req rows (ir_len r) True) st w)"

definition node_add ::
    "service_limits \<Rightarrow> shard_env \<Rightarrow> ('q, 'm) codec \<Rightarrow> ('q, 'm) engine \<Rightarrow> string \<Rightarrow> string
     \<Rightarrow> (status + add_request) list \<Rightarrow> ('q, 'm) index_store \<Rightarrow> world \<Rightarrow> ('q, 'm, add_response) handled" where
  "node_add limits env cod eng u v stream st w =
     (case stage_add limits st stream of
        Inl e \<Rightarrow> (Refused e, st, w)
      | Inr (req, rows, ix) \<Rightarrow>
          (let current_len = as_u64 (index_len eng ix);
               decision = (if ad_operation_id req = [] then Apply else decide_ingest st req rows current_len) in
           case decision of
             Conflict e \<Rightarrow> (Refused e, st, w)
           | Replay r \<Rightarrow> replay_ingest env cod eng u v req rows r st w
           | Apply \<Rightarrow> apply_ingest env cod eng u v req rows ix current_len st w))"

text \<open>
  A call whose client goes away is dropped where it waits. If that is while \<open>add_chunk\<close> runs on the
  blocking pool, the rows are added and nothing after it happens.
\<close>

definition node_add_dropped ::
    "service_limits \<Rightarrow> ('q, 'm) engine \<Rightarrow> (status + add_request) list \<Rightarrow> ('q, 'm) index_store
     \<Rightarrow> ('q, 'm) index_store" where
  "node_add_dropped limits eng stream st =
     (case stage_add limits st stream of
        Inl e \<Rightarrow> st
      | Inr (req, rows, ix) \<Rightarrow>
          if ad_operation_id req \<noteq> [] \<and> decide_ingest st req rows (as_u64 (index_len eng ix)) \<noteq> Apply then st
          else
            (case add_chunk eng ix req of
               Inl e \<Rightarrow> st
             | Inr (added, ix') \<Rightarrow> set_index (ad_index_id req) ix' st))"

section \<open>The other handlers\<close>

definition remove_row ::
    "('q, 'm) engine \<Rightarrow> string \<Rightarrow> u64 \<Rightarrow> ('q, 'm) index_store \<Rightarrow> world \<Rightarrow> ('q, 'm, bool) handled" where
  "remove_row eng sid row st w =
     (case node_handle st sid of
        Inl e \<Rightarrow> (Refused e, st, w)
      | Inr (Positional q) \<Rightarrow> (Refused (failed_precondition [Lit ''remove requires an ID_MAP index'']), st, w)
      | Inr (IdMap m) \<Rightarrow>
          (case m_remove eng m row of (removed, m') \<Rightarrow> (Reply removed, set_index sid (IdMap m') st, w)))"

record search_request =
  se_index_id :: string
  se_queries :: "f32 list"
  se_k :: u32
  se_allowlist :: "u64 list"

text \<open>\<open>search\<close>; \<open>search_stream\<close> answers the same results one by one.\<close>

definition node_search ::
    "service_limits \<Rightarrow> ('q, 'm) engine \<Rightarrow> search_request \<Rightarrow> ('q, 'm) index_store \<Rightarrow> world
     \<Rightarrow> ('q, 'm, query_result list) handled" where
  "node_search limits eng req st w =
     (answer_of
        (rbind (checked (node_handle st (se_index_id req))) (\<lambda>ix.
         rbind (checked (validate_k limits (unat (se_k req)))) (\<lambda>_.
         rbind (checked (validate_vector_frame limits (length (se_queries req)))) (\<lambda>_.
         search_index limits eng ix (store_labels (se_index_id req) st) (se_queries req) (unat (se_k req))
           (se_allowlist req))))), st, w)"

definition flush_index ::
    "shard_env \<Rightarrow> ('q, 'm) codec \<Rightarrow> ('q, 'm) engine \<Rightarrow> string \<Rightarrow> string \<Rightarrow> string
     \<Rightarrow> ('q, 'm) index_store \<Rightarrow> world \<Rightarrow> ('q, 'm, string \<times> u64) handled" where
  "flush_index env cod eng u v sid st w =
     (case node_handle st sid of
        Inl e \<Rightarrow> (Refused e, st, w)
      | Inr _ \<Rightarrow> on_store failed_precondition (persist env cod eng u v sid st) (\<lambda>g. (sid, g)) st w)"

record set_calibration_request =
  sc_index_id :: string
  sc_shift :: "f32 list"
  sc_scale :: "f32 list"

text \<open>The check and rebuild under the write lock.\<close>

definition recalibrated ::
    "('q, 'm) engine \<Rightarrow> set_calibration_request \<Rightarrow> ('q, 'm) index \<Rightarrow> status + 'q" where
  "recalibrated eng req ix =
     rbind (positional ''SetCalibration'' ix) (\<lambda>q.
       if q_len eng q \<noteq> 0 then
         Inl (precondition INDEX_NOT_EMPTY
           [Lit ''SetCalibration needs an empty index; this one holds '', num (q_len eng q),
            Lit '' vectors already encoded under its current pair''])
       else
         (case q_dim_opt eng q of
            None \<Rightarrow> Inl (precondition INVALID_CALIBRATION
              [Lit ''SetCalibration needs an index with a bound dim; a lazy index binds its dim on the first Add, and a pair is per-coordinate''])
          | Some dim \<Rightarrow>
              if length (sc_shift req) \<noteq> dim \<or> length (sc_scale req) \<noteq> dim then
                Inl (invalid INVALID_CALIBRATION
                  [Lit ''calibration pair has '', num (length (sc_shift req)), Lit '' shift and '',
                   num (length (sc_scale req)), Lit '' scale coordinates, index dim is '', num dim])
              else
                (case q_from_parts eng (Some dim) (q_bit_width eng q) 0 [] [] (sc_shift req) (sc_scale req) of
                   Inl e \<Rightarrow> Inl (invalid INVALID_CALIBRATION [Lit e])
                 | Inr q' \<Rightarrow> Inr q')))"

definition set_calibration ::
    "('q, 'm) engine \<Rightarrow> set_calibration_request \<Rightarrow> ('q, 'm) index_store \<Rightarrow> world
     \<Rightarrow> ('q, 'm, calibration) handled" where
  "set_calibration eng req st w =
     (case rbind (node_handle st (sc_index_id req)) (recalibrated eng req) of
        Inl e \<Rightarrow> (Refused e, st, w)
      | Inr q \<Rightarrow> (Reply (calibration_of eng q), set_index (sc_index_id req) (Positional q) st, w))"

definition get_calibration ::
    "('q, 'm) engine \<Rightarrow> string \<Rightarrow> ('q, 'm) index_store \<Rightarrow> world \<Rightarrow> ('q, 'm, calibration) handled" where
  "get_calibration eng sid st w =
     (answer_of (checked (rbind (node_handle st sid) (calibration_of_index eng))), st, w)"

definition export_call ::
    "('q, 'm) engine \<Rightarrow> string \<Rightarrow> u64 \<Rightarrow> u64 \<Rightarrow> ('q, 'm) index_store \<Rightarrow> world
     \<Rightarrow> ('q, 'm, row_block list \<times> status failure option) handled" where
  "export_call eng sid start cnt st w =
     (case node_handle st sid of
        Inl e \<Rightarrow> (Refused e, st, w)
      | Inr ix \<Rightarrow> (Reply (export_rows eng ix (store_labels sid st) start cnt), st, w))"

definition import_rows ::
    "('q, 'm) engine \<Rightarrow> string \<Rightarrow> (status + import_payload option) list \<Rightarrow> ('q, 'm) index_store \<Rightarrow> world
     \<Rightarrow> ('q, 'm, string \<times> index_info) handled" where
  "import_rows eng uuid stream st w =
     (case import_stream eng stream of
        Inl e \<Rightarrow> (Refused e, st, w)
      | Inr (q, labels) \<Rightarrow> register eng uuid (Positional q) (Some labels) st w)"

section \<open>A server's history\<close>

datatype node_call =
    CreateIndex string create_index_request
  | DropIndex string string
  | GetIndexInfo string
  | ListIndexes
  | AddRows string string "(status + add_request) list"
  | DroppedAdd "(status + add_request) list"
  | RemoveRow string u64
  | SearchRows search_request
  | FlushIndex string string string
  | SetCalibration set_calibration_request
  | GetCalibration string
  | ExportRows string u64 u64
  | ImportRows string "(status + import_payload option) list"

datatype node_reply =
    Registered string index_info
  | Dropped bool
  | Described index_info
  | Listed "index_info list"
  | Added add_response
  | NoAnswer
  | Removed bool
  | Found "query_result list"
  | Flushed string u64
  | CalibrationPair calibration
  | Exported "row_block list" "status failure option"

fun map_answer :: "('a \<Rightarrow> 'b) \<Rightarrow> 'a answer \<Rightarrow> 'b answer" where
  "map_answer f (Reply r) = Reply (f r)"
| "map_answer f (Refused e) = Refused e"
| "map_answer f Panicked = Panicked"
| "map_answer f Died = Died"

abbreviation replying :: "('a \<Rightarrow> 'b) \<Rightarrow> ('q, 'm, 'a) handled \<Rightarrow> ('q, 'm, 'b) handled" where
  "replying f \<equiv> apfst (map_answer f)"

text \<open>One call on a running server.\<close>

fun node_step ::
    "service_limits \<Rightarrow> shard_env \<Rightarrow> ('q, 'm) codec \<Rightarrow> ('q, 'm) engine \<Rightarrow> node_call
     \<Rightarrow> ('q, 'm) index_store \<Rightarrow> world \<Rightarrow> ('q, 'm, node_reply) handled" where
  "node_step limits env cod eng (CreateIndex uuid req) st w =
     replying (\<lambda>(sid, info). Registered sid info) (create_index eng uuid req st w)"
| "node_step limits env cod eng (DropIndex uuid sid) st w = replying Dropped (drop_index env uuid sid st w)"
| "node_step limits env cod eng (GetIndexInfo sid) st w = replying Described (get_index_info eng sid st w)"
| "node_step limits env cod eng ListIndexes st w = replying Listed (list_indexes eng st w)"
| "node_step limits env cod eng (AddRows u v stream) st w =
     replying Added (node_add limits env cod eng u v stream st w)"
| "node_step limits env cod eng (DroppedAdd stream) st w = (Reply NoAnswer, node_add_dropped limits eng stream st, w)"
| "node_step limits env cod eng (RemoveRow sid row) st w = replying Removed (remove_row eng sid row st w)"
| "node_step limits env cod eng (SearchRows req) st w = replying Found (node_search limits eng req st w)"
| "node_step limits env cod eng (FlushIndex u v sid) st w =
     replying (\<lambda>(sid, g). Flushed sid g) (flush_index env cod eng u v sid st w)"
| "node_step limits env cod eng (SetCalibration req) st w = replying CalibrationPair (set_calibration eng req st w)"
| "node_step limits env cod eng (GetCalibration sid) st w = replying CalibrationPair (get_calibration eng sid st w)"
| "node_step limits env cod eng (ExportRows sid start cnt) st w =
     replying (\<lambda>(blocks, e). Exported blocks e) (export_call eng sid start cnt st w)"
| "node_step limits env cod eng (ImportRows uuid stream) st w =
     replying (\<lambda>(sid, info). Registered sid info) (import_rows eng uuid stream st w)"

text \<open>A history: every call with the environment of its file system calls, until the process dies.\<close>

fun node_run ::
    "service_limits \<Rightarrow> ('q, 'm) codec \<Rightarrow> ('q, 'm) engine \<Rightarrow> (shard_env \<times> node_call) list
     \<Rightarrow> ('q, 'm) index_store \<Rightarrow> world \<Rightarrow> node_reply answer list \<times> ('q, 'm) index_store \<times> world" where
  "node_run limits cod eng [] st w = ([], st, w)"
| "node_run limits cod eng ((env, call) # calls) st w =
     (case node_step limits env cod eng call st w of
        (Died, rest) \<Rightarrow> ([Died], rest)
      | (a, st', w') \<Rightarrow>
          (case node_run limits cod eng calls st' w' of (as, rest) \<Rightarrow> (a # as, rest)))"

end
