(* ===== verification/Node_Properties.thy ===== *)
theory Node_Properties
  imports Node_Service Shard_Properties
begin

text \<open>
  The promises of the node's handlers: the registry stays well formed and no handler panics over
  any history of calls.
\<close>

section \<open>What the engine promises\<close>

definition engine_laws :: "('q, 'm) engine \<Rightarrow> bool" where
  "engine_laws eng \<longleftrightarrow>
     search_laws eng \<and> raw_parts_law eng \<and> (\<forall>q. well_shaped eng q \<and> q_len eng q < 2 ^ 64) \<and>
     (\<forall>m. m_len eng m < 2 ^ 64)"

lemma engine_index_len: "engine_laws eng \<Longrightarrow> index_len eng ix < 2 ^ 64"
  by (cases ix) (simp_all add: engine_laws_def index_len_def)

section \<open>A well-formed registry\<close>

text \<open>
  Every open index has a generation and, if it is positional and labelled, a label per row; what is
  not open has no labels, generation or ingest record.
\<close>

definition shard_ok :: "('q, 'm) engine \<Rightarrow> ('q, 'm) index_store \<Rightarrow> string \<Rightarrow> bool" where
  "shard_ok eng st s \<longleftrightarrow>
     (case store_get s st of
        None \<Rightarrow> store_generation s st = None \<and> store_labels s st = None \<and> store_ingest s st = None
      | Some ix \<Rightarrow> store_generation s st \<noteq> None \<and> labels_cover eng ix (store_labels s st))"

definition registry_ok :: "('q, 'm) engine \<Rightarrow> ('q, 'm) index_store \<Rightarrow> bool" where
  "registry_ok eng st \<longleftrightarrow> (\<forall>s. shard_ok eng st s)"

lemma registry_okD:
  assumes "registry_ok eng st" and "store_get s st = Some ix"
  shows "store_generation s st \<noteq> None" "labels_cover eng ix (store_labels s st)"
  using assms by (auto simp: registry_ok_def shard_ok_def dest!: spec [of _ s])

lemma store_sel [simp]:
  "store_get s (set_index sid ix st) = (if s = sid then Some ix else store_get s st)"
  "store_labels s (set_index sid ix st) = store_labels s st"
  "store_generation s (set_index sid ix st) = store_generation s st"
  "store_ingest s (set_index sid ix st) = store_ingest s st"
  "reg_root (set_index sid ix st) = reg_root st"
  "store_get s (set_generation sid g st) = store_get s st"
  "store_labels s (set_generation sid g st) = store_labels s st"
  "store_generation s (set_generation sid g st) = (if s = sid then Some g else store_generation s st)"
  "store_ingest s (set_generation sid g st) = store_ingest s st"
  "reg_root (set_generation sid g st) = reg_root st"
  "store_get s (set_ingest_record sid r st) = store_get s st"
  "store_labels s (set_ingest_record sid r st) = store_labels s st"
  "store_generation s (set_ingest_record sid r st) = store_generation s st"
  "store_ingest s (set_ingest_record sid r st) = (if s = sid then Some r else store_ingest s st)"
  "reg_root (set_ingest_record sid r st) = reg_root st"
  by (auto simp: set_index_def set_generation_def set_ingest_record_def store_get_def store_labels_def
      store_generation_def store_ingest_def update_conv')

text \<open>Each write of the registry keeps it well formed.\<close>

lemma registry_ok_empty [intro]: "registry_ok eng (empty_store root)"
  by (simp add: registry_ok_def shard_ok_def empty_store_def store_get_def store_generation_def
      store_labels_def store_ingest_def)

lemma shard_ok_cong:
  assumes "store_get s st' = store_get s st" and "store_generation s st' = store_generation s st"
    and "store_labels s st' = store_labels s st" and "store_ingest s st' = store_ingest s st"
  shows "shard_ok eng st' s \<longleftrightarrow> shard_ok eng st s"
  by (simp only: shard_ok_def assms)

lemma registry_ok_at:
  assumes "registry_ok eng st" and "shard_ok eng st' sid"
    and "\<And>s. s \<noteq> sid \<Longrightarrow> store_get s st' = store_get s st \<and> store_generation s st' = store_generation s st \<and>
      store_labels s st' = store_labels s st \<and> store_ingest s st' = store_ingest s st"
  shows "registry_ok eng st'"
  unfolding registry_ok_def
proof
  fix s
  show "shard_ok eng st' s"
  proof (cases "s = sid")
    case False
    then show ?thesis
      using shard_ok_cong [of s st' st eng] assms(1,3) by (simp add: registry_ok_def)
  qed (use assms(2) in simp)
qed

lemma registry_ok_set_index:
  assumes "registry_ok eng st" and "store_get sid st \<noteq> None" and "labels_cover eng ix (store_labels sid st)"
  shows "registry_ok eng (set_index sid ix st)"
  by (rule registry_ok_at [of _ _ _ sid, OF assms(1)])
    (use assms registry_okD(1) [OF assms(1)] in \<open>auto simp: shard_ok_def\<close>)

lemma registry_ok_set_generation:
  "registry_ok eng st \<Longrightarrow> store_get sid st \<noteq> None \<Longrightarrow> registry_ok eng (set_generation sid g st)"
  by (rule registry_ok_at [of _ _ _ sid], assumption) (auto simp: shard_ok_def dest: registry_okD)

lemma registry_ok_set_ingest:
  "registry_ok eng st \<Longrightarrow> store_get sid st \<noteq> None \<Longrightarrow> registry_ok eng (set_ingest_record sid r st)"
  by (rule registry_ok_at [of _ _ _ sid], assumption) (auto simp: shard_ok_def dest: registry_okD)

lemma registry_ok_forget: "registry_ok eng st \<Longrightarrow> registry_ok eng (forget sid st)"
  by (rule registry_ok_at [of _ _ _ sid], assumption) (auto simp: shard_ok_def)

lemma labels_cover_len:
  "(\<And>v. labels = Some v \<Longrightarrow> length v = index_len eng ix) \<Longrightarrow> labels_cover eng ix labels"
  by (cases labels) (auto simp: labels_cover_def index_len_def split: index.splits)

lemma registry_ok_insert:
  assumes "insert_with_id eng sid ix labels g st = Inr st'" and "registry_ok eng st"
  shows "registry_ok eng st'"
proof -
  note I = insert_with_id_Inr [OF assms(1)]
  have "store_labels sid st = None"
    using assms(2) I(1) by (auto simp: registry_ok_def shard_ok_def dest!: spec [of _ sid])
  then have "store_labels sid st' = labels"
    using I(6) [of sid] by (cases labels) simp_all
  moreover have "labels_cover eng ix labels"
    using I(3) by (rule labels_cover_len)
  ultimately have "shard_ok eng st' sid"
    by (simp add: shard_ok_def I(4,5))
  with assms(2) show ?thesis
    by (rule registry_ok_at) (simp add: I(4-7))
qed

section \<open>What an open leaves\<close>

lemma registry_ok_with_ingest:
  "registry_ok eng st \<Longrightarrow> store_get sid st \<noteq> None \<Longrightarrow> registry_ok eng (with_ingest sid r st)"
  by (cases r) (simp_all add: with_ingest_def registry_ok_set_ingest)

lemma restore_dirs_keeps:
  assumes "restore_dirs env cod eng root sids st w = (Done st', w')" and "registry_ok eng st"
    and "same_shards fs0 (w_files w)"
  shows "registry_ok eng st' \<and> same_shards fs0 (w_files w')"
  using assms
proof (induction sids arbitrary: st w)
  case Nil
  then show ?case by simp
next
  case (Cons sid sids)
  then obtain st1 w1 where D: "restore_dir env cod eng root sid st w = (Done st1, w1)"
      and R: "restore_dirs env cod eng root sids st1 w1 = (Done st', w')"
    by auto
  have "registry_ok eng st1 \<and> same_shards fs0 (w_files w1)"
    using D
  proof (cases rule: restore_dir_Done)
    case tombstone
    have "node_at (w_files w1) (s # p) = node_at (w_files w) (s # p)" if "\<not> tombstoned s" for s p
      using that tombstone(1) by (intro tombstone(3)) auto
    with tombstone(2) Cons.prems(2,3) show ?thesis
      by (simp add: same_shards_def)
  next
    case skipped
    with Cons.prems(2,3) show ?thesis by simp
  next
    case (restored g ix labels r st2)
    have "store_get sid st2 = Some ix"
      using insert_with_id_Inr(4) [OF restored(5), of sid] by simp
    with restored registry_ok_insert [OF restored(5) Cons.prems(2)] Cons.prems(3) show ?thesis
      by (simp add: registry_ok_with_ingest)
  qed
  then show ?case
    using Cons.IH [OF R] by simp
qed

lemma store_open_keeps:
  assumes "store_open env cod eng root w = (Done st, w')"
  shows "registry_ok eng st" and "same_shards (w_files w) (w_files w')"
proof -
  obtain w1 w2 where "syscall env (MkDirAll []) (\<lambda>e. [Lit ''create data root '', Lit root, Lit '': '', Lit e]) w = (Done (), w1)"
      and "syscall env (ReadDir []) (path_error ''read data root'' root []) w1 = (Done (), w2)"
      and R: "restore_dirs env cod eng root (shard_dirs (w_files w2)) (empty_store (Some root)) w2 = (Done st, w')"
    using assms by (auto simp: store_open_def restore_all_def)
  then have "same_shards (w_files w) (w_files w2)"
    by (simp add: syscall_idle_Done same_shards_def)
  then show "registry_ok eng st" "same_shards (w_files w) (w_files w')"
    using restore_dirs_keeps [OF R registry_ok_empty] by simp_all
qed

section \<open>Every handler keeps the registry and never panics\<close>

definition safe :: "('q, 'm) engine \<Rightarrow> ('q, 'm, 'r) handled \<Rightarrow> bool" where
  "safe eng h \<longleftrightarrow> fst h \<noteq> Panicked \<and> registry_ok eng (fst (snd h))"

named_theorems safe_intros

lemma safe_same [safe_intros]: "registry_ok eng st \<Longrightarrow> a \<noteq> Panicked \<Longrightarrow> safe eng (a, st, w)"
  by (simp add: safe_def)

lemma map_answer_iff [simp]:
  "map_answer f a = Panicked \<longleftrightarrow> a = Panicked"
  "map_answer f a = Reply y \<longleftrightarrow> (\<exists>x. a = Reply x \<and> y = f x)"
  by (cases a; auto)+

lemma safe_replying: "safe eng h \<Longrightarrow> safe eng (replying f h)"
  by (cases h; cases "fst h") (simp_all add: safe_def)

lemma answer_of_checked [simp]: "answer_of (checked r) \<noteq> Panicked"
  by (cases r) simp_all

lemma safe_on_store:
  assumes "registry_ok eng st" and "\<And>x st' w'. a w = (Done (x, st'), w') \<Longrightarrow> registry_ok eng st'"
  shows "safe eng (on_store refuse a reply st w)"
  using assms by (auto simp: on_store_def safe_def split: prod.split run.split)

lemma persist_registry:
  assumes "persist env cod eng u v sid st w = (Done (g, st'), w')"
  shows "st' = set_generation sid g st \<and> store_get sid st \<noteq> None"
  using assms
proof (cases rule: persist_runs)
  case (running root ix g')
  then show ?thesis by auto
qed simp

lemma safe_persist:
  "registry_ok eng st \<Longrightarrow> safe eng (on_store refuse (persist env cod eng u v sid st) reply st w)"
  by (rule safe_on_store) (auto dest!: persist_registry intro: registry_ok_set_generation)

lemma store_delete_registry:
  "store_delete env uuid sid st w = (Done (b, st'), w') \<Longrightarrow> st' = forget sid st"
  by (auto simp: store_delete_def Let_def)

lemma node_handle_Inr [simp]: "node_handle st sid = Inr ix \<longleftrightarrow> store_get sid st = Some ix"
  by (auto simp: node_handle_def split: option.splits)

text \<open>A fresh name: valid and not registered.\<close>

definition fresh_name :: "string \<Rightarrow> ('q, 'm) index_store \<Rightarrow> bool" where
  "fresh_name uuid st \<longleftrightarrow> validate_shard_id uuid = Inr () \<and> store_get uuid st = None"

lemma safe_register:
  assumes "registry_ok eng st" and "fresh_name uuid st"
    and "\<And>v. labels = Some v \<Longrightarrow> length v = index_len eng ix"
  shows "safe eng (register eng uuid ix labels st w)"
proof -
  obtain st' where I: "insert_with_id eng uuid ix labels 0 st = Inr st'"
    using insert_with_id_ok [of uuid st labels eng ix 0] assms by (auto simp: fresh_name_def)
  have "store_get uuid st' = Some ix"
    using insert_with_id_Inr(4) [OF I, of uuid] by simp
  then show ?thesis
    using registry_ok_insert [OF I assms(1)]
    by (simp add: register_def store_insert_def I node_handle_def safe_def)
qed

lemma stage_frames_index:
  "stage_frames limits req frms = Inr req' \<Longrightarrow>
     ad_index_id req' = ad_index_id req \<and> ad_operation_id req' = ad_operation_id req \<and>
     ad_expected_len req' = ad_expected_len req \<and> ad_expected_rows req' = ad_expected_rows req \<and>
     ad_dim req' = ad_dim req"
proof (induction limits req frms rule: stage_frames.induct)
  case (2 limits req frame later)
  then obtain chunk where "frame = Inr chunk"
    by (cases frame) auto
  with 2 show ?case
    by (auto split: if_splits option.splits)
qed simp

lemma stage_add_Inr:
  assumes "stage_add limits st stream = Inr (req, rows, ix)"
  shows "store_get (ad_index_id req) st = Some ix" "store_labels (ad_index_id req) st = None"
    "ad_operation_id req \<noteq> [] \<Longrightarrow> reg_root st \<noteq> None"
    "rows = as_u64 (length (ad_vectors req) div unat (ad_dim req))" "0 < unat (ad_dim req)"
    "is_multiple_of (length (ad_vectors req)) (unat (ad_dim req))"
    "check_operation st req rows = Inr ()"
  using assms stage_frames_index
  by (auto simp: stage_add_def Let_def check_operation_def split: list.splits if_splits)

lemma add_chunk_Inr:
  "add_chunk eng ix req = Inr (n, ix') \<Longrightarrow> n = as_u64 (length (ad_vectors req) div unat (ad_dim req))"
  by (auto simp: add_chunk_def Let_def split: if_splits index.splits sum.splits)

lemma safe_apply_ingest:
  assumes "registry_ok eng st" and "store_get (ad_index_id req) st = Some ix"
    and "store_labels (ad_index_id req) st = None"
  shows "safe eng (apply_ingest env cod eng u v req rows ix cur st w)"
proof -
  have "registry_ok eng (set_index (ad_index_id req) ix' st)" for ix'
    using assms by (intro registry_ok_set_index) (auto simp: labels_cover_def split: index.splits)
  then show ?thesis
    using assms(1)
    by (auto simp: apply_ingest_def Let_def split: sum.splits
        intro!: safe_intros safe_persist registry_ok_set_ingest)
qed

lemma safe_node_add:
  assumes "registry_ok eng st"
  shows "safe eng (node_add limits env cod eng u v stream st w)"
  using assms stage_add_Inr(1,2) [of limits st stream]
  by (auto simp: node_add_def replay_ingest_def Let_def split: sum.splits ingest_decision.splits
      intro!: safe_intros safe_persist safe_apply_ingest)

lemma registry_node_add_dropped:
  assumes "registry_ok eng st"
  shows "registry_ok eng (node_add_dropped limits eng stream st)"
proof -
  have "registry_ok eng (set_index (ad_index_id req) ix' st)"
    if "stage_add limits st stream = Inr (req, rows, ix)" for req rows ix ix'
    using assms stage_add_Inr(1,2) [OF that]
    by (intro registry_ok_set_index) (auto simp: labels_cover_def split: index.splits)
  with assms show ?thesis
    by (auto simp: node_add_dropped_def split: sum.splits)
qed

lemma safe_search:
  assumes "engine_laws eng" and "registry_ok eng st"
  shows "safe eng (node_search limits eng req st w)"
proof -
  have "search_index limits eng ix (store_labels (se_index_id req) st) qs k allow \<noteq> Inl Panic"
    if "store_get (se_index_id req) st = Some ix" for ix qs k allow
    using search_index_cases [OF _ engine_index_len [OF assms(1)] registry_okD(2) [OF assms(2) that], where limits = limits
      and queries = qs and k = k and allowlist = allow]
      assms(1) by (auto simp: engine_laws_def)
  then have "answer_of (rbind (checked (node_handle st (se_index_id req))) (\<lambda>ix.
         rbind (checked (validate_k limits (unat (se_k req)))) (\<lambda>_.
         rbind (checked (validate_vector_frame limits (length (se_queries req)))) (\<lambda>_.
         search_index limits eng ix (store_labels (se_index_id req) st) (se_queries req) (unat (se_k req))
           (se_allowlist req))))) \<noteq> Panicked"
    by (auto simp: rbind_def checked_def split: sum.splits failure.splits elim!: answer_of.elims)
  with assms(2) show ?thesis
    by (simp add: node_search_def safe_def)
qed

lemma recalibrated_Inr:
  assumes "recalibrated eng req ix = Inr q'"
  shows "\<exists>q dim. ix = Positional q \<and> q_len eng q = 0 \<and> q_dim_opt eng q = Some dim \<and>
    length (sc_shift req) = dim \<and> length (sc_scale req) = dim \<and>
    q_from_parts eng (Some dim) (q_bit_width eng q) 0 [] [] (sc_shift req) (sc_scale req) = Inr q'"
  using assms
  by (auto simp: recalibrated_def positional_def split: index.splits option.splits sum.splits if_splits)

lemma safe_set_calibration:
  assumes "engine_laws eng" and "registry_ok eng st"
  shows "safe eng (set_calibration eng req st w)"
proof -
  have "registry_ok eng (set_index (sc_index_id req) (Positional q') st)"
    if ix: "store_get (sc_index_id req) st = Some ix" and "recalibrated eng req ix = Inr q'" for ix q'
  proof -
    from recalibrated_Inr [OF that(2)] obtain q dim where
      "ix = Positional q" "q_len eng q = 0"
      "q_from_parts eng (Some dim) (q_bit_width eng q) 0 [] [] (sc_shift req) (sc_scale req) = Inr q'"
      by blast
    moreover from this have "q_len eng q' = 0"
      using assms(1) by (auto simp: engine_laws_def dest: raw_parts(3))
    ultimately show ?thesis
      using assms(2) ix registry_okD(2) [OF assms(2) ix]
      by (intro registry_ok_set_index) (auto simp: labels_cover_def split: option.splits)
  qed
  with assms(2) show ?thesis
    by (auto simp: set_calibration_def safe_def split: sum.splits)
qed

lemma safe_remove: "registry_ok eng st \<Longrightarrow> safe eng (remove_row eng sid row st w)"
  by (auto simp: remove_row_def labels_cover_def split: sum.splits index.splits prod.splits
      intro!: safe_intros registry_ok_set_index)

lemma safe_create:
  "registry_ok eng st \<Longrightarrow> fresh_name uuid st \<Longrightarrow> safe eng (create_index eng uuid req st w)"
  by (auto simp: create_index_def split: sum.splits intro!: safe_intros safe_register)

lemma import_stream_labels:
  assumes "raw_parts_law eng" and "import_stream eng fs = Inr (q, labels)"
  shows "length labels = q_len eng q"
proof -
  obtain expected frms where fs: "fs = Inr (Some (ImportStart expected)) # frms"
      "\<exists>ib. push_frames (builder_new (unat expected)) frms = Inr ib"
    using assms(2)
    by (cases fs) (auto simp: import_stream_def elim!: rbind_InrE split: option.splits import_payload.splits)
  then obtain bs where bs: "frms = map block_frame bs"
    using push_frames_only_blocks by blast
  note I = assms(2) [unfolded fs(1) bs import_stream_Inr]
  have "list_all block_consistent bs \<Longrightarrow> length (concat (map block_labels bs)) = total_block_rows bs" for bs
    by (induction bs) (auto simp: block_consistent_def)
  with I have "length labels = unat expected"
    by auto
  then show ?thesis
    using I raw_parts(3) [OF assms(1)] by auto
qed

lemma safe_import:
  assumes "engine_laws eng" and "registry_ok eng st" and "fresh_name uuid st"
  shows "safe eng (import_rows eng uuid stream st w)"
proof -
  have "length labels = q_len eng q" if "import_stream eng stream = Inr (q, labels)" for q labels
    using import_stream_labels [OF _ that] assms(1) by (simp add: engine_laws_def)
  with assms(2,3) show ?thesis
    by (auto simp: import_rows_def index_len_def split: sum.splits intro!: safe_intros safe_register)
qed

lemma export_loop_no_panic:
  assumes "well_shaped eng q" and "q_dim_opt eng q = Some dim" and "labels_fit eng q labels"
    and "a + n \<le> q_len eng q"
  shows "snd (export_loop eng q labels frame a n k) = None"
  using assms
proof (induction eng q labels frame a n k rule: export_loop.induct)
  case (1 eng q labels frame a n k)
  show ?case
  proof (cases "k < n")
    case True
    let ?c = "min (max frame 1) (n - k)"
    have "export_block eng q labels (as_u64 (a + k)) (as_u64 ?c) = Inr (block_of eng q dim labels (a + k) ?c)"
      using 1(2-) True by (intro export_block_ok) auto
    moreover have "snd (export_loop eng q labels frame a n (k + ?c)) = None"
      using 1(1) [OF True refl calculation] 1(2-) by simp
    ultimately show ?thesis
      using True by (subst export_loop.simps) (simp add: Let_def case_prod_beta del: of_nat_add)
  next
    case False
    then show ?thesis
      by (subst export_loop.simps) simp
  qed
qed

lemma export_block_empty:
  assumes "well_shaped eng q" and "q_dim_opt eng q = Some dim" and "labels_fit eng q labels"
  shows "export_block eng q labels (as_u64 (q_len eng q)) 0 = Inr (block_of eng q dim labels (q_len eng q) 0)"
  using export_block_ok [OF assms, of "q_len eng q" 0] by simp

lemma export_rows_no_panic:
  assumes "engine_laws eng" and "labels_cover eng ix labels"
  shows "snd (export_rows eng ix labels start cnt) \<noteq> Some Panic"
proof (cases ix)
  case (Positional q)
  have shape: "well_shaped eng q" and fit: "labels_fit eng q labels"
    using assms Positional by (auto simp: engine_laws_def labels_fit_def labels_cover_def split: option.splits)
  show ?thesis
  proof (cases "export_range eng q start cnt")
    case (Inr r)
    obtain a n where r: "r = (a, n)" by (cases r)
    note R = export_range_Inr [OF Inr [unfolded r]]
    show ?thesis
    proof (cases "q_dim_opt eng q")
      case (Some dim)
      have "a = q_len eng q" if "n = 0"
        using R that by (auto simp: unat_eq_0 split: if_splits)
      moreover have "as_u64 a = start"
        using R by simp
      ultimately have empty: "export_block eng q labels start 0 = Inr (block_of eng q dim labels a 0)" if "n = 0"
        using export_block_empty [OF shape Some fit] that by (simp only:)
      have "as_u64 (unat start) = start"
        by simp
      with R empty show ?thesis
        using export_loop_no_panic [OF shape Some fit, of a n "rows_per_frame eng q dim" 0] Inr r Some
        by (cases "n = 0") (simp_all add: export_rows_def Positional)
    qed (simp add: export_rows_def Positional Inr r)
  qed (simp add: export_rows_def Positional)
qed (simp add: export_rows_def)

text \<open>The fresh names of a call.\<close>

fun names_fresh :: "node_call \<Rightarrow> ('q, 'm) index_store \<Rightarrow> bool" where
  "names_fresh (CreateIndex uuid req) st = fresh_name uuid st"
| "names_fresh (ImportRows uuid stream) st = fresh_name uuid st"
| "names_fresh _ st = True"

lemma node_step_safe:
  assumes "engine_laws eng" and "registry_ok eng st" and "names_fresh call st"
  shows "safe eng (node_step limits env cod eng call st w)"
  using assms
proof (cases call)
  case (DropIndex uuid sid)
  have "safe eng (drop_index env uuid sid st w)"
    unfolding drop_index_def
    by (rule safe_on_store [OF assms(2)]) (auto dest!: store_delete_registry intro: registry_ok_forget assms(2))
  then show ?thesis
    by (simp add: DropIndex safe_replying)
next
  case (FlushIndex u v sid)
  have "safe eng (flush_index env cod eng u v sid st w)"
    using assms(2) by (auto simp: flush_index_def split: sum.splits intro!: safe_intros safe_persist)
  then show ?thesis
    by (simp add: FlushIndex safe_replying)
next
  case (DroppedAdd stream)
  then show ?thesis
    using registry_node_add_dropped [OF assms(2)] by (simp add: safe_def)
qed (auto simp: get_index_info_def list_indexes_def get_calibration_def export_call_def split: sum.splits
    intro!: safe_replying safe_intros safe_create safe_node_add safe_remove safe_search safe_set_calibration safe_import)

text \<open>The fresh names of a history, as it runs.\<close>

fun history_fresh ::
    "service_limits \<Rightarrow> ('q, 'm) codec \<Rightarrow> ('q, 'm) engine \<Rightarrow> (shard_env \<times> node_call) list
     \<Rightarrow> ('q, 'm) index_store \<Rightarrow> world \<Rightarrow> bool" where
  "history_fresh limits cod eng [] st w = True"
| "history_fresh limits cod eng ((env, call) # calls) st w =
     (names_fresh call st \<and>
      (case node_step limits env cod eng call st w of
         (Died, _) \<Rightarrow> True
       | (_, st', w') \<Rightarrow> history_fresh limits cod eng calls st' w'))"

lemma node_step_exported:
  assumes "engine_laws eng" and "registry_ok eng st"
    and "fst (node_step limits env cod eng call st w) = Reply (Exported blocks e)"
  shows "e \<noteq> Some Panic"
proof -
  show ?thesis
  proof (cases call)
    case (ExportRows sid start cnt)
    obtain ix where "store_get sid st = Some ix"
      using assms(3) by (cases "store_get sid st") (auto simp: ExportRows export_call_def node_handle_def)
    then have "export_rows eng ix (store_labels sid st) start cnt = (blocks, e)" "store_get sid st = Some ix"
      using assms(3) by (auto simp: ExportRows export_call_def node_handle_def split: prod.splits)
    then show ?thesis
      using export_rows_no_panic [OF assms(1) registry_okD(2) [OF assms(2)], of sid ix start cnt] by simp
  qed (use assms(3) in \<open>simp_all split: prod.splits\<close>)
qed

text \<open>What a history's replies are: no panic, and no export cut short by one.\<close>

definition answer_ok :: "node_reply answer \<Rightarrow> bool" where
  "answer_ok a \<longleftrightarrow> a \<noteq> Panicked \<and> (\<forall>blocks. a \<noteq> Reply (Exported blocks (Some Panic)))"

lemma node_run_safe:
  assumes "engine_laws eng" and "registry_ok eng st" and "history_fresh limits cod eng calls st w"
    and "node_run limits cod eng calls st w = (replies, st', w')"
  shows "registry_ok eng st' \<and> list_all answer_ok replies"
  using assms(2-)
proof (induction calls arbitrary: st w replies)
  case Nil
  then show ?case by simp
next
  case (Cons c calls)
  obtain env call where c: "c = (env, call)" by (cases c)
  obtain a st1 w1 where step: "node_step limits env cod eng call st w = (a, st1, w1)"
    by (cases "node_step limits env cod eng call st w") auto
  have ok: "registry_ok eng st1" "answer_ok a"
    using node_step_safe [OF assms(1) Cons.prems(1), of call limits env cod w] Cons.prems(2)
      node_step_exported [OF assms(1) Cons.prems(1), of limits env cod call w] step
    by (auto simp: c safe_def answer_ok_def)
  show ?case
  proof (cases "a = Died")
    case True
    then show ?thesis
      using Cons.prems(3) ok step by (auto simp: c)
  next
    case False
    then have fresh: "history_fresh limits cod eng calls st1 w1"
      using Cons.prems(2) step by (cases a) (simp_all add: c)
    obtain as where run: "node_run limits cod eng calls st1 w1 = (as, st', w')" and "replies = a # as"
      using Cons.prems(3) step False by (cases a) (auto simp: c split: prod.splits)
    then show ?thesis
      using Cons.IH [OF ok(1) fresh run] ok(2) by simp
  qed
qed

text \<open>
  C24. No request brings the node down: from any data root that opens, over every history of calls with
  every fault of the file system in between, the registry stays well formed (a generation for every
  index, a label for every row of a labelled positional index, nothing kept for an index that is not
  open) and no handler panics; every \<open>expect\<close> and index of the handlers, and every precondition of
  the engine's searches, holds.
\<close>

theorem node_history_safe:
  assumes "engine_laws eng" and "store_open env0 cod eng root w0 = (Done st, w)"
    and "history_fresh limits cod eng calls st w"
    and "node_run limits cod eng calls st w = (replies, st', w')"
  shows "registry_ok eng st' \<and> list_all answer_ok replies"
  using node_run_safe [OF assms(1) store_open_keeps(1) [OF assms(2)] assms(3,4)] .

section \<open>What a search answers\<close>

text \<open>
  C25. A search on a well-formed registry changes nothing, and either refuses by code or answers with one
  result per query, within the limits, each at most k rows of the index with a score per row: rows the
  allowlist admits, and with the labels of exactly those rows when the index is labelled. An allowlist
  that names a row the index does not hold is never answered.
\<close>

theorem node_search_answers:
  assumes "engine_laws eng" and "registry_ok eng st" and "node_search limits eng req st w = (a, st', w')"
  shows "st' = st \<and> w' = w \<and>
    (case a of
       Reply rs \<Rightarrow> (\<exists>ix dim. store_get (se_index_id req) st = Some ix \<and> index_dim_opt eng ix = Some dim \<and>
         well_formed_queries eng (se_queries req) dim \<and>
         0 < unat (se_k req) \<and> unat (se_k req) \<le> max_k limits \<and>
         length (se_queries req) \<le> max_vector_coordinates_per_frame limits \<and>
         length rs = length (se_queries req) div dim \<and> length rs \<le> max_queries_per_request limits \<and>
         list_all (known_id eng ix) (se_allowlist req) \<and>
         list_all (result_ok eng ix (store_labels (se_index_id req) st) (unat (se_k req)) (se_allowlist req)) rs)
     | Refused e \<Rightarrow> st_code e \<in> {NotFound, InvalidArgument, ResourceExhausted, FailedPrecondition}
     | _ \<Rightarrow> False)"
proof (cases "store_get (se_index_id req) st")
  case None
  then show ?thesis
    using assms(3) by (auto simp: node_search_def node_handle_def)
next
  case (Some ix)
  let ?labels = "store_labels (se_index_id req) st"
  let ?r = "search_index limits eng ix ?labels (se_queries req) (unat (se_k req)) (se_allowlist req)"
  have "search_laws eng"
    using assms(1) by (simp add: engine_laws_def)
  note S = search_index_cases [OF this engine_index_len [OF assms(1)] registry_okD(2) [OF assms(2) Some],
      where limits = limits and queries = "se_queries req" and k = "unat (se_k req)" and allowlist = "se_allowlist req"]
  show ?thesis
  proof (cases "validate_k limits (unat (se_k req)) = Inr () \<and>
      validate_vector_frame limits (length (se_queries req)) = Inr ()")
    case False
    with Some assms(3) show ?thesis
      by (auto simp: node_search_def node_handle_def validate_k_def validate_vector_frame_def split: if_splits)
  next
    case True
    then have "a = answer_of ?r" "st' = st" "w' = w"
      using Some assms(3) by (auto simp: node_search_def node_handle_def)
    moreover have "0 < unat (se_k req) \<and> unat (se_k req) \<le> max_k limits"
        "length (se_queries req) \<le> max_vector_coordinates_per_frame limits"
      using True by (auto simp: validate_k_def validate_vector_frame_def split: if_splits)
    ultimately show ?thesis
      using S Some by (cases ?r rule: answer_of.cases) auto
  qed
qed

end
