(* ===== verification/Fleet.thy ===== *)
theory Fleet
  imports Topology Node_Properties
begin

text \<open>
  The nodes behind the coordinator's calls, and the row moves it drives over them: \<^verbatim>\<open>import_ranges\<close>,
  \<^verbatim>\<open>stage_split\<close>, \<^verbatim>\<open>flush_before_durable_rebind\<close> and \<^verbatim>\<open>configs_for_topology\<close> of
  \<^verbatim>\<open>src/src/coordinator/mod.rs\<close>. A call runs the node's own handler from \<open>Node_Service\<close>; the network
  may lose the request or the reply, and a node may die. The lemmas follow the rows: what an export
  carries, what an import builds from it, and that the indexes a fleet serves stay.
\<close>

section \<open>Calling a node\<close>

record ('q, 'm) fleet =
  fl_nodes :: "string \<Rightarrow> (('q, 'm) index_store \<times> world) option"
  fl_calls :: nat

datatype lost = RequestLost status | ReplyLost status

text \<open>Faults, fresh names and the nodes' file systems, by the number of the call.\<close>

record network =
  net_dial :: "string \<Rightarrow> status + unit"
  net_fault :: "nat \<Rightarrow> lost option"
  net_down :: status
  net_uuid :: "nat \<Rightarrow> string"
  net_uuid2 :: "nat \<Rightarrow> string"
  net_fs :: "nat \<Rightarrow> shard_env"

text \<open>What the caller sees of a handler's answer; a panic or a death is a broken connection.\<close>

definition reply_of :: "network \<Rightarrow> 'a answer \<Rightarrow> status + 'a" where
  "reply_of net ans = (case ans of Reply r \<Rightarrow> Inr r | Refused e \<Rightarrow> Inl e | _ \<Rightarrow> Inl (net_down net))"

definition survives :: "'a answer \<Rightarrow> bool" where
  "survives ans \<longleftrightarrow> (case ans of Died \<Rightarrow> False | _ \<Rightarrow> True)"

definition invoke ::
    "network \<Rightarrow> string \<Rightarrow> (('q, 'm) index_store \<Rightarrow> world \<Rightarrow> ('q, 'm, 'a) handled) \<Rightarrow> ('q, 'm) fleet
     \<Rightarrow> (status + 'a) \<times> ('q, 'm) fleet" where
  "invoke net a handler fl =
     (let n = fl_calls fl; fl1 = fl\<lparr>fl_calls := Suc n\<rparr> in
      case (net_fault net n, fl_nodes fl a) of
        (Some (RequestLost e), _) \<Rightarrow> (Inl e, fl1)
      | (_, None) \<Rightarrow> (Inl (net_down net), fl1)
      | (fault, Some (st, w)) \<Rightarrow>
          (case handler st w of
             (ans, st', w') \<Rightarrow>
               (case fault of None \<Rightarrow> reply_of net ans | Some (RequestLost e) \<Rightarrow> Inl e | Some (ReplyLost e) \<Rightarrow> Inl e,
                fl1\<lparr>fl_nodes := (fl_nodes fl)(a := if survives ans then Some (st', w') else None)\<rparr>)))"

text \<open>Dial, call, and name the node in an error of the call.\<close>

definition call_node ::
    "network \<Rightarrow> string \<Rightarrow> (('q, 'm) index_store \<Rightarrow> world \<Rightarrow> ('q, 'm, 'a) handled) \<Rightarrow> ('q, 'm) fleet
     \<Rightarrow> (status + 'a) \<times> ('q, 'm) fleet" where
  "call_node net a handler fl =
     (case net_dial net a of
        Inl e \<Rightarrow> (Inl e, fl)
      | Inr _ \<Rightarrow> apfst (at_node a) (invoke net a handler fl))"

text \<open>The read calls of a probe, against the nodes as they are.\<close>

definition rpc_of :: "('q, 'm) engine \<Rightarrow> network \<Rightarrow> ('q, 'm) fleet \<Rightarrow> node_rpc" where
  "rpc_of eng net fl =
     \<lparr>rpc_connect = net_dial net,
      rpc_list_indexes = (\<lambda>a. fst (invoke net a (list_indexes eng) fl)),
      rpc_get_index_info = (\<lambda>a sid. fst (invoke net a (get_index_info eng sid) fl)),
      rpc_get_calibration = (\<lambda>a sid. fst (invoke net a (get_calibration eng sid) fl))\<rparr>"

section \<open>Moving rows\<close>

record export_plan =
  ep_source :: probe
  ep_start :: u64
  ep_count :: u64

text \<open>
  The producer: the blocks it sends, and its error. An export that panics ends its stream cleanly.
\<close>

definition export_plan_blocks ::
    "('q, 'm) engine \<Rightarrow> network \<Rightarrow> export_plan \<Rightarrow> ('q, 'm) fleet
     \<Rightarrow> (row_block list \<times> status option) \<times> ('q, 'm) fleet" where
  "export_plan_blocks eng net plan fl =
     (if ep_count plan = 0 then (([empty_block (ep_source plan)], None), fl)
      else
        (let a = probe_address (ep_source plan) in
         case invoke net a (export_call eng (probe_index_id (ep_source plan)) (ep_start plan) (ep_count plan)) fl of
           (Inl e, fl') \<Rightarrow> (([], Some (node_error a e)), fl')
         | (Inr (blocks, ending), fl') \<Rightarrow>
             ((blocks, case ending of Some (Failed e) \<Rightarrow> Some (node_error a e) | _ \<Rightarrow> None), fl')))"

fun produce ::
    "('q, 'm) engine \<Rightarrow> network \<Rightarrow> export_plan list \<Rightarrow> ('q, 'm) fleet
     \<Rightarrow> (row_block list \<times> status option) \<times> ('q, 'm) fleet" where
  "produce eng net [] fl = (([], None), fl)"
| "produce eng net (plan # plans) fl =
     (case export_plan_blocks eng net plan fl of
        ((blocks, Some e), fl') \<Rightarrow> ((blocks, Some e), fl')
      | ((blocks, None), fl') \<Rightarrow>
          (case produce eng net plans fl' of
             ((more_blocks, e), fl'') \<Rightarrow> ((blocks @ more_blocks, e), fl'')))"

fun dial_all :: "network \<Rightarrow> string list \<Rightarrow> status + unit" where
  "dial_all net [] = Inr ()"
| "dial_all net (a # as) = rbind (net_dial net a) (\<lambda>_. dial_all net as)"

text \<open>The target's own error takes precedence over the producer's.\<close>

definition import_ranges ::
    "('q, 'm) engine \<Rightarrow> network \<Rightarrow> string \<Rightarrow> u64 \<Rightarrow> export_plan list \<Rightarrow> ('q, 'm) fleet
     \<Rightarrow> (status + string) \<times> ('q, 'm) fleet" where
  "import_ranges eng net target expected plans fl =
     (case dial_all net (map (probe_address \<circ> ep_source) plans) of
        Inl e \<Rightarrow> (Inl e, fl)
      | Inr _ \<Rightarrow>
          (case produce eng net plans fl of
             ((blocks, produced), fl1) \<Rightarrow>
               (case net_dial net target of
                  Inl e \<Rightarrow> (Inl e, fl1)
                | Inr _ \<Rightarrow>
                    (case invoke net target
                            (import_rows eng (net_uuid net (fl_calls fl1))
                              (Inr (Some (ImportStart expected)) # map block_frame blocks)) fl1 of
                       (Inl e, fl2) \<Rightarrow> (Inl (node_error target e), fl2)
                     | (Inr (sid, info), fl2) \<Rightarrow>
                         (case produced of Some e \<Rightarrow> (Inl e, fl2) | None \<Rightarrow> (Inr sid, fl2))))))"

section \<open>Staging a split\<close>

text \<open>One target at a time, the rows in order.\<close>

fun stage_targets ::
    "('q, 'm) engine \<Rightarrow> network \<Rightarrow> probe \<Rightarrow> (string \<times> u64) list \<Rightarrow> u64 \<Rightarrow> ('q, 'm) fleet
     \<Rightarrow> (status + shard_ref list) \<times> ('q, 'm) fleet" where
  "stage_targets eng net source [] start fl = (Inr [], fl)"
| "stage_targets eng net source ((target, cnt) # targets) start fl =
     (case import_ranges eng net target cnt [\<lparr>ep_source = source, ep_start = start, ep_count = cnt\<rparr>] fl of
        (Inl e, fl1) \<Rightarrow> (Inl e, fl1)
      | (Inr sid, fl1) \<Rightarrow>
          (case stage_targets eng net source targets (start + cnt) fl1 of
             (Inl e, fl2) \<Rightarrow> (Inl e, fl2)
           | (Inr shards, fl2) \<Rightarrow> (Inr (mk_shard_ref target sid # shards), fl2)))"

definition probed :: "('q, 'm) fleet \<Rightarrow> ('q, 'm) fleet" where
  "probed fl = fl\<lparr>fl_calls := Suc (fl_calls fl)\<rparr>"

definition stage_split ::
    "('q, 'm) engine \<Rightarrow> network \<Rightarrow> shard_config \<Rightarrow> string list \<Rightarrow> u64 list \<Rightarrow> ('q, 'm) fleet
     \<Rightarrow> (status + (probe \<times> shard_ref list \<times> u64 list)) \<times> ('q, 'm) fleet" where
  "stage_split eng net source targets row_counts fl =
     (case rbind (resolve (rpc_of eng net fl) source) (\<lambda>p.
             rbind (require_positional p ''Split'') (\<lambda>_.
             rbind (plan_counts (info_len (probe_info p)) (length targets) row_counts) (\<lambda>counts.
               Inr (p, counts)))) of
        Inl e \<Rightarrow> (Inl e, probed fl)
      | Inr (p, counts) \<Rightarrow>
          (case stage_targets eng net p (zip targets counts) 0 (probed fl) of
             (Inl e, fl') \<Rightarrow> (Inl e, fl')
           | (Inr shards, fl') \<Rightarrow> (Inr (p, shards, counts), fl')))"

section \<open>Before a topology is published\<close>

fun flush_shards ::
    "('q, 'm) codec \<Rightarrow> ('q, 'm) engine \<Rightarrow> network \<Rightarrow> shard_ref list \<Rightarrow> ('q, 'm) fleet
     \<Rightarrow> (status + unit) \<times> ('q, 'm) fleet" where
  "flush_shards cod eng net [] fl = (Inr (), fl)"
| "flush_shards cod eng net (s # shards) fl =
     (let n = fl_calls fl in
      case call_node net (ref_address s)
             (flush_index (net_fs net n) cod eng (net_uuid net n) (net_uuid2 net n) (ref_index_id s)) fl of
        (Inl e, fl') \<Rightarrow> (Inl e, fl')
      | (Inr _, fl') \<Rightarrow> flush_shards cod eng net shards fl')"

definition flush_before_durable_rebind ::
    "('q, 'm) codec \<Rightarrow> ('q, 'm) engine \<Rightarrow> network \<Rightarrow> coordinator \<Rightarrow> shard_ref list \<Rightarrow> ('q, 'm) fleet
     \<Rightarrow> (status + unit) \<times> ('q, 'm) fleet" where
  "flush_before_durable_rebind cod eng net co shards fl =
     (if co_path co = None then (Inr (), fl) else flush_shards cod eng net shards fl)"

definition config_for :: "shard_config list \<Rightarrow> shard_ref \<Rightarrow> index_info \<Rightarrow> shard_config" where
  "config_for previous s info =
     (let c = with_index_generation (ref_address s) (ref_index_id s)
                (if 0 < info_generation info then Some (info_generation info) else None)
      in case find (\<lambda>old. cfg_address old = cfg_address c) previous of
           None \<Rightarrow> c
         | Some old \<Rightarrow> c\<lparr>cfg_replicas := cfg_replicas old\<rparr>)"

fun configs_for_topology ::
    "('q, 'm) engine \<Rightarrow> network \<Rightarrow> shard_config list \<Rightarrow> shard_ref list \<Rightarrow> ('q, 'm) fleet
     \<Rightarrow> (status + shard_config list) \<times> ('q, 'm) fleet" where
  "configs_for_topology eng net previous [] fl = (Inr [], fl)"
| "configs_for_topology eng net previous (s # shards) fl =
     (case call_node net (ref_address s) (get_index_info eng (ref_index_id s)) fl of
        (Inl e, fl') \<Rightarrow> (Inl e, fl')
      | (Inr info, fl') \<Rightarrow>
          (case configs_for_topology eng net previous shards fl' of
             (Inl e, fl'') \<Rightarrow> (Inl e, fl'')
           | (Inr configs, fl'') \<Rightarrow> (Inr (config_for previous s info # configs), fl'')))"

section \<open>What a call that succeeds has done\<close>

text \<open>The index a node serves under a handle, with its label table.\<close>

definition index_at ::
    "('q, 'm) fleet \<Rightarrow> string \<Rightarrow> string \<Rightarrow> (('q, 'm) index \<times> u64 list option) option" where
  "index_at fl a sid =
     (case fl_nodes fl a of
        None \<Rightarrow> None
      | Some (st, w) \<Rightarrow> map_option (\<lambda>ix. (ix, store_labels sid st)) (store_get sid st))"

definition extends :: "('q, 'm) fleet \<Rightarrow> ('q, 'm) fleet \<Rightarrow> bool" where
  "extends fl fl' \<longleftrightarrow> (\<forall>a sid x. index_at fl a sid = Some x \<longrightarrow> index_at fl' a sid = Some x)"

lemma extends_same [simp]: "extends fl fl"
  by (simp add: extends_def)

lemma extends_trans: "extends a b \<Longrightarrow> extends b c \<Longrightarrow> extends a c"
  by (simp add: extends_def)

lemma extendsD: "extends fl fl' \<Longrightarrow> index_at fl a sid = Some x \<Longrightarrow> index_at fl' a sid = Some x"
  unfolding extends_def by blast

lemma extends_None: "extends fl fl' \<Longrightarrow> index_at fl' a sid = None \<Longrightarrow> index_at fl a sid = None"
  by (cases "index_at fl a sid") (auto dest: extendsD)

lemma index_at_probed [simp]: "index_at (probed fl) a sid = index_at fl a sid"
  by (simp add: index_at_def probed_def)

lemma extends_probed [simp]: "extends (probed fl) fl' = extends fl fl'" "extends fl (probed fl') = extends fl fl'"
  by (simp_all add: extends_def)

lemma invoke_InrE:
  assumes "invoke net a handler fl = (Inr r, fl')"
  obtains st w st' w' where "fl_nodes fl a = Some (st, w)" and "handler st w = (Reply r, st', w')"
    and "fl_nodes fl' = (fl_nodes fl)(a := Some (st', w'))"
proof -
  obtain st w where node: "fl_nodes fl a = Some (st, w)"
    using assms by (auto simp: invoke_def Let_def split: option.splits lost.splits)
  obtain ans st' w' where h: "handler st w = (ans, st', w')" by (cases "handler st w")
  have "ans = Reply r \<and> fl_nodes fl' = (fl_nodes fl)(a := Some (st', w'))"
    using assms by (auto simp: invoke_def Let_def node h reply_of_def survives_def
        split: option.splits lost.splits answer.splits if_splits)
  with node h that show thesis by blast
qed

lemma at_node_Inr: "at_node a r = Inr x \<longleftrightarrow> r = Inr x"
  by (cases r) (simp_all add: at_node_def)

lemma call_node_Inr: "call_node net a handler fl = (Inr r, fl') \<longleftrightarrow> net_dial net a = Inr () \<and> invoke net a handler fl = (Inr r, fl')"
  by (cases "net_dial net a"; cases "invoke net a handler fl") (auto simp: call_node_def at_node_def split: sum.splits)

text \<open>
  What the coordinator relies on when it calls a node: a handler that answers keeps every index it did
  not create. A handler that only reads also leaves the node as it is.
\<close>

locale keeping_handler =
  fixes handler :: "('q, 'm) index_store \<Rightarrow> world \<Rightarrow> ('q, 'm, 'a) handled"
  assumes keeps: "handler st w = (Reply r, st', w') \<Longrightarrow> store_get sid st = Some ix \<Longrightarrow>
      store_get sid st' = Some ix \<and> store_labels sid st' = store_labels sid st"
begin

lemma invoke_extends:
  assumes "invoke net a handler fl = (Inr r, fl')"
  shows "extends fl fl'"
  using assms
proof (rule invoke_InrE)
  fix st w st' w'
  assume A: "fl_nodes fl a = Some (st, w)" "handler st w = (Reply r, st', w')"
    "fl_nodes fl' = (fl_nodes fl)(a := Some (st', w'))"
  then show "extends fl fl'"
    using keeps [OF A(2)] by (auto simp: extends_def index_at_def split: if_splits)
qed

lemma call_extends: "call_node net a handler fl = (Inr r, fl') \<Longrightarrow> extends fl fl'"
  unfolding call_node_Inr by (blast intro: invoke_extends)

end

locale reading_handler =
  fixes handler :: "('q, 'm) index_store \<Rightarrow> world \<Rightarrow> ('q, 'm, 'a) handled"
  assumes reads: "handler st w = (ans, st', w') \<Longrightarrow> st' = st \<and> w' = w"
begin

lemma call_quiet: "call_node net a handler fl = (Inr r, fl') \<Longrightarrow> fl_nodes fl' = fl_nodes fl"
  unfolding call_node_Inr by (auto elim!: invoke_InrE dest!: reads simp: fun_upd_idem)

end

sublocale reading_handler \<subseteq> keeping_handler
  by unfold_locales (auto dest: reads)

interpretation exporting: reading_handler "export_call eng sid start cnt" for eng sid start cnt
  by unfold_locales (auto simp: export_call_def split: sum.splits)

interpretation describing: reading_handler "get_index_info eng sid" for eng sid
  by unfold_locales (simp add: get_index_info_def)

interpretation calibrated: reading_handler "get_calibration eng sid" for eng sid
  by unfold_locales (simp add: get_calibration_def)

interpretation listing: reading_handler "list_indexes eng" for eng
  by unfold_locales (simp add: list_indexes_def)

interpretation flushing: keeping_handler "flush_index env cod eng u v sid" for env cod eng u v sid
  by unfold_locales
    (auto simp: flush_index_def on_store_def split: sum.splits prod.splits run.splits dest!: persist_registry)

lemma import_rows_Reply:
  assumes "import_rows eng uuid stream st w = (Reply (sid, info), st', w')"
  shows "\<exists>q labels. import_stream eng stream = Inr (q, labels) \<and> sid = uuid \<and> w' = w \<and>
    insert_with_id eng uuid (Positional q) (Some labels) 0 st = Inr st' \<and> info = node_info eng st' sid (Positional q)"
proof -
  obtain q labels where q: "import_stream eng stream = Inr (q, labels)"
      "register eng uuid (Positional q) (Some labels) st w = (Reply (sid, info), st', w')"
    using assms by (auto simp: import_rows_def split: sum.splits)
  have "insert_with_id eng uuid (Positional q) (Some labels) 0 st = Inr st' \<and> sid = uuid \<and> w' = w"
    using q(2) by (auto simp: register_def store_insert_def split: sum.splits failure.splits)
  moreover from this have "node_handle st' sid = Inr (Positional q)"
    using insert_with_id_Inr(4) by fastforce
  ultimately show ?thesis
    using q by (auto simp: register_def store_insert_def simp del: node_handle_Inr)
qed

interpretation importing: keeping_handler "import_rows eng uuid stream" for eng uuid stream
proof unfold_locales
  fix st w r st' w' s ix
  assume h: "import_rows eng uuid stream st w = (Reply r, st', w')" and s: "store_get s st = Some ix"
  obtain sid info where "r = (sid, info)" by (cases r)
  with h obtain q labels where I: "insert_with_id eng uuid (Positional q) (Some labels) 0 st = Inr st'"
    using import_rows_Reply by blast
  with s show "store_get s st' = Some ix \<and> store_labels s st' = store_labels s st"
    using insert_with_id_Inr(1) [OF I] by (auto simp: insert_with_id_Inr(4,6) [OF I])
qed

section \<open>Moved rows\<close>

definition geometry :: "('q, 'm) engine \<Rightarrow> 'q \<Rightarrow> nat option \<times> nat \<times> f32 list \<times> f32 list" where
  "geometry eng q = (q_dim_opt eng q, q_bit_width eng q, q_tqplus_shift eng q, q_tqplus_scale eng q)"

text \<open>A probe of a positional index with a bound dimension: what the node serves under that handle.\<close>

definition describes ::
    "('q, 'm) engine \<Rightarrow> ('q, 'm) fleet \<Rightarrow> probe \<Rightarrow> 'q \<Rightarrow> u64 list option \<Rightarrow> nat \<Rightarrow> bool" where
  "describes eng fl p q labels dim \<longleftrightarrow>
     index_at fl (probe_address p) (probe_index_id p) = Some (Positional q, labels) \<and>
     labels_fit eng q labels \<and> q_dim_opt eng q = Some dim \<and>
     info_dim (probe_info p) = as_u32 dim \<and> info_bit_width (probe_info p) = as_u32 (q_bit_width eng q) \<and>
     info_len (probe_info p) = as_u64 (q_len eng q) \<and>
     tqplus_shift (probe_calibration p) = q_tqplus_shift eng q \<and>
     tqplus_scale (probe_calibration p) = q_tqplus_scale eng q"

lemma describes_extends: "describes eng fl p q labels dim \<Longrightarrow> extends fl fl' \<Longrightarrow> describes eng fl' p q labels dim"
  by (auto simp: describes_def dest: extendsD)

definition fleet_ok :: "('q, 'm) engine \<Rightarrow> ('q, 'm) fleet \<Rightarrow> bool" where
  "fleet_ok eng fl \<longleftrightarrow> (\<forall>a st w. fl_nodes fl a = Some (st, w) \<longrightarrow> registry_ok eng st)"

lemma fleet_labels:
  assumes "fleet_ok eng fl" and "index_at fl a sid = Some (Positional q, labels)"
  shows "labels_fit eng q labels"
proof -
  obtain st w where "fl_nodes fl a = Some (st, w)" "store_get sid st = Some (Positional q)" "labels = store_labels sid st"
    using assms(2) by (auto simp: index_at_def split: option.splits)
  moreover from this have "registry_ok eng st"
    using assms(1) by (auto simp: fleet_ok_def)
  ultimately show ?thesis
    using registry_okD(2) [of eng st sid "Positional q"]
    by (auto simp: labels_cover_def labels_fit_def split: option.splits)
qed

lemma read_info:
  assumes "invoke net a (get_index_info eng sid) fl = (Inr info, fl')"
  shows "\<exists>ix labels g. index_at fl a sid = Some (ix, labels) \<and> info = index_info_of eng sid ix (labels \<noteq> None) g"
  using assms
proof (rule invoke_InrE)
  fix st w st' w'
  assume A: "fl_nodes fl a = Some (st, w)" "get_index_info eng sid st w = (Reply info, st', w')"
  then obtain ix where "store_get sid st = Some ix" "info = node_info eng st sid ix"
    by (cases "node_handle st sid") (auto simp: get_index_info_def)
  with A(1) show ?thesis
    by (auto simp: index_at_def node_info_def)
qed

lemma read_calibration:
  assumes "invoke net a (get_calibration eng sid) fl = (Inr c, fl')"
  shows "\<exists>ix labels. index_at fl a sid = Some (ix, labels) \<and> calibration_of_index eng ix = Inr c"
  using assms
proof (rule invoke_InrE)
  fix st w st' w'
  assume A: "fl_nodes fl a = Some (st, w)" "get_calibration eng sid st w = (Reply c, st', w')"
  then obtain ix where "store_get sid st = Some ix" "calibration_of_index eng ix = Inr c"
    by (cases "rbind (node_handle st sid) (calibration_of_index eng)") (auto simp: get_calibration_def)
  with A(1) show ?thesis
    by (auto simp: index_at_def)
qed

text \<open>What a successful probe of a positional index has seen.\<close>

lemma resolve_positional:
  assumes "resolve (rpc_of eng net fl) c = Inr p" and "require_positional p what = Inr ()"
  shows "\<exists>q labels. index_at fl (probe_address p) (probe_index_id p) = Some (Positional q, labels) \<and>
    (\<forall>dim. q_dim_opt eng q = Some dim \<and> fleet_ok eng fl \<longrightarrow> describes eng fl p q labels dim)"
proof -
  let ?a = "probe_address p" and ?s = "probe_index_id p"
  have "fst (invoke net ?a (get_index_info eng ?s) fl) = Inr (probe_info p)"
      "fst (invoke net ?a (get_calibration eng ?s) fl) = Inr (probe_calibration p)"
    using assms(1)
    by (auto simp: resolve_def probe_node_def rbind_Inr_iff rpc_of_def at_node_Inr)
  then obtain fl1 fl2 where "invoke net ?a (get_index_info eng ?s) fl = (Inr (probe_info p), fl1)"
      "invoke net ?a (get_calibration eng ?s) fl = (Inr (probe_calibration p), fl2)"
    by (metis prod.collapse)
  from read_info [OF this(1)] read_calibration [OF this(2)]
  obtain ix labels g where R: "index_at fl ?a ?s = Some (ix, labels)"
      "probe_info p = index_info_of eng ?s ix (labels \<noteq> None) g"
      "calibration_of_index eng ix = Inr (probe_calibration p)"
    by auto
  have "index_kind ix = INDEX_KIND_POSITIONAL"
    using assms(2) R(2) by (auto simp: require_positional_def index_info_of_def split: if_splits)
  then obtain q where "ix = Positional q"
    by (cases ix) (auto simp: index_kind_def INDEX_KIND_ID_MAP_def INDEX_KIND_POSITIONAL_def)
  moreover from this R(3) have "probe_calibration p = calibration_of eng q"
    by (simp add: calibration_of_index_def calibration_of_def index_calibration_state_def)
  ultimately show ?thesis
    using R(1,2) by (auto simp: describes_def index_info_of_def index_defs calibration_of_def fleet_labels)
qed

subsection \<open>One plan\<close>

definition block_as :: "('q, 'm) engine \<Rightarrow> 'q \<Rightarrow> nat \<Rightarrow> row_block \<Rightarrow> bool" where
  "block_as eng q dim b \<longleftrightarrow>
     block_dim b = as_u32 dim \<and> block_bit_width b = as_u32 (q_bit_width eng q) \<and>
     block_pair b = (q_tqplus_shift eng q, q_tqplus_scale eng q)"

text \<open>The rows from \<open>s\<close> on, \<open>n\<close> of them, as the blocks that carry them.\<close>

definition carries ::
    "('q, 'm) engine \<Rightarrow> 'q \<Rightarrow> u64 list option \<Rightarrow> nat \<Rightarrow> nat \<Rightarrow> nat \<Rightarrow> row_block list \<Rightarrow> bool" where
  "carries eng q labels dim s n bs \<longleftrightarrow>
     bs \<noteq> [] \<and> list_all (block_as eng q dim) bs \<and> (n = 0 \<or> s + n \<le> q_len eng q) \<and>
     concat (map block_packed_codes bs) =
       sub (s * bytes_per_row eng q dim) (n * bytes_per_row eng q dim) (q_packed_codes eng q) \<and>
     concat (map block_scales bs) = sub s n (q_scales eng q) \<and>
     concat (map block_labels bs) = sub s n (labels_of eng q labels)"

lemma export_rows_ends:
  assumes shape: "well_shaped eng q" and dim: "q_dim_opt eng q = Some dim" and fit: "labels_fit eng q labels"
    and ends: "export_rows eng (Positional q) labels start cnt = (bs, ending)" and "\<And>e. ending \<noteq> Some (Failed e)"
    and "cnt \<noteq> 0"
  shows "carries eng q labels dim (unat start) (unat cnt) bs"
proof (cases "export_range eng q start cnt")
  case (Inl e)
  then have "ending = Some (Failed e)"
    using ends by (auto simp: export_rows_def)
  with assms(5) show ?thesis by blast
next
  case (Inr r)
  then obtain a n where range: "export_range eng q start cnt = Inr (a, n)" by (cases r) auto
  have an: "a = unat start" "n = unat cnt" "a + n \<le> q_len eng q"
    using export_range_Inr [OF range] assms(6) by auto
  have bs: "bs = map (\<lambda>(a, n). block_of eng q dim labels a n)
      (if n = 0 then [(a, 0)] else frames (rows_per_frame eng q dim) a n)"
    using export_rows_frames [OF shape dim fit range] ends by simp
  have "list_all (block_as eng q dim) bs"
    by (auto simp: bs list_all_iff block_as_def block_of_def block_pair_def)
  then show ?thesis
    using export_blocks_content [OF shape dim an(3) fit bs] an by (simp add: carries_def)
qed

lemma export_plan_carries:
  assumes eng: "engine_laws eng" and src: "describes eng fl (ep_source plan) q labels dim"
    and step: "export_plan_blocks eng net plan fl = ((bs, None), fl')"
  shows "carries eng q labels dim (unat (ep_start plan)) (unat (ep_count plan)) bs \<and> extends fl fl'"
proof (cases "ep_count plan = 0")
  case True
  with step src show ?thesis
    by (auto simp: export_plan_blocks_def carries_def empty_block_def describes_def block_as_def block_pair_def)
next
  case False
  let ?a = "probe_address (ep_source plan)" and ?s = "probe_index_id (ep_source plan)"
  obtain ending where call: "invoke net ?a (export_call eng ?s (ep_start plan) (ep_count plan)) fl = (Inr (bs, ending), fl')"
      and ok: "\<And>e. ending \<noteq> Some (Failed e)"
    using step False by (auto simp: export_plan_blocks_def Let_def split: prod.splits sum.splits option.splits failure.splits)
  from call have "export_rows eng (Positional q) labels (ep_start plan) (ep_count plan) = (bs, ending)"
  proof (rule invoke_InrE)
    fix st w st' w'
    assume A: "fl_nodes fl ?a = Some (st, w)"
      "export_call eng ?s (ep_start plan) (ep_count plan) st w = (Reply (bs, ending), st', w')"
    then have "store_get ?s st = Some (Positional q)" "store_labels ?s st = labels"
      using src by (auto simp: describes_def index_at_def)
    with A(2) show ?thesis
      by (simp add: export_call_def node_handle_def)
  qed
  moreover have "well_shaped eng q"
    using eng by (simp add: engine_laws_def)
  ultimately show ?thesis
    using export_rows_ends [of eng q dim labels] src ok False exporting.invoke_extends [OF call]
    by (auto simp: describes_def)
qed

subsection \<open>One import\<close>

text \<open>The index a target holds afterwards: the rows of the plans, one after the other.\<close>

type_synonym 'q plan_source = "export_plan \<Rightarrow> 'q \<times> u64 list option \<times> nat"

definition sourced ::
    "('q, 'm) engine \<Rightarrow> ('q, 'm) fleet \<Rightarrow> 'q plan_source \<Rightarrow> export_plan list \<Rightarrow> bool" where
  "sourced eng fl src plans \<longleftrightarrow>
     list_all (\<lambda>plan. case src plan of (q, labels, dim) \<Rightarrow> describes eng fl (ep_source plan) q labels dim) plans"

definition plan_codes :: "('q, 'm) engine \<Rightarrow> 'q plan_source \<Rightarrow> export_plan \<Rightarrow> bytes" where
  "plan_codes eng src plan =
     (case src plan of (q, labels, dim) \<Rightarrow>
       sub (unat (ep_start plan) * bytes_per_row eng q dim) (unat (ep_count plan) * bytes_per_row eng q dim)
         (q_packed_codes eng q))"

definition plan_scales :: "('q, 'm) engine \<Rightarrow> 'q plan_source \<Rightarrow> export_plan \<Rightarrow> f32 list" where
  "plan_scales eng src plan =
     (case src plan of (q, labels, dim) \<Rightarrow> sub (unat (ep_start plan)) (unat (ep_count plan)) (q_scales eng q))"

definition plan_labels :: "('q, 'm) engine \<Rightarrow> 'q plan_source \<Rightarrow> export_plan \<Rightarrow> u64 list" where
  "plan_labels eng src plan =
     (case src plan of (q, labels, dim) \<Rightarrow> sub (unat (ep_start plan)) (unat (ep_count plan)) (labels_of eng q labels))"

lemma produce_carries:
  assumes eng: "engine_laws eng" and "sourced eng fl src plans" and "produce eng net plans fl = ((bs, None), fl')"
  shows "extends fl fl' \<and> (plans \<noteq> [] \<longrightarrow> bs \<noteq> []) \<and>
    list_all (\<lambda>b. list_ex (\<lambda>plan. block_as eng (fst (src plan)) (snd (snd (src plan))) b) plans) bs \<and>
    list_all (\<lambda>plan. unat (ep_count plan) = 0 \<or>
      unat (ep_start plan) + unat (ep_count plan) \<le> q_len eng (fst (src plan))) plans \<and>
    concat (map block_packed_codes bs) = concat (map (plan_codes eng src) plans) \<and>
    concat (map block_scales bs) = concat (map (plan_scales eng src) plans) \<and>
    concat (map block_labels bs) = concat (map (plan_labels eng src) plans)"
  using assms(2-)
proof (induction plans arbitrary: fl bs)
  case (Cons plan plans)
  obtain q labels dim where src: "src plan = (q, labels, dim)" by (cases "src plan")
  obtain bs1 fl1 bs2 where P: "export_plan_blocks eng net plan fl = ((bs1, None), fl1)"
      "produce eng net plans fl1 = ((bs2, None), fl')" "bs = bs1 @ bs2"
    using Cons.prems(2) by (auto split: prod.splits option.splits)
  have "describes eng fl (ep_source plan) q labels dim"
    using Cons.prems(1) src by (simp add: sourced_def)
  note C = export_plan_carries [OF eng this P(1)]
  have "sourced eng fl1 src plans"
    using Cons.prems(1) C describes_extends by (fastforce simp: sourced_def list_all_iff)
  note IH = Cons.IH [OF this P(2)]
  show ?case
    using C IH extends_trans [of fl fl1 fl']
    by (auto simp: P(3) src carries_def plan_codes_def plan_scales_def plan_labels_def list_all_iff)
qed (simp add: sourced_def)

definition holds_rows ::
    "('q, 'm) engine \<Rightarrow> ('q, 'm) fleet \<Rightarrow> shard_ref \<Rightarrow> nat option \<times> nat \<times> f32 list \<times> f32 list
     \<Rightarrow> bytes \<Rightarrow> f32 list \<Rightarrow> u64 list \<Rightarrow> bool" where
  "holds_rows eng fl s g codes scales labels \<longleftrightarrow>
     (\<exists>q. index_at fl (ref_address s) (ref_index_id s) = Some (Positional q, Some labels) \<and>
        geometry eng q = g \<and> q_packed_codes eng q = codes \<and> q_scales eng q = scales \<and> q_len eng q = length labels)"

lemma holds_rows_extends: "holds_rows eng fl s g cs ss ls \<Longrightarrow> extends fl fl' \<Longrightarrow> holds_rows eng fl' s g cs ss ls"
  by (auto simp: holds_rows_def dest: extendsD)

lemma import_ranges_moves:
  assumes eng: "engine_laws eng" and src: "sourced eng fl src plans" and "plans \<noteq> []"
    and import: "import_ranges eng net target expected plans fl = (Inr sid, fl')"
  shows "extends fl fl' \<and> index_at fl target sid = None \<and>
    length (concat (map (plan_labels eng src) plans)) = unat expected \<and>
    (\<exists>plan \<in> set plans. holds_rows eng fl' (mk_shard_ref target sid) (geometry eng (fst (src plan)))
       (concat (map (plan_codes eng src) plans)) (concat (map (plan_scales eng src) plans))
       (concat (map (plan_labels eng src) plans))) \<and>
    list_all (\<lambda>plan. unat (ep_count plan) = 0 \<or>
      unat (ep_start plan) + unat (ep_count plan) \<le> q_len eng (fst (src plan))) plans"
proof -
  obtain bs fl1 info where P: "produce eng net plans fl = ((bs, None), fl1)"
    "invoke net target (import_rows eng (net_uuid net (fl_calls fl1))
       (Inr (Some (ImportStart expected)) # map block_frame bs)) fl1 = (Inr (sid, info), fl')"
    using import by (auto simp: import_ranges_def split: sum.splits prod.splits option.splits)
  note C = produce_carries [OF eng src P(1)]
  note E = extends_trans [OF conjunct1 [OF C] importing.invoke_extends [OF P(2)]]
  from P(2) obtain q ls where I: "import_stream eng (Inr (Some (ImportStart expected)) # map block_frame bs) = Inr (q, ls)"
    "index_at fl' target sid = Some (Positional q, Some ls)" "index_at fl1 target sid = None"
  proof (rule invoke_InrE)
    fix st w st' w'
    assume A: "fl_nodes fl1 target = Some (st, w)" "fl_nodes fl' = (fl_nodes fl1)(target := Some (st', w'))"
      "import_rows eng (net_uuid net (fl_calls fl1)) (Inr (Some (ImportStart expected)) # map block_frame bs) st w
        = (Reply (sid, info), st', w')"
    from import_rows_Reply [OF A(3)] obtain q ls where
      "import_stream eng (Inr (Some (ImportStart expected)) # map block_frame bs) = Inr (q, ls)"
      "insert_with_id eng sid (Positional q) (Some ls) 0 st = Inr st'" by blast
    with A(1,2) that show thesis
      by (simp add: index_at_def insert_with_id_Inr(1,4,6))
  qed
  have fresh: "index_at fl target sid = None"
    using I(3) C by (blast intro: extends_None)
  obtain b rest where B: "bs = b # rest" "ls = concat (map block_labels bs)"
      "q_from_parts eng (Some (unat (block_dim b))) (unat (block_bit_width b)) (unat expected)
          (concat (map block_packed_codes bs)) (concat (map block_scales bs)) (block_shift b) (block_scale b) = Inr q"
    using I(1) unfolding import_stream_Inr by blast
  have law: "raw_parts_law eng" and shaped: "\<And>q. well_shaped eng q"
    using eng by (simp_all add: engine_laws_def)
  note parts = raw_parts [OF law B(3)]
  obtain plan where plan: "plan \<in> set plans" "block_as eng (fst (src plan)) (snd (snd (src plan))) b"
    using C by (auto simp: B(1) list_ex_iff)
  have "case src plan of (q, labels, dim) \<Rightarrow> describes eng fl (ep_source plan) q labels dim"
    using src plan(1) by (simp add: sourced_def list_all_iff)
  then have dim: "q_dim_opt eng (fst (src plan)) = Some (snd (snd (src plan)))"
    by (cases "src plan") (simp add: describes_def)
  have "snd (snd (src plan)) < 2 ^ 32" "q_bit_width eng (fst (src plan)) < 2 ^ 32"
    using shaped [of "fst (src plan)"] dim by (simp_all add: well_shaped_def)
  then have "geometry eng q = geometry eng (fst (src plan))"
    using plan(2) dim parts by (simp add: geometry_def block_as_def block_pair_def unat_as_u32 del: unsigned_of_nat)
  moreover have labels: "length ls = q_len eng q"
    by (rule import_stream_labels [OF law I(1)])
  ultimately have "holds_rows eng fl' (mk_shard_ref target sid) (geometry eng (fst (src plan)))
       (concat (map (plan_codes eng src) plans)) (concat (map (plan_scales eng src) plans))
       (concat (map (plan_labels eng src) plans))"
    using I(2) parts B(2) C by (simp add: holds_rows_def mk_shard_ref_def)
  moreover have "length (concat (map (plan_labels eng src) plans)) = unat expected"
    using labels parts(3) B(2) C by simp
  ultimately show ?thesis
    using E C plan(1) fresh by blast
qed

subsection \<open>All the targets of a split\<close>

text \<open>The rows from \<open>s\<close> on, spread over shards in order: \<open>ns\<close> rows each.\<close>

fun spread ::
    "('q, 'm) engine \<Rightarrow> ('q, 'm) fleet \<Rightarrow> 'q \<Rightarrow> u64 list option \<Rightarrow> nat \<Rightarrow> nat \<Rightarrow> (shard_ref \<times> nat) list \<Rightarrow> bool" where
  "spread eng fl q labels b s [] \<longleftrightarrow> True"
| "spread eng fl q labels b s ((shard, n) # rest) \<longleftrightarrow>
     (n = 0 \<or> s + n \<le> q_len eng q) \<and>
     holds_rows eng fl shard (geometry eng q) (sub (s * b) (n * b) (q_packed_codes eng q))
       (sub s n (q_scales eng q)) (sub s n (labels_of eng q labels)) \<and>
     spread eng fl q labels b (s + n) rest"

lemma spread_extends: "spread eng fl q labels b s shards \<Longrightarrow> extends fl fl' \<Longrightarrow> spread eng fl' q labels b s shards"
  by (induction eng fl q labels b s shards rule: spread.induct) (auto intro: holds_rows_extends)

lemma stage_targets_spread:
  assumes eng: "engine_laws eng" and "describes eng fl p q labels dim"
    and "stage_targets eng net p targets start fl = (Inr shards, fl')"
  shows "extends fl fl' \<and> map ref_address shards = map fst targets \<and>
    (\<forall>s \<in> set shards. index_at fl (ref_address s) (ref_index_id s) = None) \<and>
    spread eng fl' q labels (bytes_per_row eng q dim) (unat start) (zip shards (map (unat \<circ> snd) targets))"
  using assms(2-)
proof (induction targets arbitrary: start fl shards)
  case (Cons t targets)
  obtain target cnt where t: "t = (target, cnt)" by (cases t)
  let ?plan = "\<lparr>ep_source = p, ep_start = start, ep_count = cnt\<rparr>"
  let ?src = "\<lambda>_ :: export_plan. (q, labels, dim)"
  obtain sid fl1 rest where S: "import_ranges eng net target cnt [?plan] fl = (Inr sid, fl1)"
      "stage_targets eng net p targets (start + cnt) fl1 = (Inr rest, fl')" "shards = mk_shard_ref target sid # rest"
    using Cons.prems(2) by (auto simp: t split: prod.splits sum.splits)
  have "sourced eng fl ?src [?plan]"
    using Cons.prems(1) by (simp add: sourced_def)
  note M = import_ranges_moves [OF eng this _ S(1), simplified]
  have q: "q_len eng q < 2 ^ 64"
    using eng by (simp add: engine_laws_def)
  then have next_start: "unat (start + cnt) = unat start + unat cnt"
    using M by (cases "cnt = 0") (auto simp: unat_eq_0 intro!: unat_plus_lt_u64)
  note IH = Cons.IH [OF describes_extends [OF Cons.prems(1) conjunct1 [OF M]] S(2)]
  have "holds_rows eng fl' (mk_shard_ref target sid) (geometry eng q)
      (sub (unat start * bytes_per_row eng q dim) (unat cnt * bytes_per_row eng q dim) (q_packed_codes eng q))
      (sub (unat start) (unat cnt) (q_scales eng q)) (sub (unat start) (unat cnt) (labels_of eng q labels))"
    using M IH by (auto simp: plan_codes_def plan_scales_def plan_labels_def intro: holds_rows_extends)
  moreover have "index_at fl (ref_address s) (ref_index_id s) = None" if "s \<in> set shards" for s
    using that M IH extends_None [of fl fl1] by (auto simp: S(3) mk_shard_ref_def)
  ultimately show ?case
    using M IH extends_trans [of fl fl1 fl'] by (simp add: t S(3) next_start mk_shard_ref_def)
qed simp

end
