(* ===== verification/Reshape.thy ===== *)
theory Reshape
  imports Fleet Config
begin

text \<open>
  The calls that reshape a collection (\<^verbatim>\<open>FitCalibration\<close>, \<^verbatim>\<open>Split\<close>, \<^verbatim>\<open>Join\<close> in
  \<^verbatim>\<open>src/src/coordinator/mod.rs\<close>) and the autoscaler's tick (\<^verbatim>\<open>src/src/coordinator/autoscale.rs\<close>),
  over the fleet of nodes. While a call stages its shards other calls may change the coordinator:
  \<open>during\<close> is what they did to it and its disk.
\<close>

section \<open>Publishing staged shards\<close>

text \<open>The end of every operator call: flush, read the generations, rebind.\<close>

definition publish_shards ::
    "('q, 'm) codec \<Rightarrow> ('q, 'm) engine \<Rightarrow> network \<Rightarrow> durable_env \<Rightarrow> shard_ref list
     \<Rightarrow> coordinator \<Rightarrow> disk \<Rightarrow> ('q, 'm) fleet
     \<Rightarrow> (status + u64) \<times> coordinator \<times> disk \<times> ('q, 'm) fleet" where
  "publish_shards cod eng net env shards co d fl =
     (case flush_before_durable_rebind cod eng net co shards fl of
        (Inl e, fl1) \<Rightarrow> (Inl e, co, d, fl1)
      | (Inr _, fl1) \<Rightarrow>
          (case configs_for_topology eng net (co_shards co) shards fl1 of
             (Inl e, fl2) \<Rightarrow> (Inl e, co, d, fl2)
           | (Inr configs, fl2) \<Rightarrow>
               (case rebind env configs co d of (r, co', d') \<Rightarrow> (r, co', d', fl2))))"

section \<open>Split\<close>

record split_request =
  sp_source :: "shard_ref option"
  sp_targets :: "string list"
  sp_row_counts :: "u64 list"

record split_response =
  sr_shards :: "shard_ref list"
  sr_rows :: "u64 list"
  sr_calibration :: calibration
  sr_generation :: u64

definition split ::
    "('q, 'm) codec \<Rightarrow> ('q, 'm) engine \<Rightarrow> network \<Rightarrow> durable_env \<Rightarrow> (coordinator \<times> disk \<Rightarrow> coordinator \<times> disk)
     \<Rightarrow> split_request \<Rightarrow> coordinator \<Rightarrow> disk \<Rightarrow> ('q, 'm) fleet
     \<Rightarrow> (status + split_response) \<times> coordinator \<times> disk \<times> ('q, 'm) fleet" where
  "split cod eng net env during req co d fl =
     (case sp_source req of
        None \<Rightarrow> (Inl (invalid_argument [Lit ''split needs a source shard to redistribute'']), co, d, fl)
      | Some source \<Rightarrow>
          (case stage_split eng net (to_config source) (sp_targets req) (sp_row_counts req) fl of
             (Inl e, fl1) \<Rightarrow> (case during (co, d) of (co1, d1) \<Rightarrow> (Inl e, co1, d1, fl1))
           | (Inr (p, shards, counts), fl1) \<Rightarrow>
               (case during (co, d) of
                  (co1, d1) \<Rightarrow>
                    (case publish_shards cod eng net env shards co1 d1 fl1 of
                       (Inl e, rest) \<Rightarrow> (Inl e, rest)
                     | (Inr g, rest) \<Rightarrow>
                         (Inr \<lparr>sr_shards = shards, sr_rows = counts,
                               sr_calibration = probe_calibration p, sr_generation = g\<rparr>, rest)))))"

section \<open>Join\<close>

record join_request =
  jo_sources :: "shard_ref list"
  jo_target :: string

record join_response =
  jr_shard :: shard_ref
  jr_rows :: u64
  jr_calibration :: calibration
  jr_generation :: u64

fun join_probes :: "node_rpc \<Rightarrow> shard_config list \<Rightarrow> status + probe list" where
  "join_probes rpc [] = Inr []"
| "join_probes rpc (s # ss) =
     rbind (resolve rpc s) (\<lambda>p.
     rbind (require_positional p ''Join'') (\<lambda>_.
     rbind (join_probes rpc ss) (\<lambda>ps. Inr (p # ps))))"

definition join_plans :: "probe list \<Rightarrow> export_plan list" where
  "join_plans probes =
     map (\<lambda>p. \<lparr>ep_source = p, ep_start = 0, ep_count = info_len (probe_info p)\<rparr>) probes"

definition join ::
    "('q, 'm) codec \<Rightarrow> ('q, 'm) engine \<Rightarrow> network \<Rightarrow> durable_env \<Rightarrow> (coordinator \<times> disk \<Rightarrow> coordinator \<times> disk)
     \<Rightarrow> join_request \<Rightarrow> coordinator \<Rightarrow> disk \<Rightarrow> ('q, 'm) fleet
     \<Rightarrow> (status + join_response) \<times> coordinator \<times> disk \<times> ('q, 'm) fleet" where
  "join cod eng net env during req co d fl =
     (let sources = (if jo_sources req = [] then co_shards co else map to_config (jo_sources req)) in
      if sources = [] then
        (Inl (precondition EMPTY_COLLECTION
           [Lit ''no sources were named and no shards are configured, so there is nothing to join'']), co, d, fl)
      else if jo_target req = [] then
        (Inl (invalid_argument [Lit ''join needs a target node address to build the combined index on'']), co, d, fl)
      else
        (case rbind (join_probes (rpc_of eng net fl) sources) (\<lambda>probes.
                rbind (bind (co_generation co) probes) (\<lambda>p. Inr (probes, p))) of
           Inl e \<Rightarrow> (case during (co, d) of (co1, d1) \<Rightarrow> (Inl e, co1, d1, probed fl))
         | Inr (probes, p) \<Rightarrow>
             (let target = cfg_address (config_new (jo_target req)) in
              case import_ranges eng net target (pinned_rows p) (join_plans probes) (probed fl) of
                (Inl e, fl1) \<Rightarrow> (case during (co, d) of (co1, d1) \<Rightarrow> (Inl e, co1, d1, fl1))
              | (Inr sid, fl1) \<Rightarrow>
                  (case during (co, d) of
                     (co1, d1) \<Rightarrow>
                       (let shard = mk_shard_ref target sid in
                        case publish_shards cod eng net env [shard] co1 d1 fl1 of
                          (Inl e, rest) \<Rightarrow> (Inl e, rest)
                        | (Inr g, rest) \<Rightarrow>
                            (Inr \<lparr>jr_shard = shard, jr_rows = pinned_rows p,
                                  jr_calibration = pinned_calibration p, jr_generation = g\<rparr>, rest))))))"

section \<open>One calibration for the collection\<close>

record fit_request =
  fi_sample :: "f32 list"
  fi_dim :: u32
  fi_bit_width :: u32

record fit_response =
  fr_calibration :: calibration
  fr_shards :: "shard_ref list"
  fr_generation :: u64

text \<open>\<open>calibrate_2d\<close> is the engine's fit; the fitted pair is what travels.\<close>

definition fitted_pair ::
    "('q, 'm) engine \<Rightarrow> ('q \<Rightarrow> f32 list \<Rightarrow> nat \<Rightarrow> string + 'q) \<Rightarrow> fit_request \<Rightarrow> status + (f32 list \<times> f32 list)" where
  "fitted_pair eng calibrate_2d req =
     (case q_new eng (unat (fi_dim req)) (unat (fi_bit_width req)) of
        Inl e \<Rightarrow> Inl (invalid_argument [Lit ''cannot fit at this shape: '', Lit e])
      | Inr q \<Rightarrow>
          (case calibrate_2d q (fi_sample req) (unat (fi_dim req)) of
             Inl e \<Rightarrow> Inl (invalid_argument [Lit ''calibration fit failed: '', Lit e])
           | Inr q' \<Rightarrow> Inr (q_tqplus_shift eng q', q_tqplus_scale eng q')))"

text \<open>Commit the pair to every shard and read back what the node holds.\<close>

fun commit_pair ::
    "('q, 'm) engine \<Rightarrow> network \<Rightarrow> f32 list \<times> f32 list \<Rightarrow> shard_config list \<Rightarrow> ('q, 'm) fleet
     \<Rightarrow> (status + shard_ref list) \<times> ('q, 'm) fleet" where
  "commit_pair eng net pair [] fl = (Inr [], fl)"
| "commit_pair eng net pair (shard # shards) fl =
     (case resolve (rpc_of eng net fl) shard of
        Inl e \<Rightarrow> (Inl e, probed fl)
      | Inr p \<Rightarrow>
          (case call_node net (probe_address p)
                  (set_calibration eng \<lparr>sc_index_id = probe_index_id p, sc_shift = fst pair, sc_scale = snd pair\<rparr>)
                  (probed fl) of
             (Inl e, fl1) \<Rightarrow> (Inl e, fl1)
           | (Inr c, fl1) \<Rightarrow>
               (case calibration_difference pair (pair_of c) of
                  Some detail \<Rightarrow>
                    (Inl (precondition MIXED_CALIBRATION
                       ([Lit ''shard '', Lit (probe_address p), Lit '' did not commit the pair it was sent: ''] @ detail)), fl1)
                | None \<Rightarrow>
                    (case commit_pair eng net pair shards fl1 of
                       (Inl e, fl2) \<Rightarrow> (Inl e, fl2)
                     | (Inr refs, fl2) \<Rightarrow> (Inr (mk_shard_ref (probe_address p) (probe_index_id p) # refs), fl2)))))"

definition fit_calibration ::
    "('q, 'm) codec \<Rightarrow> ('q, 'm) engine \<Rightarrow> ('q \<Rightarrow> f32 list \<Rightarrow> nat \<Rightarrow> string + 'q) \<Rightarrow> network \<Rightarrow> durable_env
     \<Rightarrow> fit_request \<Rightarrow> coordinator \<Rightarrow> disk \<Rightarrow> ('q, 'm) fleet
     \<Rightarrow> (status + fit_response) \<times> coordinator \<times> disk \<times> ('q, 'm) fleet" where
  "fit_calibration cod eng calibrate_2d net env req co d fl =
     (case fitted_pair eng calibrate_2d req of
        Inl e \<Rightarrow> (Inl e, co, d, fl)
      | Inr pair \<Rightarrow>
          if co_shards co = [] then
            (Inl (precondition EMPTY_COLLECTION
               [Lit ''no shards are configured, so there is nothing to calibrate'']), co, d, fl)
          else
            (case commit_pair eng net pair (co_shards co) fl of
               (Inl e, fl1) \<Rightarrow> (Inl e, co, d, fl1)
             | (Inr shards, fl1) \<Rightarrow>
                 (case publish_shards cod eng net env shards co d fl1 of
                    (Inl e, rest) \<Rightarrow> (Inl e, rest)
                  | (Inr _, co1, d1, fl2) \<Rightarrow>
                      (case collection (rpc_of eng net fl2) co1 of
                         (Inl e, co2) \<Rightarrow> (Inl e, co2, d1, probed fl2)
                       | (Inr p, co2) \<Rightarrow>
                           (Inr \<lparr>fr_calibration = pinned_calibration p, fr_shards = shards,
                                 fr_generation = pinned_generation p\<rparr>, co2, d1, probed fl2)))))"

section \<open>The autoscaler\<close>

record autoscale_policy =
  max_rows_per_shard :: u64
  interval_ms :: nat

text \<open>\<open>AutoscalePolicy::new\<close> and its two assertions.\<close>

definition policy_new :: "u64 \<Rightarrow> nat \<Rightarrow> 'e failure + autoscale_policy" where
  "policy_new max_rows interval =
     (if 0 < max_rows \<and> interval \<noteq> 0 then Inr \<lparr>max_rows_per_shard = max_rows, interval_ms = interval\<rparr>
      else Inl Panic)"

text \<open>How a tick ended: the log lines of the source.\<close>

datatype tick_outcome =
    NothingToDo
  | NoSpare
  | SpareDown
  | StagingFailed status
  | Abandoned status
  | SourceKept u64 status
  | SourceDropped u64

text \<open>Best effort: the targets a tick will not publish.\<close>

fun drop_staged :: "network \<Rightarrow> shard_ref list \<Rightarrow> ('q, 'm) fleet \<Rightarrow> ('q, 'm) fleet" where
  "drop_staged net [] fl = fl"
| "drop_staged net (s # shards) fl =
     drop_staged net shards
       (let n = fl_calls fl in
        snd (call_node net (ref_address s) (drop_index (net_fs net n) (net_uuid net n) (ref_index_id s)) fl))"

text \<open>The first shard over the ceiling, with its position.\<close>

definition over_ceiling :: "autoscale_policy \<Rightarrow> probe list \<Rightarrow> (nat \<times> probe) option" where
  "over_ceiling policy probes =
     find (\<lambda>(i, p). max_rows_per_shard policy < info_len (probe_info p)) (List.enumerate 0 probes)"

text \<open>The collection keeps its other shards: the source's slot becomes the targets.\<close>

definition replaced_at :: "nat \<Rightarrow> 'a list \<Rightarrow> 'a list \<Rightarrow> 'a list" where
  "replaced_at i new table = take i table @ new @ drop (Suc i) table"

definition tick_publish ::
    "('q, 'm) codec \<Rightarrow> ('q, 'm) engine \<Rightarrow> network \<Rightarrow> durable_env \<Rightarrow> u64 \<Rightarrow> shard_config list \<Rightarrow> nat
     \<Rightarrow> shard_ref list \<Rightarrow> coordinator \<Rightarrow> disk \<Rightarrow> ('q, 'm) fleet
     \<Rightarrow> (status + u64) \<times> coordinator \<times> disk \<times> ('q, 'm) fleet" where
  "tick_publish cod eng net env generation table at staged co d fl =
     (case flush_before_durable_rebind cod eng net co staged fl of
        (Inl e, fl1) \<Rightarrow> (Inl e, co, d, fl1)
      | (Inr _, fl1) \<Rightarrow>
          (case configs_for_topology eng net (co_shards co) staged fl1 of
             (Inl e, fl2) \<Rightarrow> (Inl e, co, d, fl2)
           | (Inr configs, fl2) \<Rightarrow>
               (case rebind_if_unchanged env generation (replaced_at at configs table) co d of
                  (r, co', d') \<Rightarrow> (r, co', d', fl2))))"

text \<open>
  \<open>AutoscalePolicy::from_env\<close>: absent unless the ceiling is set.
\<close>

definition policy_from_env :: "environment \<Rightarrow> message failure + autoscale_policy option" where
  "policy_from_env env =
     rbind (checked (optional_positive_u64 env ''TURBOVEC_AUTOSCALE_MAX_ROWS_PER_SHARD'')) (\<lambda>max_rows.
       case max_rows of
         None \<Rightarrow> Inr None
       | Some m \<Rightarrow>
           rbind (checked (positive_usize env ''TURBOVEC_AUTOSCALE_INTERVAL_MS'' 30000)) (\<lambda>interval.
             rbind (policy_new m interval) (\<lambda>policy. Inr (Some policy))))"

text \<open>
  What the tick sees before it moves anything: the shard over the ceiling with its position, when the
  collection is servable.
\<close>

definition tick_source :: "autoscale_policy \<Rightarrow> node_rpc \<Rightarrow> u64 \<times> shard_config list \<Rightarrow> (nat \<times> probe) option" where
  "tick_source policy rpc top_table =
     (case top_table of (generation, table) \<Rightarrow>
       if table = [] then None
       else case rbind (all_probes (probe_all rpc table)) (bind generation) of
              Inl _ \<Rightarrow> None
            | Inr p \<Rightarrow> over_ceiling policy (pinned_shards p))"

text \<open>Once the new generation is published: drop the source if the collection serves.\<close>

definition tick_retire ::
    "('q, 'm) engine \<Rightarrow> network \<Rightarrow> probe \<Rightarrow> u64 \<Rightarrow> coordinator \<Rightarrow> ('q, 'm) fleet
     \<Rightarrow> tick_outcome \<times> coordinator \<times> ('q, 'm) fleet" where
  "tick_retire eng net source g co fl =
     (case collection (rpc_of eng net fl) co of
        (Inl e, co') \<Rightarrow> (SourceKept g e, co', probed fl)
      | (Inr _, co') \<Rightarrow>
          (let fl1 = probed fl; n = fl_calls fl1 in
           case call_node net (probe_address source)
                  (drop_index (net_fs net n) (net_uuid net n) (probe_index_id source)) fl1 of
             (Inl e, fl2) \<Rightarrow> (SourceKept g e, co', fl2)
           | (Inr _, fl2) \<Rightarrow> (SourceDropped g, co', fl2)))"

text \<open>
  \<open>autoscale_tick\<close>. Other calls may change the coordinator while the tick waits: \<open>during 0\<close> before
  it takes the spare, \<open>during 1\<close> before it publishes, \<open>during 2\<close> before it binds the new generation.
\<close>

definition autoscale_tick ::
    "('q, 'm) codec \<Rightarrow> ('q, 'm) engine \<Rightarrow> network \<Rightarrow> durable_env
     \<Rightarrow> (nat \<Rightarrow> coordinator \<times> disk \<Rightarrow> coordinator \<times> disk) \<Rightarrow> autoscale_policy
     \<Rightarrow> coordinator \<Rightarrow> disk \<Rightarrow> ('q, 'm) fleet
     \<Rightarrow> tick_outcome \<times> coordinator \<times> disk \<times> ('q, 'm) fleet" where
  "autoscale_tick cod eng net env during policy co d fl =
     (let (generation, table) = topology co; (co0, d0) = during 0 (co, d) in
      case tick_source policy (rpc_of eng net fl) (generation, table) of
        None \<Rightarrow> (NothingToDo, co0, d0, probed fl)
      | Some (at, source) \<Rightarrow>
          (case co_spares co0 of
             [] \<Rightarrow> (NoSpare, co0, d0, probed fl)
           | spare # _ \<Rightarrow>
               (case call_node net spare (list_indexes eng) (probed fl) of
                  (Inl _, fl1) \<Rightarrow> (SpareDown, co0, d0, fl1)
                | (Inr _, fl1) \<Rightarrow>
                    (let (co1, d1) = during 1 (co0, d0) in
                     case stage_split eng net (with_index (probe_address source) (probe_index_id source))
                            [probe_address source, spare] [] fl1 of
                       (Inl e, fl2) \<Rightarrow> (StagingFailed e, co1, d1, fl2)
                     | (Inr (p, staged, counts), fl2) \<Rightarrow>
                         (case tick_publish cod eng net env generation table at staged co1 d1 fl2 of
                            (Inl e, co2, d2, fl3) \<Rightarrow> (Abandoned e, co2, d2, drop_staged net staged fl3)
                          | (Inr g, co2, d2, fl3) \<Rightarrow>
                              (let (co3, d3) = during 2 (co2, d2) in
                               case tick_retire eng net p g co3 fl3 of
                                 (outcome, co4, fl4) \<Rightarrow> (outcome, co4, d3, fl4)))))))"

end
