(* ===== verification/Reshape_Properties.thy ===== *)
theory Reshape_Properties
  imports Reshape
begin

text \<open>
  What the reshaping calls guarantee: the rows a \<open>Split\<close> or \<open>Join\<close> publishes are the rows of its
  sources, in order; an error publishes nothing; every shard a \<open>FitCalibration\<close> publishes holds the
  pair; and a tick of the autoscaler drops its source only after the two halves are served.
\<close>

section \<open>The rows behind a list of shards\<close>

record shard_rows =
  rows_codes :: bytes
  rows_scales :: "f32 list"
  rows_labels :: "u64 list"

definition rows_at :: "('q, 'm) engine \<Rightarrow> ('q, 'm) fleet \<Rightarrow> shard_ref
    \<Rightarrow> ((nat option \<times> nat \<times> f32 list \<times> f32 list) \<times> shard_rows) option" where
  "rows_at eng fl s =
     (case index_at fl (ref_address s) (ref_index_id s) of
        Some (Positional q, Some labels) \<Rightarrow>
          Some (geometry eng q, \<lparr>rows_codes = q_packed_codes eng q, rows_scales = q_scales eng q, rows_labels = labels\<rparr>)
      | _ \<Rightarrow> None)"

text \<open>The shards hold these rows, in order and in one geometry, \<open>ns\<close> of them each.\<close>

definition hold ::
    "('q, 'm) engine \<Rightarrow> ('q, 'm) fleet \<Rightarrow> shard_ref list \<Rightarrow> nat list \<Rightarrow> nat option \<times> nat \<times> f32 list \<times> f32 list
     \<Rightarrow> shard_rows \<Rightarrow> bool" where
  "hold eng fl shards ns g rows \<longleftrightarrow>
     (\<exists>parts. map (rows_at eng fl) shards = map (\<lambda>p. Some (g, p)) parts \<and>
        map (length \<circ> rows_labels) parts = ns \<and>
        rows = \<lparr>rows_codes = concat (map rows_codes parts), rows_scales = concat (map rows_scales parts),
                rows_labels = concat (map rows_labels parts)\<rparr>)"

definition all_rows :: "('q, 'm) engine \<Rightarrow> 'q \<Rightarrow> u64 list option \<Rightarrow> shard_rows" where
  "all_rows eng q labels =
     \<lparr>rows_codes = q_packed_codes eng q, rows_scales = q_scales eng q, rows_labels = labels_of eng q labels\<rparr>"

lemma holds_rows_at:
  "holds_rows eng fl s g codes scales labels \<Longrightarrow>
     rows_at eng fl s = Some (g, \<lparr>rows_codes = codes, rows_scales = scales, rows_labels = labels\<rparr>)"
  by (auto simp: holds_rows_def rows_at_def)

text \<open>Indexes that stay keep their rows.\<close>

lemma hold_keep:
  assumes "hold eng fl shards ns g rows"
    and keep: "\<And>s x. s \<in> set shards \<Longrightarrow> index_at fl (ref_address s) (ref_index_id s) = Some x \<Longrightarrow>
      index_at fl' (ref_address s) (ref_index_id s) = Some x"
  shows "hold eng fl' shards ns g rows"
proof -
  have rows: "rows_at eng fl' s = Some x" if "s \<in> set shards" "rows_at eng fl s = Some x" for s x
    using that keep [OF that(1)] by (auto simp: rows_at_def split: option.splits)
  have "map (rows_at eng fl') shards = map (rows_at eng fl) shards"
    if parts: "map (rows_at eng fl) shards = map (\<lambda>p. Some (g, p)) parts" for parts
  proof (rule map_cong [OF refl])
    fix s
    assume s: "s \<in> set shards"
    then have "rows_at eng fl s \<in> set (map (\<lambda>p. Some (g, p)) parts)"
      unfolding parts [symmetric] by simp
    then obtain p where "rows_at eng fl s = Some (g, p)" by auto
    with rows [OF s this] show "rows_at eng fl' s = rows_at eng fl s" by simp
  qed
  with assms(1) show ?thesis
    unfolding hold_def by metis
qed

lemma hold_extends: "hold eng fl shards ns g rows \<Longrightarrow> extends fl fl' \<Longrightarrow> hold eng fl' shards ns g rows"
  by (erule hold_keep) (rule extendsD)

lemma hold_Nil: "hold eng fl [] [] g \<lparr>rows_codes = [], rows_scales = [], rows_labels = []\<rparr>"
  by (simp add: hold_def)

lemma hold_Cons:
  assumes "rows_at eng fl s = Some (g, p)" and "hold eng fl shards ns g rows"
  shows "hold eng fl (s # shards) (length (rows_labels p) # ns) g
    \<lparr>rows_codes = rows_codes p @ rows_codes rows, rows_scales = rows_scales p @ rows_scales rows,
     rows_labels = rows_labels p @ rows_labels rows\<rparr>"
proof -
  obtain parts where "map (rows_at eng fl) shards = map (\<lambda>p. Some (g, p)) parts"
      "map (length \<circ> rows_labels) parts = ns"
      "rows = \<lparr>rows_codes = concat (map rows_codes parts), rows_scales = concat (map rows_scales parts),
         rows_labels = concat (map rows_labels parts)\<rparr>"
    using assms(2) unfolding hold_def by blast
  then show ?thesis
    unfolding hold_def by (intro exI [of _ "p # parts"]) (simp add: assms(1))
qed

lemma hold_one: "rows_at eng fl s = Some (g, p) \<Longrightarrow> hold eng fl [s] [length (rows_labels p)] g p"
  using hold_Cons [OF _ hold_Nil, of eng fl s g p] by (cases p) simp

text \<open>A spread of rows from \<open>s\<close> on.\<close>

lemma spread_hold:
  assumes "labels_fit eng q labels" and "spread eng fl q labels b s (zip shards ns)" and "length shards = length ns"
    and "s \<le> q_len eng q"
  shows "s + sum_list ns \<le> q_len eng q \<and>
    hold eng fl shards ns (geometry eng q)
      \<lparr>rows_codes = sub (s * b) (sum_list ns * b) (q_packed_codes eng q),
       rows_scales = sub s (sum_list ns) (q_scales eng q),
       rows_labels = sub s (sum_list ns) (labels_of eng q labels)\<rparr>"
  using assms(2-)
proof (induction shards arbitrary: s ns)
  case Nil
  then show ?case by (simp add: hold_Nil sub_def)
next
  case (Cons shard shards)
  obtain n ns' where ns: "ns = n # ns'" "length shards = length ns'"
    using Cons.prems(2) by (cases ns) auto
  have sp: "holds_rows eng fl shard (geometry eng q) (sub (s * b) (n * b) (q_packed_codes eng q))
       (sub s n (q_scales eng q)) (sub s n (labels_of eng q labels))"
    "spread eng fl q labels b (s + n) (zip shards ns')" "s + n \<le> q_len eng q"
    using Cons.prems by (auto simp: ns)
  note IH = Cons.IH [OF sp(2) ns(2) sp(3)]
  have "length (sub s n (labels_of eng q labels)) = n"
    using sp(3) length_labels_of [OF assms(1)] by simp
  with hold_Cons [OF holds_rows_at [OF sp(1)] conjunct2 [OF IH]] IH show ?case
    by (simp add: ns sub_add add_mult_distrib)
qed

section \<open>Publishing\<close>

lemma flush_shards_extends: "flush_shards cod eng net shards fl = (Inr (), fl') \<Longrightarrow> extends fl fl'"
proof (induction shards arbitrary: fl)
  case (Cons s shards)
  then show ?case
    by (auto simp: Let_def split: prod.splits sum.splits intro: extends_trans dest!: flushing.call_extends)
qed simp

lemma flush_before_extends:
  "flush_before_durable_rebind cod eng net co shards fl = (Inr (), fl') \<Longrightarrow> extends fl fl'"
  by (auto simp: flush_before_durable_rebind_def split: if_splits dest: flush_shards_extends)

text \<open>The shards of a topology as references, for a topology that names every index.\<close>

definition named :: "shard_config \<Rightarrow> shard_ref \<Rightarrow> bool" where
  "named c s \<longleftrightarrow> cfg_address c = with_scheme (ref_address s) \<and> cfg_index_id c = Some (ref_index_id s)"

lemma config_for_named: "named (config_for previous s info) s"
  by (simp add: named_def config_for_def Let_def with_index_generation_def with_index_def split: option.splits)

lemma configs_for_topology_Inr:
  "configs_for_topology eng net previous shards fl = (Inr configs, fl') \<Longrightarrow>
     extends fl fl' \<and> list_all2 named configs shards"
proof (induction shards arbitrary: fl configs)
  case (Cons s shards)
  then show ?case
    by (auto simp: config_for_named split: prod.splits sum.splits
        intro: extends_trans dest!: describing.call_extends)
qed simp

lemma rebind_Inr:
  assumes "rebind_inner env expected shards co d = (Inr g, co', d')"
  shows "co_shards co' = shards \<and> co_generation co' = g \<and> unat g = unat (co_generation co) + 1 \<and>
    co_pinned co' = None \<and> (\<forall>e. expected = Some e \<longrightarrow> co_generation co = e)"
  using assms
proof (cases rule: rebind_inner_cases)
  case failed
  then show ?thesis by simp
next
  case published
  then show ?thesis
    using unat_plus_lt_u64 [of "co_generation co" 1] by simp
qed

lemma rebind_Inl: "rebind_inner env expected shards co d = (Inl e, co', d') \<Longrightarrow> co' = co"
  by (erule rebind_inner_cases) auto

lemma publish_shards_Inr:
  assumes "publish_shards cod eng net env shards co d fl = (Inr g, co', d', fl')"
  shows "extends fl fl' \<and> list_all2 named (co_shards co') shards \<and> co_generation co' = g \<and>
    unat g = unat (co_generation co) + 1 \<and> co_pinned co' = None"
proof -
  obtain fl1 configs where P: "flush_before_durable_rebind cod eng net co shards fl = (Inr (), fl1)"
      "configs_for_topology eng net (co_shards co) shards fl1 = (Inr configs, fl')"
      "rebind env configs co d = (Inr g, co', d')"
    using assms by (auto simp: publish_shards_def split: prod.splits sum.splits)
  then show ?thesis
    using extends_trans [OF flush_before_extends [OF P(1)]] configs_for_topology_Inr [OF P(2)]
      rebind_Inr [OF P(3) [unfolded rebind_def]] by auto
qed

lemma publish_shards_Inl: "publish_shards cod eng net env shards co d fl = (Inl e, co', d', fl') \<Longrightarrow> co' = co"
  by (auto simp: publish_shards_def rebind_def split: prod.splits sum.splits dest: rebind_Inl)

section \<open>Split\<close>

text \<open>Every positional index has a bound dimension (only an index that never held a row has none).\<close>

definition dims_bound :: "('q, 'm) engine \<Rightarrow> ('q, 'm) fleet \<Rightarrow> bool" where
  "dims_bound eng fl \<longleftrightarrow>
     (\<forall>a sid q labels. index_at fl a sid = Some (Positional q, labels) \<longrightarrow> q_dim_opt eng q \<noteq> None)"

lemma probed_positional:
  assumes "resolve (rpc_of eng net fl) c = Inr p" and "require_positional p what = Inr ()"
    and "fleet_ok eng fl" and "dims_bound eng fl"
  obtains q labels dim where "index_at fl (probe_address p) (probe_index_id p) = Some (Positional q, labels)"
    and "describes eng fl p q labels dim"
  using resolve_positional [OF assms(1,2)] assms(3,4) that unfolding dims_bound_def by fastforce

lemma all_rows_sub:
  assumes "well_shaped eng q" and "q_dim_opt eng q = Some dim" and "labels_fit eng q labels"
  shows "\<lparr>rows_codes = sub 0 (q_len eng q * bytes_per_row eng q dim) (q_packed_codes eng q),
      rows_scales = sub 0 (q_len eng q) (q_scales eng q),
      rows_labels = sub 0 (q_len eng q) (labels_of eng q labels)\<rparr> = all_rows eng q labels"
  using assms length_labels_of [OF assms(3)] by (simp add: all_rows_def well_shaped_def sub_all)

lemma stage_split_Inr:
  assumes eng: "engine_laws eng" and fl: "fleet_ok eng fl" "dims_bound eng fl" and targets: "length targets < 2 ^ 64"
    and stage: "stage_split eng net c targets row_counts fl = (Inr (p, shards, counts), fl')"
  shows "\<exists>q labels. index_at fl (probe_address p) (probe_index_id p) = Some (Positional q, labels) \<and>
    resolve (rpc_of eng net fl) c = Inr p \<and> extends fl fl' \<and> map ref_address shards = targets \<and>
    (\<forall>s \<in> set shards. index_at fl (ref_address s) (ref_index_id s) = None) \<and>
    hold eng fl' shards (map unat counts) (geometry eng q) (all_rows eng q labels)"
proof -
  obtain u where S: "resolve (rpc_of eng net fl) c = Inr p" "require_positional p ''Split'' = Inr u"
    "plan_counts (info_len (probe_info p)) (length targets) row_counts = Inr counts"
    "stage_targets eng net p (zip targets counts) 0 (probed fl) = (Inr shards, fl')"
    using stage by (auto simp: stage_split_def rbind_Inr_iff split: sum.splits prod.splits)
  have "require_positional p ''Split'' = Inr ()"
    using S(2) by simp
  from probed_positional [OF S(1) this fl] obtain q labels dim where
    at: "index_at fl (probe_address p) (probe_index_id p) = Some (Positional q, labels)"
    and D: "describes eng fl p q labels dim" .
  note counts = plan_counts_total [OF S(3) targets]
  have "describes eng (probed fl) p q labels dim"
    using D by (rule describes_extends) simp
  from stage_targets_spread [OF eng this S(4)] have "map ref_address shards = map fst (zip targets counts)"
    and T: "extends fl fl'" "\<forall>s \<in> set shards. index_at fl (ref_address s) (ref_index_id s) = None"
      "spread eng fl' q labels (bytes_per_row eng q dim) 0 (zip shards (map (unat \<circ> snd) (zip targets counts)))"
    by simp_all
  moreover have len: "length targets = length counts"
    using counts by simp
  ultimately have refs: "map ref_address shards = targets"
    by simp
  then have same: "length shards = length (map unat counts)"
    using len by (metis length_map)
  have shape: "well_shaped eng q" "q_len eng q < 2 ^ 64"
    using eng by (simp_all add: engine_laws_def)
  have fit: "labels_fit eng q labels" "q_dim_opt eng q = Some dim" "unat (info_len (probe_info p)) = q_len eng q"
    using D shape(2) by (simp_all add: describes_def unat_as_u64 del: unsigned_of_nat)
  have "map (unat \<circ> snd) (zip targets counts) = map unat (map snd (zip targets counts))"
    by simp
  also have "\<dots> = map unat counts"
    unfolding map_snd_zip [OF len] ..
  finally have "spread eng fl' q labels (bytes_per_row eng q dim) 0 (zip shards (map unat counts))"
    using T(3) by (simp only:)
  from spread_hold [OF fit(1) this same]
  have sum: "sum_list (map unat counts) \<le> q_len eng q"
    and H: "hold eng fl' shards (map unat counts) (geometry eng q)
      \<lparr>rows_codes = sub 0 (sum_list (map unat counts) * bytes_per_row eng q dim) (q_packed_codes eng q),
       rows_scales = sub 0 (sum_list (map unat counts)) (q_scales eng q),
       rows_labels = sub 0 (sum_list (map unat counts)) (labels_of eng q labels)\<rparr>"
    by simp_all
  have "sum_list (map unat counts) mod 2 ^ 64 = q_len eng q"
    using counts fit(3) by simp
  moreover have "sum_list (map unat counts) mod 2 ^ 64 = sum_list (map unat counts)"
    using sum shape(2) by (simp only: mod_less le_less_trans)
  ultimately have "hold eng fl' shards (map unat counts) (geometry eng q) (all_rows eng q labels)"
    using H all_rows_sub [OF shape(1) fit(2,1)] by simp
  then show ?thesis
    using S(1) at T(1,2) refs by (intro exI [of _ q] exI [of _ labels]) simp
qed

text \<open>The rows a probe found, with the labels an export gives them.\<close>

definition probe_rows ::
    "('q, 'm) engine \<Rightarrow> ('q, 'm) fleet \<Rightarrow> probe \<Rightarrow> ((nat option \<times> nat \<times> f32 list \<times> f32 list) \<times> shard_rows) option" where
  "probe_rows eng fl p =
     (case index_at fl (probe_address p) (probe_index_id p) of
        Some (Positional q, labels) \<Rightarrow> Some (geometry eng q, all_rows eng q labels)
      | _ \<Rightarrow> None)"

text \<open>
  C32. A \<open>Split\<close> that answers has moved every row of its source, in order and in the source's
  geometry, onto one new index per target, whatever the other calls did meanwhile and whatever row
  counts were asked for (counts whose 64-bit sum wraps around are refused by the nodes); every index
  that was served is still there, and exactly the new indexes are the next generation's topology. A
  \<open>Split\<close> that fails publishes nothing.
\<close>

theorem split_moves_every_row:
  assumes "engine_laws eng" and "fleet_ok eng fl" and "dims_bound eng fl" and "length (sp_targets req) < 2 ^ 64"
    and "split cod eng net env during req co d fl = (result, co', d', fl')"
  shows "case result of
      Inl e \<Rightarrow> co' \<in> {co, fst (during (co, d))}
    | Inr r \<Rightarrow>
        (\<exists>source p g rows. sp_source req = Some source \<and> resolve (rpc_of eng net fl) (to_config source) = Inr p \<and>
           probe_rows eng fl p = Some (g, rows) \<and> hold eng fl' (sr_shards r) (map unat (sr_rows r)) g rows) \<and>
        extends fl fl' \<and> map ref_address (sr_shards r) = sp_targets req \<and>
        list_all2 named (co_shards co') (sr_shards r) \<and> co_generation co' = sr_generation r \<and>
        unat (sr_generation r) = unat (co_generation (fst (during (co, d)))) + 1"
proof (cases result)
  case (Inl e)
  then show ?thesis
    using assms(5) by (auto simp: split_def split: option.splits prod.splits sum.splits dest: publish_shards_Inl)
next
  case (Inr r)
  obtain source p shards counts fl1 g d1 co1 where S: "sp_source req = Some source" "during (co, d) = (co1, d1)"
      "stage_split eng net (to_config source) (sp_targets req) (sp_row_counts req) fl = (Inr (p, shards, counts), fl1)"
      "publish_shards cod eng net env shards co1 d1 fl1 = (Inr g, co', d', fl')"
      "r = \<lparr>sr_shards = shards, sr_rows = counts, sr_calibration = probe_calibration p, sr_generation = g\<rparr>"
    using assms(5) Inr by (auto simp: split_def split: option.splits prod.splits sum.splits)
  note P = publish_shards_Inr [OF S(4)]
  from stage_split_Inr [OF assms(1-4) S(3)] obtain q labels where
    M: "index_at fl (probe_address p) (probe_index_id p) = Some (Positional q, labels)"
      "resolve (rpc_of eng net fl) (to_config source) = Inr p" "extends fl fl1" "map ref_address shards = sp_targets req"
      "hold eng fl1 shards (map unat counts) (geometry eng q) (all_rows eng q labels)"
    by blast
  moreover have "probe_rows eng fl p = Some (geometry eng q, all_rows eng q labels)"
    using M(1) by (simp add: probe_rows_def)
  ultimately show ?thesis
    using Inr S(1,2) P extends_trans [of fl fl1 fl'] hold_extends [OF M(5), of fl'] by (simp add: S(5) del: split_paired_Ex)
qed

section \<open>Join\<close>

definition concat_rows :: "shard_rows list \<Rightarrow> shard_rows" where
  "concat_rows parts =
     \<lparr>rows_codes = concat (map rows_codes parts), rows_scales = concat (map rows_scales parts),
      rows_labels = concat (map rows_labels parts)\<rparr>"

lemma join_probes_Inr:
  "join_probes rpc sources = Inr probes \<Longrightarrow>
     map (resolve rpc) sources = map Inr probes \<and> list_all (\<lambda>p. require_positional p ''Join'' = Inr ()) probes"
proof (induction sources arbitrary: probes)
  case (Cons s sources)
  then obtain p ps where "resolve rpc s = Inr p" "require_positional p ''Join'' = Inr ()"
      "join_probes rpc sources = Inr ps" "probes = p # ps"
    by (auto simp: rbind_Inr_iff)
  with Cons.IH show ?case by simp
qed simp

text \<open>What the plans of a \<open>Join\<close> export.\<close>

definition join_source :: "('q, 'm) engine \<Rightarrow> ('q, 'm) fleet \<Rightarrow> 'q plan_source" where
  "join_source eng fl plan =
     (case index_at fl (probe_address (ep_source plan)) (probe_index_id (ep_source plan)) of
        Some (Positional q, labels) \<Rightarrow> (q, labels, the (q_dim_opt eng q)))"

lemma join_plan_rows:
  assumes eng: "engine_laws eng" and D: "describes eng fl p q labels dim"
    and plan: "plan = \<lparr>ep_source = p, ep_start = 0, ep_count = info_len (probe_info p)\<rparr>"
  shows "join_source eng fl plan = (q, labels, dim)" and "probe_rows eng fl p = Some (geometry eng q, all_rows eng q labels)"
    and "plan_codes eng (join_source eng fl) plan = rows_codes (all_rows eng q labels)"
    and "plan_scales eng (join_source eng fl) plan = rows_scales (all_rows eng q labels)"
    and "plan_labels eng (join_source eng fl) plan = rows_labels (all_rows eng q labels)"
proof -
  have shape: "well_shaped eng q" "q_len eng q < 2 ^ 64"
    using eng by (simp_all add: engine_laws_def)
  show src: "join_source eng fl plan = (q, labels, dim)"
    and "probe_rows eng fl p = Some (geometry eng q, all_rows eng q labels)"
    using D by (simp_all add: join_source_def probe_rows_def describes_def plan)
  have "unat (info_len (probe_info p)) = q_len eng q" "labels_fit eng q labels" "q_dim_opt eng q = Some dim"
    using D shape(2) by (simp_all add: describes_def unat_as_u64 del: unsigned_of_nat)
  then show "plan_codes eng (join_source eng fl) plan = rows_codes (all_rows eng q labels)"
    "plan_scales eng (join_source eng fl) plan = rows_scales (all_rows eng q labels)"
    "plan_labels eng (join_source eng fl) plan = rows_labels (all_rows eng q labels)"
    using shape(1) length_labels_of [of eng q labels] unfolding plan_codes_def plan_scales_def plan_labels_def src
    by (simp_all add: all_rows_def plan well_shaped_def sub_all)
qed

lemma same_geometry:
  assumes eng: "engine_laws eng" and "describes eng fl p q labels dim" and "describes eng fl p' q' labels' dim'"
    and "agrees p p'"
  shows "geometry eng q = geometry eng q'"
proof -
  have "dim < 2 ^ 32" "dim' < 2 ^ 32" "q_bit_width eng q < 2 ^ 32" "q_bit_width eng q' < 2 ^ 32"
    using assms(1-3) by (auto simp: engine_laws_def well_shaped_def describes_def split: option.splits)
  moreover have "as_u32 dim = as_u32 dim'" "as_u32 (q_bit_width eng q) = as_u32 (q_bit_width eng q')"
    using assms(2-4) by (simp_all add: describes_def agrees_def)
  ultimately have "dim = dim'" "q_bit_width eng q = q_bit_width eng q'"
    using unat_as_u32 by metis+
  then show ?thesis
    using assms(2-4) by (simp add: geometry_def describes_def agrees_def)
qed

lemma join_found:
  assumes fl: "fleet_ok eng fl" "dims_bound eng fl"
    and "join_probes (rpc_of eng net fl) sources = Inr probes" and "p \<in> set probes"
  obtains q labels dim where "describes eng fl p q labels dim"
proof -
  note J = join_probes_Inr [OF assms(3)]
  have "Inr p \<in> set (map Inr probes)"
    using assms(4) by simp
  then obtain c where "resolve (rpc_of eng net fl) c = Inr p"
    using J by (metis (no_types, lifting) ex_map_conv)
  moreover have "require_positional p ''Join'' = Inr ()"
    using J assms(4) by (simp add: list_all_iff)
  ultimately show thesis
    using that by (rule probed_positional [OF _ _ fl])
qed

lemma describes_probed [simp]: "describes eng (probed fl) p q labels dim = describes eng fl p q labels dim"
  by (simp add: describes_def)

lemma join_import:
  assumes eng: "engine_laws eng" and fl: "fleet_ok eng fl" "dims_bound eng fl"
    and probes: "join_probes (rpc_of eng net fl) sources = Inr probes" "bind g probes = Inr p"
    and run: "import_ranges eng net target (pinned_rows p) (join_plans probes) (probed fl) = (Inr sid, fl')"
  shows "extends fl fl' \<and>
    (\<exists>geo rows. map (probe_rows eng fl) probes = map (\<lambda>r. Some (geo, r)) rows \<and>
       hold eng fl' [mk_shard_ref target sid] [unat (pinned_rows p)] geo (concat_rows rows))"
proof -
  let ?plan = "\<lambda>p. \<lparr>ep_source = p, ep_start = 0, ep_count = info_len (probe_info p)\<rparr>"
  let ?src = "join_source eng fl"
  let ?rows = "\<lambda>p. case ?src (?plan p) of (q, labels, dim) \<Rightarrow> all_rows eng q labels"
  let ?geo = "\<lambda>p. geometry eng (fst (?src (?plan p)))"
  have parts: "describes eng fl p (fst (?src (?plan p))) (fst (snd (?src (?plan p)))) (snd (snd (?src (?plan p)))) \<and>
      probe_rows eng fl p = Some (?geo p, ?rows p) \<and> plan_codes eng ?src (?plan p) = rows_codes (?rows p) \<and>
      plan_scales eng ?src (?plan p) = rows_scales (?rows p) \<and> plan_labels eng ?src (?plan p) = rows_labels (?rows p)"
    if p: "p \<in> set probes" for p
  proof -
    obtain q labels dim where D: "describes eng fl p q labels dim"
      by (rule join_found [OF fl probes(1) p])
    show ?thesis
      using D join_plan_rows [OF eng D refl] by simp
  qed
  have one: "?geo a = ?geo b" if "a \<in> set probes" "b \<in> set probes" for a b
    using parts that bind_pairwise [OF probes(2)] by (blast intro: same_geometry [OF eng])
  have "sourced eng (probed fl) ?src (join_plans probes)"
    using parts by (simp add: sourced_def join_plans_def list_all_iff case_prod_beta)
  moreover have "join_plans probes \<noteq> []"
    using probes(2) by (auto simp: bind_Inr_iff join_plans_def)
  ultimately have I: "extends fl fl'" "length (concat (map (plan_labels eng ?src) (join_plans probes))) = unat (pinned_rows p)"
    "\<exists>plan \<in> set (join_plans probes). holds_rows eng fl' (mk_shard_ref target sid) (geometry eng (fst (?src plan)))
       (concat (map (plan_codes eng ?src) (join_plans probes))) (concat (map (plan_scales eng ?src) (join_plans probes)))
       (concat (map (plan_labels eng ?src) (join_plans probes)))"
    using import_ranges_moves [OF eng _ _ run, of ?src] by simp_all
  let ?all = "concat_rows (map ?rows probes)"
  have moved: "concat (map (plan_codes eng ?src) (join_plans probes)) = rows_codes ?all"
      "concat (map (plan_scales eng ?src) (join_plans probes)) = rows_scales ?all"
      "concat (map (plan_labels eng ?src) (join_plans probes)) = rows_labels ?all"
    using parts by (auto simp: join_plans_def concat_rows_def intro!: arg_cong [of _ _ concat])
  from I(3) obtain a where a: "a \<in> set probes" "rows_at eng fl' (mk_shard_ref target sid) = Some (?geo a, ?all)"
    unfolding moved using holds_rows_at by (fastforce simp: join_plans_def)
  have "hold eng fl' [mk_shard_ref target sid] [unat (pinned_rows p)] (?geo a) ?all"
    using hold_one [OF a(2)] I(2) unfolding moved by simp
  moreover have "map (probe_rows eng fl) probes = map (\<lambda>r. Some (?geo a, r)) (map ?rows probes)"
    using parts one [OF _ a(1)] by simp
  ultimately show ?thesis
    using I(1) by blast
qed

text \<open>
  C33. A \<open>Join\<close> that answers has built one index on the target that holds the rows of every source, one
  source after the other, in the geometry they all share; the row count it reports is the exact count;
  every index that was served is still there, and the new index is the next generation's topology. A
  \<open>Join\<close> that fails publishes nothing.
\<close>

theorem join_concatenates_sources:
  assumes "engine_laws eng" and "fleet_ok eng fl" and "dims_bound eng fl"
    and "join cod eng net env during req co d fl = (result, co', d', fl')"
  shows "case result of
      Inl e \<Rightarrow> co' \<in> {co, fst (during (co, d))}
    | Inr r \<Rightarrow>
        (\<exists>probes g rows.
           map (resolve (rpc_of eng net fl)) (if jo_sources req = [] then co_shards co else map to_config (jo_sources req))
             = map Inr probes \<and>
           map (probe_rows eng fl) probes = map (\<lambda>part. Some (g, part)) rows \<and>
           hold eng fl' [jr_shard r] [unat (jr_rows r)] g (concat_rows rows)) \<and>
        extends fl fl' \<and> ref_address (jr_shard r) = with_scheme (jo_target req) \<and>
        list_all2 named (co_shards co') [jr_shard r] \<and> co_generation co' = jr_generation r \<and>
        unat (jr_generation r) = unat (co_generation (fst (during (co, d)))) + 1"
proof (cases result)
  case (Inl e)
  then show ?thesis
    using assms(4) by (auto simp: join_def Let_def split: prod.splits sum.splits if_splits dest: publish_shards_Inl)
next
  case (Inr r)
  let ?sources = "if jo_sources req = [] then co_shards co else map to_config (jo_sources req)"
  let ?shard = "mk_shard_ref (with_scheme (jo_target req))"
  obtain probes p sid fl1 co1 d1 g where S: "join_probes (rpc_of eng net fl) ?sources = Inr probes"
      "bind (co_generation co) probes = Inr p" "during (co, d) = (co1, d1)"
      "import_ranges eng net (with_scheme (jo_target req)) (pinned_rows p) (join_plans probes) (probed fl) = (Inr sid, fl1)"
      "publish_shards cod eng net env [?shard sid] co1 d1 fl1 = (Inr g, co', d', fl')"
      "r = \<lparr>jr_shard = ?shard sid, jr_rows = pinned_rows p, jr_calibration = pinned_calibration p, jr_generation = g\<rparr>"
    using assms(4) Inr
    by (auto simp: join_def Let_def rbind_Inr_iff config_new_def split: prod.splits sum.splits if_splits)
  note P = publish_shards_Inr [OF S(5)]
  from join_import [OF assms(1-3) S(1,2,4)] obtain geo rows where I: "extends fl fl1"
      "map (probe_rows eng fl) probes = map (\<lambda>part. Some (geo, part)) rows"
      "hold eng fl1 [?shard sid] [unat (pinned_rows p)] geo (concat_rows rows)"
    by blast
  have "hold eng fl' [jr_shard r] [unat (jr_rows r)] geo (concat_rows rows)"
    using hold_extends [OF I(3)] P by (simp add: S(6))
  moreover have "map (resolve (rpc_of eng net fl)) ?sources = map Inr probes"
    using join_probes_Inr [OF S(1)] by simp
  moreover have "ref_address (jr_shard r) = with_scheme (jo_target req)"
    by (simp add: S(6) mk_shard_ref_def)
  ultimately show ?thesis
    using Inr I(1,2) S(3) P extends_trans [of fl fl1 fl'] by (simp add: S(6) del: split_paired_Ex) blast
qed

section \<open>A tick of the autoscaler\<close>

lemma same_nodes:
  assumes "fl_nodes fl' = fl_nodes fl"
  shows "index_at fl' a sid = index_at fl a sid" and "fleet_ok eng fl' = fleet_ok eng fl"
    and "dims_bound eng fl' = dims_bound eng fl" and "extends fl fl'"
  by (simp_all add: index_at_def fleet_ok_def dims_bound_def extends_def assms)

lemma drop_index_keeps:
  assumes "invoke net a (drop_index env uuid sid) fl = (Inr r, fl')" and "(b, s) \<noteq> (a, sid)"
    and "index_at fl b s = Some x"
  shows "index_at fl' b s = Some x"
  using assms(1)
proof (rule invoke_InrE)
  fix st w st' w'
  assume A: "fl_nodes fl a = Some (st, w)" "drop_index env uuid sid st w = (Reply r, st', w')"
    "fl_nodes fl' = (fl_nodes fl)(a := Some (st', w'))"
  then have "st' = forget sid st"
    by (auto simp: drop_index_def on_store_def split: prod.splits run.splits dest!: store_delete_registry)
  with A assms(2,3) show ?thesis
    by (auto simp: index_at_def)
qed

lemma tick_publish_Inr:
  assumes "tick_publish cod eng net env generation table at staged co d fl = (Inr g, co', d', fl')"
  shows "extends fl fl' \<and> (\<exists>configs. list_all2 named configs staged \<and> co_shards co' = replaced_at at configs table) \<and>
    co_generation co' = g \<and> co_generation co = generation \<and> unat g = unat generation + 1"
proof -
  obtain fl1 configs where P: "flush_before_durable_rebind cod eng net co staged fl = (Inr (), fl1)"
      "configs_for_topology eng net (co_shards co) staged fl1 = (Inr configs, fl')"
      "rebind_if_unchanged env generation (replaced_at at configs table) co d = (Inr g, co', d')"
    using assms by (auto simp: tick_publish_def split: prod.splits sum.splits)
  then show ?thesis
    using extends_trans [OF flush_before_extends [OF P(1)]] configs_for_topology_Inr [OF P(2)]
      rebind_Inr [OF P(3) [unfolded rebind_if_unchanged_def]] by auto
qed

lemma tick_publish_Inl:
  "tick_publish cod eng net env generation table at staged co d fl = (Inl e, co', d', fl') \<Longrightarrow> co' = co"
  by (auto simp: tick_publish_def rebind_if_unchanged_def split: prod.splits sum.splits dest: rebind_Inl)

text \<open>The source is dropped only after the collection bound, and only the source.\<close>

lemma tick_retire_dropped:
  assumes "tick_retire eng net source g co fl = (SourceDropped g', co', fl')"
  shows "\<not> isl (fst (collection (rpc_of eng net fl) co)) \<and>
    (\<forall>a sid x. index_at fl a sid = Some x \<and> (a, sid) \<noteq> (probe_address source, probe_index_id source) \<longrightarrow>
       index_at fl' a sid = Some x)"
proof -
  obtain p r where "collection (rpc_of eng net fl) co = (Inr p, co')"
    and call: "call_node net (probe_address source)
      (drop_index (net_fs net (fl_calls (probed fl))) (net_uuid net (fl_calls (probed fl))) (probe_index_id source))
      (probed fl) = (Inr r, fl')"
    using assms by (auto simp: tick_retire_def Let_def split: prod.splits sum.splits)
  moreover have "index_at fl' a sid = Some x"
    if "index_at fl a sid = Some x" "(a, sid) \<noteq> (probe_address source, probe_index_id source)" for a sid x
    using drop_index_keeps [OF _ that(2)] call that(1) unfolding call_node_Inr by (metis index_at_probed)
  ultimately show ?thesis by simp
qed

lemma over_ceiling_Some: "over_ceiling policy probes = Some (i, p) \<Longrightarrow> max_rows_per_shard policy < info_len (probe_info p)"
  by (auto simp: over_ceiling_def find_Some_iff)

lemma tick_source_Some:
  "tick_source policy rpc top_table = Some (i, p) \<Longrightarrow> max_rows_per_shard policy < info_len (probe_info p)"
  by (auto simp: tick_source_def split: prod.splits sum.splits if_splits dest: over_ceiling_Some)

fun published :: "tick_outcome \<Rightarrow> u64 option" where
  "published (SourceKept g _) = Some g"
| "published (SourceDropped g) = Some g"
| "published _ = None"

lemma tick_retire_published: "tick_retire eng net source g co fl = (outcome, co', fl') \<Longrightarrow> published outcome = Some g"
  by (auto simp: tick_retire_def Let_def split: prod.splits sum.splits)

text \<open>Where a tick that published has been.\<close>

lemma tick_published_run:
  assumes "autoscale_tick cod eng net env during policy co d fl = (outcome, co', d', fl')"
    and "published outcome = Some g"
  obtains at source spare rest fl1 p staged counts fl2 co2 d2 fl3 where
    "tick_source policy (rpc_of eng net fl) (topology co) = Some (at, source)"
    and "co_spares (fst (during 0 (co, d))) = spare # rest" and "fl_nodes fl1 = fl_nodes fl"
    and "stage_split eng net (with_index (probe_address source) (probe_index_id source))
           [probe_address source, spare] [] fl1 = (Inr (p, staged, counts), fl2)"
    and "tick_publish cod eng net env (co_generation co) (co_shards co) at staged
           (fst (during 1 (during 0 (co, d)))) (snd (during 1 (during 0 (co, d)))) fl2 = (Inr g, co2, d2, fl3)"
    and "tick_retire eng net p g (fst (during 2 (co2, d2))) fl3 = (outcome, co', fl')"
proof -
  obtain co0 d0 where d0: "during 0 (co, d) = (co0, d0)" by (cases "during 0 (co, d)")
  obtain co1 d1 where d1: "during (Suc 0) (co0, d0) = (co1, d1)" by (cases "during (Suc 0) (co0, d0)")
  note run = assms(1) [unfolded autoscale_tick_def topology_def, simplified d0 Let_def prod.case]
  obtain at source where src: "tick_source policy (rpc_of eng net fl) (co_generation co, co_shards co) = Some (at, source)"
    using run assms(2) by (auto split: option.splits)
  obtain spare rest where spare: "co_spares co0 = spare # rest"
    using run assms(2) by (auto simp: src split: list.splits)
  obtain r fl1 where live: "call_node net spare (list_indexes eng) (probed fl) = (Inr r, fl1)"
    using run assms(2) by (auto simp: src spare split: prod.splits sum.splits)
  obtain p staged counts fl2 where stage: "stage_split eng net (with_index (probe_address source) (probe_index_id source))
           [probe_address source, spare] [] fl1 = (Inr (p, staged, counts), fl2)"
    using run assms(2) by (auto simp: src spare live d1 split: prod.splits sum.splits)
  obtain g' co2 d2 fl3 where pub: "tick_publish cod eng net env (co_generation co) (co_shards co) at staged co1 d1 fl2
      = (Inr g', co2, d2, fl3)"
    using run assms(2) by (auto simp: src spare live d1 stage split: prod.splits sum.splits)
  obtain o4 co4 fl4 where retire: "tick_retire eng net p g' (fst (during 2 (co2, d2))) fl3 = (o4, co4, fl4)"
    by (metis prod_cases3)
  then have "o4 = outcome" "co4 = co'" "fl4 = fl'"
    using run by (simp_all add: src spare live d1 stage pub split: prod.splits)
  with retire tick_retire_published [OF retire] assms(2) have "g' = g"
    "tick_retire eng net p g (fst (during 2 (co2, d2))) fl3 = (outcome, co', fl')" by simp_all
  then show thesis
    using that [of at source spare rest fl1 p staged counts fl2 co2 d2 fl3] src spare stage pub listing.call_quiet [OF live]
    by (simp add: topology_def d0 d1 probed_def)
qed

lemma tick_unpublished:
  assumes "autoscale_tick cod eng net env during policy co d fl = (outcome, co', d', fl')"
    and "published outcome = None"
  shows "co' \<in> {fst (during 0 (co, d)), fst (during 1 (during 0 (co, d)))}"
  using assms
  by (auto simp: autoscale_tick_def Let_def topology_def split: prod.splits option.splits list.splits sum.splits
      dest: tick_publish_Inl tick_retire_published)

lemma tick_staged:
  assumes "engine_laws eng" and "fleet_ok eng fl" and "dims_bound eng fl"
    and same: "fl_nodes fl1 = fl_nodes fl"
    and stage: "stage_split eng net (with_index a i) [t, u] [] fl1 = (Inr (p, staged, counts), fl2)"
  obtains geo rows where "probe_rows eng fl p = Some (geo, rows)" and "hold eng fl2 staged (map unat counts) geo rows"
    and "probe_address p = with_scheme a" and "probe_index_id p = i" and "extends fl fl2" and "length staged = 2"
    and "\<And>s. s \<in> set staged \<Longrightarrow> (ref_address s, ref_index_id s) \<noteq> (probe_address p, probe_index_id p)"
proof -
  note N = same_nodes [OF same]
  from stage_split_Inr [OF assms(1) _ _ _ stage] assms(2,3) obtain q labels where
    M: "index_at fl1 (probe_address p) (probe_index_id p) = Some (Positional q, labels)"
      "resolve (rpc_of eng net fl1) (with_index a i) = Inr p" "extends fl1 fl2" "map ref_address staged = [t, u]"
      "\<forall>s \<in> set staged. index_at fl1 (ref_address s) (ref_index_id s) = None"
      "hold eng fl2 staged (map unat counts) (geometry eng q) (all_rows eng q labels)"
    by (auto simp: N)
  have "probe_address p = with_scheme a \<and> probe_index_id p = i"
    using M(2) by (auto simp: resolve_def probe_node_def resolve_index_id_def with_index_def rbind_Inr_iff)
  moreover have "probe_rows eng fl p = Some (geometry eng q, all_rows eng q labels)"
    using M(1) by (simp add: probe_rows_def N)
  moreover have "length staged = 2"
    using arg_cong [OF M(4), of length] by simp
  moreover have "(ref_address s, ref_index_id s) \<noteq> (probe_address p, probe_index_id p)" if "s \<in> set staged" for s
    using M(1,5) that by fastforce
  ultimately show thesis
    using that M(6) extends_trans [OF N(4) M(3)] by blast
qed


section \<open>One calibration for the collection\<close>

definition holds_pair :: "('q, 'm) engine \<Rightarrow> ('q, 'm) fleet \<Rightarrow> f32 list \<times> f32 list \<Rightarrow> shard_ref \<Rightarrow> bool" where
  "holds_pair eng fl pair s \<longleftrightarrow>
     (case index_at fl (ref_address s) (ref_index_id s) of
        Some (Positional q, _) \<Rightarrow> q_len eng q = 0 \<and> (q_tqplus_shift eng q, q_tqplus_scale eng q) = pair
      | _ \<Rightarrow> False)"

lemma holds_pair_extends: "holds_pair eng fl pair s \<Longrightarrow> extends fl fl' \<Longrightarrow> holds_pair eng fl' pair s"
  by (auto simp: holds_pair_def dest: extendsD split: option.splits index.splits)

lemma set_calibration_holds:
  assumes law: "raw_parts_law eng"
    and call: "invoke net a (set_calibration eng \<lparr>sc_index_id = sid, sc_shift = fst pair, sc_scale = snd pair\<rparr>) fl = (Inr c, fl')"
  shows "holds_pair eng fl' pair (mk_shard_ref a sid) \<and> (holds_pair eng fl pair s \<longrightarrow> holds_pair eng fl' pair s)"
  using call
proof (rule invoke_InrE)
  fix st w st' w'
  let ?req = "\<lparr>sc_index_id = sid, sc_shift = fst pair, sc_scale = snd pair\<rparr>"
  assume A: "fl_nodes fl a = Some (st, w)" "set_calibration eng ?req st w = (Reply c, st', w')"
    "fl_nodes fl' = (fl_nodes fl)(a := Some (st', w'))"
  then obtain ix q' where C: "store_get sid st = Some ix" "recalibrated eng ?req ix = Inr q'"
      "st' = set_index sid (Positional q') st"
    by (cases "rbind (node_handle st sid) (recalibrated eng ?req)") (auto simp: set_calibration_def rbind_Inr_iff)
  from recalibrated_Inr [OF C(2)] obtain q dim where "q_from_parts eng (Some dim) (q_bit_width eng q) 0 [] [] (fst pair) (snd pair) = Inr q'"
    by auto
  note parts = raw_parts [OF law this]
  show ?thesis
    using A(1,3) C(1,3) parts by (auto simp: holds_pair_def index_at_def mk_shard_ref_def split: option.splits)
qed

lemma commit_pair_holds:
  assumes law: "raw_parts_law eng" and "commit_pair eng net pair shards fl = (Inr refs, fl')"
  shows "(\<forall>s \<in> set refs. holds_pair eng fl' pair s) \<and> map ref_address refs = map cfg_address shards \<and>
    (\<forall>s. holds_pair eng fl pair s \<longrightarrow> holds_pair eng fl' pair s)"
  using assms(2)
proof (induction shards arbitrary: fl refs)
  case (Cons shard shards)
  obtain p c fl1 rest where C: "resolve (rpc_of eng net fl) shard = Inr p"
      "invoke net (probe_address p) (set_calibration eng
         \<lparr>sc_index_id = probe_index_id p, sc_shift = fst pair, sc_scale = snd pair\<rparr>) (probed fl) = (Inr c, fl1)"
      "commit_pair eng net pair shards fl1 = (Inr rest, fl')"
      "refs = mk_shard_ref (probe_address p) (probe_index_id p) # rest"
    using Cons.prems by (auto simp: call_node_Inr split: prod.splits sum.splits option.splits)
  have "probe_address p = cfg_address shard"
    using C(1) by (auto simp: resolve_def probe_node_def rbind_Inr_iff)
  moreover have "holds_pair eng (probed fl) pair s = holds_pair eng fl pair s" for s
    by (simp add: holds_pair_def)
  ultimately show ?case
    using Cons.IH [OF C(3)] set_calibration_holds [OF law C(2)] by (auto simp: C(4) mk_shard_ref_def)
qed simp

lemma collection_unbound:
  assumes "co_pinned co = None" and "collection rpc co = (r, co')"
  shows "co_shards co' = co_shards co \<and> co_generation co' = co_generation co \<and>
    (\<forall>p. r = Inr p \<longrightarrow> pinned_generation p = co_generation co)"
  using assms
  by (auto simp: collection_def collection_begin_def collection_finish_def topology_def rbind_Inr_iff
      split: if_splits sum.splits dest: bind_generation)

text \<open>
  C35. A \<open>FitCalibration\<close> that answers has fitted one pair, and every shard of the topology it published
  is an empty index that holds that pair, one per shard of the old topology and on the same nodes. One
  that fails has either left the topology alone or published such shards without being able to bind them.
\<close>

theorem fit_reaches_every_shard:
  assumes "raw_parts_law eng"
    and "fit_calibration cod eng calibrate_2d net env req co d fl = (result, co', d', fl')"
  shows "(co_shards co' = co_shards co \<and> co_generation co' = co_generation co \<and> isl result) \<or>
    (\<exists>pair refs. fitted_pair eng calibrate_2d req = Inr pair \<and> list_all (holds_pair eng fl' pair) refs \<and>
       map ref_address refs = map cfg_address (co_shards co) \<and> list_all2 named (co_shards co') refs \<and>
       unat (co_generation co') = unat (co_generation co) + 1 \<and>
       (case result of Inl _ \<Rightarrow> True | Inr r \<Rightarrow> fr_shards r = refs \<and> fr_generation r = co_generation co'))"
proof (cases "\<exists>pair refs fl1 g co1 d1 fl2. fitted_pair eng calibrate_2d req = Inr pair \<and>
    commit_pair eng net pair (co_shards co) fl = (Inr refs, fl1) \<and>
    publish_shards cod eng net env refs co d fl1 = (Inr g, co1, d1, fl2)")
  case True
  then obtain pair refs fl1 g co1 d1 fl2 where C: "fitted_pair eng calibrate_2d req = Inr pair"
      "commit_pair eng net pair (co_shards co) fl = (Inr refs, fl1)"
      "publish_shards cod eng net env refs co d fl1 = (Inr g, co1, d1, fl2)"
    by blast
  note K = commit_pair_holds [OF assms(1) C(2)] and P = publish_shards_Inr [OF C(3)]
  obtain r co2 where B: "collection (rpc_of eng net fl2) co1 = (r, co2)"
    by (cases "collection (rpc_of eng net fl2) co1")
  have "list_all (holds_pair eng (probed fl2) pair) refs"
    using K P by (auto simp: list_all_iff intro: holds_pair_extends)
  then show ?thesis
    using assms(2) C K P B collection_unbound [OF _ B]
    by (cases "co_shards co = []") (auto simp: fit_calibration_def split: sum.splits)
next
  case False
  then show ?thesis
    using assms(2)
    by (auto simp: fit_calibration_def split: sum.splits prod.splits if_splits dest: publish_shards_Inl)
qed

end
