(* ===== verification/Exactly_Once.thy ===== *)
theory Exactly_Once
  imports Node_Properties
begin

text \<open>
  A retry-safe \<open>Add\<close> is applied exactly once. The client sends the same operation again and again; any
  attempt may meet any fault of the file system or die anywhere, and after a death the server is
  started again on the same data root. The invariant follows two copies of the shard, in memory and
  on disk, each of which is either as before the operation or holds its rows and its record.
\<close>

section \<open>Adding the rows of one operation\<close>

text \<open>What the engine's adds promise.\<close>

definition add_law :: "('q, 'm) engine \<Rightarrow> bool" where
  "add_law eng \<longleftrightarrow>
     (\<forall>q vs dim q'. q_add_2d eng q vs dim = Inr q' \<longrightarrow> q_len eng q' = q_len eng q + length vs div dim) \<and>
     (\<forall>m vs dim ids m'. m_add_with_ids_2d eng m vs dim ids = Inr m' \<longrightarrow> m_len eng m' = m_len eng m + length vs div dim)"

lemma add_chunk_len:
  assumes "add_law eng" and "add_chunk eng ix req = Inr (n, ix')"
  shows "as_u64 (index_len eng ix') = as_u64 (index_len eng ix) + n"
  using assms
  by (auto simp: add_chunk_def add_law_def index_len_def Let_def split: if_splits index.splits sum.splits)

text \<open>The retries of a client: the file system and the fresh names of each attempt and restart.\<close>

fun retry_add ::
    "service_limits \<Rightarrow> ('q, 'm) codec \<Rightarrow> ('q, 'm) engine \<Rightarrow> string \<Rightarrow> (status + add_request) list
     \<Rightarrow> (shard_env \<times> string \<times> string \<times> shard_env) list \<Rightarrow> ('q, 'm) index_store \<Rightarrow> world
     \<Rightarrow> add_response answer list \<times> ('q, 'm) index_store option \<times> world" where
  "retry_add limits cod eng root stream [] st w = ([], Some st, w)"
| "retry_add limits cod eng root stream ((env, u, v, restart_env) # attempts) st w =
     (case node_add limits env cod eng u v stream st w of
        (Died, _, w') \<Rightarrow>
          (case store_open restart_env cod eng root w' of
             (Done st2, w2) \<Rightarrow> apfst ((#) Died) (retry_add limits cod eng root stream attempts st2 w2)
           | (_, w2) \<Rightarrow> ([Died], None, w2))
      | (a, st', w') \<Rightarrow> apfst ((#) a) (retry_add limits cod eng root stream attempts st' w'))"

section \<open>The invariant\<close>

record ('q, 'm) operation =
  op_request :: add_request
  op_rows :: u64
  op_before :: "('q, 'm) index"
  op_after :: "('q, 'm) index"
  op_len :: u64
  op_record :: "ingest_record option"
  op_generation :: u64

abbreviation op_shard :: "('q, 'm) operation \<Rightarrow> string" where
  "op_shard oper \<equiv> ad_index_id (op_request oper)"

text \<open>The record the operation leaves.\<close>

definition recorded :: "('q, 'm) operation \<Rightarrow> ingest_record \<Rightarrow> bool" where
  "recorded oper r \<longleftrightarrow>
     ir_operation_id r = ad_operation_id (op_request oper) \<and>
     Some (ir_expected_len r) = ad_expected_len (op_request oper) \<and> ir_rows r = op_rows oper \<and> ir_len r = op_len oper"

definition disk_before :: "('q, 'm) codec \<Rightarrow> ('q, 'm) engine \<Rightarrow> ('q, 'm) operation \<Rightarrow> files \<Rightarrow> bool" where
  "disk_before cod eng oper fs \<longleftrightarrow>
     stored_shard cod eng fs (op_shard oper) = Some (op_generation oper, op_before oper, None, op_record oper)"

definition disk_after :: "('q, 'm) codec \<Rightarrow> ('q, 'm) engine \<Rightarrow> ('q, 'm) operation \<Rightarrow> files \<Rightarrow> bool" where
  "disk_after cod eng oper fs \<longleftrightarrow>
     (\<exists>g r. stored_shard cod eng fs (op_shard oper) = Some (g, op_after oper, None, Some r) \<and> recorded oper r)"

definition memory_before :: "('q, 'm) operation \<Rightarrow> ('q, 'm) index_store \<Rightarrow> bool" where
  "memory_before oper st \<longleftrightarrow>
     store_get (op_shard oper) st = Some (op_before oper) \<and> store_labels (op_shard oper) st = None \<and>
     store_ingest (op_shard oper) st = op_record oper \<and>
     store_generation (op_shard oper) st = Some (op_generation oper) \<and> reg_root st \<noteq> None"

definition memory_after ::
    "('q, 'm) codec \<Rightarrow> ('q, 'm) engine \<Rightarrow> ('q, 'm) operation \<Rightarrow> files \<Rightarrow> ('q, 'm) index_store \<Rightarrow> bool" where
  "memory_after cod eng oper fs st \<longleftrightarrow>
     store_get (op_shard oper) st = Some (op_after oper) \<and> store_labels (op_shard oper) st = None \<and>
     (\<exists>r. store_ingest (op_shard oper) st = Some r \<and> recorded oper r \<and>
        (store_generation (op_shard oper) st = Some (ir_generation r) \<longrightarrow> disk_after cod eng oper fs)) \<and>
     reg_root st \<noteq> None"

text \<open>A restart that cannot see the shard's directory serves without it (\<open>store_get\<close> is None).\<close>

definition once :: "('q, 'm) codec \<Rightarrow> ('q, 'm) engine \<Rightarrow> ('q, 'm) operation \<Rightarrow> files \<Rightarrow> ('q, 'm) index_store \<Rightarrow> bool" where
  "once cod eng oper fs st \<longleftrightarrow>
     (disk_before cod eng oper fs \<or> disk_after cod eng oper fs) \<and>
     (store_get (op_shard oper) st = None \<or> memory_before oper st \<and> disk_before cod eng oper fs \<or>
      memory_after cod eng oper fs st)"

text \<open>The operation as the client first sends it to a shard whose content is durable.\<close>

definition operation_ok ::
    "service_limits \<Rightarrow> ('q, 'm) engine \<Rightarrow> (status + add_request) list \<Rightarrow> ('q, 'm) operation \<Rightarrow> ('q, 'm) index_store \<Rightarrow> bool" where
  "operation_ok limits eng stream oper st \<longleftrightarrow>
     stage_add limits st stream = Inr (op_request oper, op_rows oper, op_before oper) \<and>
     ad_operation_id (op_request oper) \<noteq> [] \<and>
     decide_ingest st (op_request oper) (op_rows oper) (as_u64 (index_len eng (op_before oper))) = Apply \<and>
     add_chunk eng (op_before oper) (op_request oper) = Inr (op_rows oper, op_after oper) \<and>
     op_len oper = as_u64 (index_len eng (op_before oper)) + op_rows oper \<and>
     memory_before oper st \<and> op_generation oper \<noteq> - 1 \<and> \<not> tombstoned (op_shard oper)"

lemma stage_add_again:
  assumes "stage_add limits st0 stream = Inr (req, rows, ix0)"
  shows "store_get (ad_index_id req) st = None \<Longrightarrow> \<exists>e. stage_add limits st stream = Inl e"
    and "store_get (ad_index_id req) st = Some ix \<Longrightarrow> store_labels (ad_index_id req) st = None \<Longrightarrow>
      reg_root st \<noteq> None \<Longrightarrow> stage_add limits st stream = Inr (req, rows, ix)"
proof -
  obtain first later where stream: "stream = Inr first # later"
      and "validate_vector_frame limits (length (ad_vectors first)) = Inr ()"
      and frames: "stage_frames limits first later = Inr req"
    using assms by (auto simp: stage_add_def Let_def split: list.splits if_splits)
  moreover have "ad_index_id first = ad_index_id req"
    using stage_frames_index [OF frames] by simp
  ultimately show "store_get (ad_index_id req) st = None \<Longrightarrow> \<exists>e. stage_add limits st stream = Inl e"
    by (simp add: stage_add_def node_handle_def)
  have check: "check_operation st0 req rows = Inr () \<Longrightarrow> reg_root st \<noteq> None \<Longrightarrow> check_operation st req rows = Inr ()"
    by (auto simp: check_operation_def split: if_splits)
  show "store_get (ad_index_id req) st = Some ix \<Longrightarrow> store_labels (ad_index_id req) st = None \<Longrightarrow>
      reg_root st \<noteq> None \<Longrightarrow> stage_add limits st stream = Inr (req, rows, ix)"
    using assms stage_add_Inr(7) [OF assms] check \<open>ad_index_id first = ad_index_id req\<close> frames
    by (auto simp: stage_add_def stream Let_def node_handle_def split: if_splits)
qed

lemma decide_ingest_cong:
  "store_ingest (ad_index_id req) st = store_ingest (ad_index_id req) st' \<Longrightarrow>
   decide_ingest st req rows len = decide_ingest st' req rows len"
  by (simp add: decide_ingest_def)

lemma decide_ingest_replay:
  assumes "store_ingest (op_shard oper) st = Some r" and "recorded oper r"
  shows "decide_ingest st (op_request oper) (op_rows oper) (op_len oper) = Replay r"
  using assms by (auto simp: decide_ingest_def recorded_def Let_def split: option.splits)

section \<open>Persisting the operation\<close>

lemma disk_after_persist:
  assumes law: "codec_law cod" and old: "disk_before cod eng oper (w_files w) \<or> disk_after cod eng oper (w_files w)"
    and mem: "store_get (op_shard oper) st = Some (op_after oper)" "store_labels (op_shard oper) st = None"
      "store_ingest (op_shard oper) st = Some r" "recorded oper r"
    and persist: "persist env cod eng u v (op_shard oper) st w = (x, w')"
  shows "disk_before cod eng oper (w_files w') \<or> disk_after cod eng oper (w_files w')"
    and "disk_after cod eng oper (w_files w) \<Longrightarrow> disk_after cod eng oper (w_files w')"
    and "x = Done (g, st') \<Longrightarrow> disk_after cod eng oper (w_files w')"
proof -
  have fits: "label_table_fits (store_labels (op_shard oper) st)"
    by (simp add: mem label_table_fits_def)
  have new: "disk_after cod eng oper (w_files w')" if "x = Done (g, st')" for g st'
    using persist_Done [OF law fits persist [unfolded that]] mem
    by (auto simp: persist_done_def disk_after_def)
  then show "x = Done (g, st') \<Longrightarrow> disk_after cod eng oper (w_files w')" .
  have keep: "stored_shard cod eng (w_files w') (op_shard oper) = stored_shard cod eng (w_files w) (op_shard oper) \<or>
      disk_after cod eng oper (w_files w')"
  proof (cases "\<exists>y. x = Done y")
    case True
    then show ?thesis using new by (metis prod.exhaust)
  next
    case False
    then show ?thesis
      using persist_fault [OF law fits persist] mem by (auto simp: persist_safe_def disk_after_def)
  qed
  then show "disk_before cod eng oper (w_files w') \<or> disk_after cod eng oper (w_files w')"
    using old by (auto simp: disk_before_def disk_after_def)
  show "disk_after cod eng oper (w_files w) \<Longrightarrow> disk_after cod eng oper (w_files w')"
    using keep by (auto simp: disk_after_def)
qed

text \<open>What an attempt leaves, by how it ends.\<close>

definition attempt_ok ::
    "('q, 'm) codec \<Rightarrow> ('q, 'm) engine \<Rightarrow> ('q, 'm) operation \<Rightarrow> world \<Rightarrow> ('q, 'm, add_response) handled \<Rightarrow> bool" where
  "attempt_ok cod eng oper w = (\<lambda>(a, st', w').
     (disk_before cod eng oper (w_files w') \<or> disk_after cod eng oper (w_files w')) \<and>
     (disk_after cod eng oper (w_files w) \<longrightarrow> disk_after cod eng oper (w_files w')) \<and>
     (a \<noteq> Died \<longrightarrow> once cod eng oper (w_files w') st') \<and>
     (\<forall>resp. a = Reply resp \<longrightarrow>
        ar_added resp = op_rows oper \<and> ar_len resp = op_len oper \<and> disk_after cod eng oper (w_files w')))"

lemma attempt_refused:
  "once cod eng oper (w_files w) st \<Longrightarrow> attempt_ok cod eng oper w (Refused e, st, w)"
  by (auto simp: attempt_ok_def once_def)

text \<open>Persisting from a memory that holds the operation.\<close>

lemma attempt_persist:
  assumes "codec_law cod" and "disk_before cod eng oper (w_files w) \<or> disk_after cod eng oper (w_files w)"
    and "store_get (op_shard oper) st = Some (op_after oper)" "store_labels (op_shard oper) st = None"
      "store_ingest (op_shard oper) st = Some r" "recorded oper r" "reg_root st \<noteq> None"
    and fresh: "store_generation (op_shard oper) st \<noteq> Some (ir_generation r)"
    and reply: "\<And>g. ar_added (reply g) = op_rows oper \<and> ar_len (reply g) = op_len oper"
  shows "attempt_ok cod eng oper w
    (on_store internal (persist env cod eng u v (op_shard oper) st) reply st w)"
proof (cases "persist env cod eng u v (op_shard oper) st w")
  case (Pair x w')
  note D = disk_after_persist [OF assms(1-6) Pair]
  have stays: "memory_after cod eng oper (w_files w') st"
    using assms by (simp add: memory_after_def)
  show ?thesis
  proof (cases x)
    case (Done y)
    obtain g st' where y: "y = (g, st')" by (cases y)
    have st': "st' = set_generation (op_shard oper) g st"
      using persist_registry [of env cod eng u v "op_shard oper" st w g st' w'] Pair Done y by simp
    have "disk_after cod eng oper (w_files w')"
      using D(3) Done y by simp
    then have "once cod eng oper (w_files w') st'"
      using assms(3-7) by (auto simp: once_def memory_after_def st')
    then show ?thesis
      using D reply Pair Done y \<open>disk_after cod eng oper (w_files w')\<close> by (simp add: attempt_ok_def on_store_def)
  next
    case (Error m)
    then show ?thesis
      using D(1,2) Pair stays by (simp add: attempt_ok_def on_store_def once_def)
  next
    case Crashed
    then show ?thesis
      using D(1,2) Pair stays by (simp add: attempt_ok_def on_store_def once_def)
  qed
qed

section \<open>One attempt\<close>

lemma attempt_before:
  assumes law: "codec_law cod" and op: "operation_ok limits eng stream oper st0"
    and mem: "memory_before oper st" and disk: "disk_before cod eng oper (w_files w)"
  shows "attempt_ok cod eng oper w (node_add limits env cod eng u v stream st w)"
proof -
  let ?req = "op_request oper" and ?sid = "op_shard oper"
  have M: "store_get ?sid st = Some (op_before oper)" "store_labels ?sid st = None"
      "store_ingest ?sid st = op_record oper" "store_generation ?sid st = Some (op_generation oper)" "reg_root st \<noteq> None"
    using mem by (simp_all add: memory_before_def)
  have O: "stage_add limits st0 stream = Inr (?req, op_rows oper, op_before oper)" "ad_operation_id ?req \<noteq> []"
      "decide_ingest st0 ?req (op_rows oper) (as_u64 (index_len eng (op_before oper))) = Apply"
      "add_chunk eng (op_before oper) ?req = Inr (op_rows oper, op_after oper)"
      "op_len oper = as_u64 (index_len eng (op_before oper)) + op_rows oper"
      "store_ingest ?sid st0 = op_record oper" "op_generation oper \<noteq> - 1"
    using op by (simp_all add: operation_ok_def memory_before_def)
  have stage: "stage_add limits st stream = Inr (?req, op_rows oper, op_before oper)"
    using stage_add_again(2) [OF O(1) M(1,2,5)] .
  have decide: "decide_ingest st ?req (op_rows oper) (as_u64 (index_len eng (op_before oper))) = Apply"
    using decide_ingest_cong [of ?req st st0] O(3,6) M(3) by simp
  have "unat (op_generation oper) + unat (1 :: u64) < 2 ^ 64"
  proof -
    have "unat (op_generation oper) \<noteq> unat (- 1 :: u64)"
      using O(7) by (simp only: word_unat_eq_iff [symmetric] not_False_eq_True)
    moreover have "unat (- 1 :: u64) = 2 ^ 64 - 1" "unat (op_generation oper) < 2 ^ 64"
      using unsigned_less [of "op_generation oper", where ?'a = nat] by (simp_all add: unsigned_minus_1_eq_mask mask_eq_exp_minus_1)
    ultimately show ?thesis by simp
  qed
  then have next_gen: "checked_add_u64 (op_generation oper) 1 = Some (op_generation oper + 1)"
    by (simp add: checked_add_u64_def)
  obtain expected where expected: "ad_expected_len ?req = Some expected"
    using stage_add_Inr(7) [OF stage] O(2) by (auto simp: check_operation_def split: if_splits)
  let ?st1 = "set_index ?sid (op_after oper) st"
  let ?r = "\<lparr>ir_operation_id = ad_operation_id ?req, ir_expected_len = expected, ir_rows = op_rows oper,
      ir_len = op_len oper, ir_generation = op_generation oper + 1\<rparr>"
  let ?st2 = "set_ingest_record ?sid ?r ?st1"
  have run: "node_add limits env cod eng u v stream st w =
      on_store internal (persist env cod eng u v ?sid ?st2)
        (added_response ?req (op_rows oper) (op_len oper) False) ?st2 w"
    using O(2,4,5) M(4)
    by (simp add: node_add_def stage decide apply_ingest_def ingest_record_for_def next_gen expected Let_def)
  show ?thesis
    unfolding run
    by (rule attempt_persist [OF law disjI1 [OF disk], where r = ?r])
      (use M O expected in \<open>simp_all add: recorded_def added_response_def\<close>)
qed

lemma attempt_after:
  assumes law: "codec_law cod" and add: "add_law eng" and op: "operation_ok limits eng stream oper st0"
    and mem: "memory_after cod eng oper (w_files w) st"
    and disk: "disk_before cod eng oper (w_files w) \<or> disk_after cod eng oper (w_files w)"
  shows "attempt_ok cod eng oper w (node_add limits env cod eng u v stream st w)"
proof -
  let ?req = "op_request oper" and ?sid = "op_shard oper"
  obtain r where M: "store_get ?sid st = Some (op_after oper)" "store_labels ?sid st = None"
      "store_ingest ?sid st = Some r" "recorded oper r" "reg_root st \<noteq> None"
      "store_generation ?sid st = Some (ir_generation r) \<longrightarrow> disk_after cod eng oper (w_files w)"
    using mem by (auto simp: memory_after_def)
  have O: "stage_add limits st0 stream = Inr (?req, op_rows oper, op_before oper)" "ad_operation_id ?req \<noteq> []"
      "add_chunk eng (op_before oper) ?req = Inr (op_rows oper, op_after oper)"
      "op_len oper = as_u64 (index_len eng (op_before oper)) + op_rows oper"
    using op by (simp_all add: operation_ok_def)
  have stage: "stage_add limits st stream = Inr (?req, op_rows oper, op_after oper)"
    using stage_add_again(2) [OF O(1) M(1,2,5)] .
  have "as_u64 (index_len eng (op_after oper)) = op_len oper"
    using add_chunk_len [OF add O(3)] O(4) by simp
  then have decide: "decide_ingest st ?req (op_rows oper) (as_u64 (index_len eng (op_after oper))) = Replay r"
    using decide_ingest_replay [OF M(3,4)] by simp
  have run: "node_add limits env cod eng u v stream st w = replay_ingest env cod eng u v ?req (op_rows oper) r st w"
    using O(2) by (simp add: node_add_def stage decide Let_def)
  have len: "ir_len r = op_len oper"
    using M(4) by (simp add: recorded_def)
  show ?thesis
  proof (cases "store_generation ?sid st = Some (ir_generation r)")
    case True
    then show ?thesis
      using mem disk len M(6)
      by (simp add: run replay_ingest_def attempt_ok_def once_def added_response_def)
  next
    case False
    then have "replay_ingest env cod eng u v ?req (op_rows oper) r st w =
        on_store internal (persist env cod eng u v ?sid st) (added_response ?req (op_rows oper) (ir_len r) True) st w"
      by (simp add: replay_ingest_def)
    then show ?thesis
      unfolding run
      by (simp only:)
        (rule attempt_persist [OF law disk M(1-5) False], simp add: added_response_def len)
  qed
qed

lemma attempt:
  assumes "codec_law cod" and "add_law eng" and "operation_ok limits eng stream oper st0"
    and J: "once cod eng oper (w_files w) st"
  shows "attempt_ok cod eng oper w (node_add limits env cod eng u v stream st w)"
proof (cases "store_get (op_shard oper) st = None")
  case True
  then obtain e where "stage_add limits st stream = Inl e"
    using stage_add_again(1) [of limits st0 stream] assms(3) by (force simp: operation_ok_def)
  then show ?thesis
    using attempt_refused [OF J] by (simp add: node_add_def)
next
  case False
  then show ?thesis
    using J attempt_before [OF assms(1,3)] attempt_after [OF assms(1-3)] by (auto simp: once_def)
qed

section \<open>A restart\<close>

text \<open>An open changes nothing but tombstoned directories, even when it fails or dies.\<close>

lemma keeps_reads: "(\<And>fs. reads_spec a fs (s fs)) \<Longrightarrow> keeps P (a env)"
  unfolding keeps_def triple_def
proof (intro allI impI)
  fix w :: world
  assume R: "\<And>fs. reads_spec a fs (s fs)" and P: "P (w_files w)"
  obtain r n where "a env w = (r, w\<lparr>w_calls := n\<rparr>)"
    using R [of "w_files w"] unfolding reads_spec_def by blast
  with P show "case a env w of (Done x, w') \<Rightarrow> P (w_files w') | (_, w') \<Rightarrow> P (w_files w')"
    by (cases r) simp_all
qed

lemma keeps_lift_result: "keeps P (lift_result r)"
  by (cases r) (auto simp: lift_result_def intro: keeps_intros)

lemma keeps_if: "keeps P a \<Longrightarrow> keeps P c \<Longrightarrow> keeps P (if b then a else c)"
  by simp

lemma keeps_triple: "(\<And>x y z. keeps P (f x y z)) \<Longrightarrow> keeps P (case t of (x, y, z) \<Rightarrow> f x y z)"
  by (cases t) simp

lemma keeps_restore_dir: "keeps (same_shards fs0) (restore_dir env cod eng root sid st)"
proof (cases "tombstoned sid")
  case True
  have other: "same_shards fs0 fs'"
    if "\<And>q. \<not> prefix [sid] q \<Longrightarrow> node_at fs' q = node_at fs q" "same_shards fs0 fs" for fs fs' :: files
    unfolding same_shards_def
  proof (intro allI impI)
    fix s p
    assume s: "\<not> tombstoned s"
    then have "\<not> prefix [sid] (s # p)"
      using True by auto
    then show "node_at fs' (s # p) = node_at fs0 (s # p)"
      using that s by (simp add: same_shards_def)
  qed
  have "keeps (same_shards fs0) (syscall env (RemoveAll [sid]) msg)" for msg
    unfolding keeps_def by (rule triple_remove_all) (use other in blast)+
  then show ?thesis
    using True unfolding restore_dir_def tombstoned_def [symmetric]
    by (simp only: if_True) (intro keeps_intros)
next
  case False
  have "keeps P (restore_current env root sid)" "keeps P (restore_generation env cod eng root sid g)" for P g
    using keeps_reads [of "\<lambda>env. restore_current env root sid", OF reads_restore_current]
      keeps_reads [of "\<lambda>env. restore_generation env cod eng root sid g", OF reads_restore_generation] by blast+
  then show ?thesis
    using False unfolding restore_dir_def tombstoned_def [symmetric]
    by (simp only: if_False) (intro keeps_then keeps_lift_result keeps_if keeps_triple keeps_basic)
qed

lemma keeps_restore_dirs: "keeps (same_shards fs0) (restore_dirs env cod eng root sids st)"
  by (induction sids arbitrary: st) (simp_all add: keeps_intros keeps_restore_dir)

lemma keeps_store_open: "keeps (same_shards fs0) (store_open env cod eng root)"
proof -
  have made: "keeps (same_shards fs0) (syscall env (MkDirAll []) msg)" for msg
    unfolding keeps_def by (rule triple_syscall) (auto split: if_splits)
  have dirs: "keeps (same_shards fs0) (\<lambda>w. restore_dirs env cod eng root (shard_dirs (w_files w)) st w)" for st
    by (rule keeps_files [OF keeps_restore_dirs])
  show ?thesis
    unfolding store_open_def restore_all_def
    by (intro keeps_then keeps_basic made dirs)
qed

lemma open_same_shards:
  assumes "store_open env cod eng root w = (x, w')"
  shows "same_shards (w_files w) (w_files w')"
proof -
  have "same_shards (w_files w) (w_files w)"
    by (simp add: same_shards_def)
  then show ?thesis
    using keeps_store_open [of "w_files w" env cod eng root, unfolded keeps_def triple_def, THEN spec [of _ w]] assms
    by (cases x) simp_all
qed

lemma open_same_content:
  assumes "store_open env cod eng root w = (x, w')" and "\<not> tombstoned s"
  shows "stored_shard cod eng (w_files w') s = stored_shard cod eng (w_files w) s"
  using same_content_stored [OF same_shards_content [OF open_same_shards [OF assms(1)] assms(2)]] by blast

lemma restart_once:
  assumes op: "operation_ok limits eng stream oper st0"
    and disk: "disk_before cod eng oper (w_files w) \<or> disk_after cod eng oper (w_files w)"
    and open_: "store_open env cod eng root w = (Done st, w')"
  shows "once cod eng oper (w_files w') st"
    and "disk_after cod eng oper (w_files w) \<Longrightarrow> disk_after cod eng oper (w_files w')"
proof -
  let ?sid = "op_shard oper"
  have "\<not> tombstoned ?sid"
    using op by (simp add: operation_ok_def)
  then have same: "stored_shard cod eng (w_files w') ?sid = stored_shard cod eng (w_files w) ?sid"
    using open_same_content [OF open_] by blast
  then show "disk_after cod eng oper (w_files w) \<Longrightarrow> disk_after cod eng oper (w_files w')"
    by (simp add: disk_after_def)
  have "mirrors_shard cod eng (w_files w) st ?sid"
    using store_open_Done(1) [OF open_] by (simp add: mirrors_def)
  moreover have "reg_root st = Some root"
    using store_open_Done(2) [OF open_] .
  ultimately show "once cod eng oper (w_files w') st"
    using disk
    by (auto simp: once_def same disk_before_def disk_after_def memory_before_def memory_after_def mirrors_shard_def
        split: option.splits)
qed

section \<open>Exactly once\<close>

text \<open>What the retries of an operation show and leave.\<close>

definition applied_once ::
    "('q, 'm) codec \<Rightarrow> ('q, 'm) engine \<Rightarrow> ('q, 'm) operation \<Rightarrow> add_response answer list
     \<Rightarrow> ('q, 'm) index_store option \<Rightarrow> files \<Rightarrow> bool" where
  "applied_once cod eng oper replies st fs \<longleftrightarrow>
     (disk_before cod eng oper fs \<or> disk_after cod eng oper fs) \<and>
     (\<forall>s. st = Some s \<longrightarrow> store_get (op_shard oper) s \<in> {None, Some (op_before oper), Some (op_after oper)}) \<and>
     (\<forall>resp. Reply resp \<in> set replies \<longrightarrow>
        ar_added resp = op_rows oper \<and> ar_len resp = op_len oper \<and> disk_after cod eng oper fs)"

lemma retry_add_once:
  assumes "codec_law cod" and "add_law eng" and "operation_ok limits eng stream oper st0"
    and "once cod eng oper (w_files w) st"
    and "retry_add limits cod eng root stream attempts st w = (replies, st', w')"
  shows "applied_once cod eng oper replies st' (w_files w') \<and>
    (disk_after cod eng oper (w_files w) \<longrightarrow> disk_after cod eng oper (w_files w'))"
  using assms(4,5)
proof (induction attempts arbitrary: st w replies)
  case Nil
  then show ?case
    by (auto simp: applied_once_def once_def memory_before_def memory_after_def)
next
  case (Cons at attempts)
  have tomb: "\<not> tombstoned (op_shard oper)"
    using assms(3) by (simp add: operation_ok_def)
  obtain env u v renv where at: "at = (env, u, v, renv)" by (cases at)
  obtain a st1 w1 where A: "node_add limits env cod eng u v stream st w = (a, st1, w1)"
    by (cases "node_add limits env cod eng u v stream st w") auto
  have ok: "attempt_ok cod eng oper w (a, st1, w1)"
    using attempt [OF assms(1-3) Cons.prems(1), of env u v] A by simp
  show ?case
  proof (cases "a = Died")
    case True
    obtain x w2 where O: "store_open renv cod eng root w1 = (x, w2)"
      by (cases "store_open renv cod eng root w1")
    show ?thesis
    proof (cases x)
      case (Done st2)
      note R = restart_once [OF assms(3) _ O [unfolded Done]]
      obtain rs where "replies = Died # rs" "retry_add limits cod eng root stream attempts st2 w2 = (rs, st', w')"
        using Cons.prems(2) A O Done True by (auto simp: at apfst_def map_prod_def split: prod.splits)
      then show ?thesis
        using Cons.IH R ok by (fastforce simp: attempt_ok_def applied_once_def)
    qed (use open_same_content [OF O tomb] Cons.prems(2) A O True ok in
        \<open>auto simp: at attempt_ok_def applied_once_def disk_before_def disk_after_def\<close>)
  next
    case False
    obtain rs where "replies = a # rs" "retry_add limits cod eng root stream attempts st1 w1 = (rs, st', w')"
      using Cons.prems(2) A False by (cases a) (auto simp: at apfst_def map_prod_def split: prod.splits)
    then show ?thesis
      using Cons.IH ok False by (fastforce simp: attempt_ok_def applied_once_def)
  qed
qed

text \<open>
  C23. A retry-safe \<open>Add\<close> is applied exactly once: over any number of attempts with the same operation,
  each with any fault of the file system, any moment of death and a restart on the same data root, the
  shard holds in memory and on disk its rows either as before or with the operation's rows added
  once; and as soon as one attempt is answered with success, the answer names the rows and the length
  after one application and the disk holds the applied rows with the operation's record for good.
\<close>

theorem retry_safe_add_exactly_once:
  assumes "codec_law cod" and "add_law eng" and "operation_ok limits eng stream oper st"
    and "disk_before cod eng oper (w_files w)"
    and "retry_add limits cod eng root stream attempts st w = (replies, st', w')"
  shows "applied_once cod eng oper replies st' (w_files w')"
proof -
  have "once cod eng oper (w_files w) st"
    using assms(3,4) by (simp add: once_def operation_ok_def)
  then show ?thesis
    using retry_add_once [OF assms(1-3) _ assms(5)] by blast
qed

section \<open>A call that is dropped half way\<close>

text \<open>
  C26. Dropping the call breaks the retry: when the client goes away while the rows of a first attempt
  are being added, the rows stay in the index without the operation's record, and every retry is
  refused as \<open>Aborted\<close> until something else changes the shard; the operation can be neither repeated
  nor recognised.
\<close>

theorem dropped_add_refuses_retry:
  assumes "add_law eng" and "operation_ok limits eng stream oper st" and "op_rows oper \<noteq> 0"
  defines "st' \<equiv> node_add_dropped limits eng stream st"
  shows "store_get (op_shard oper) st' = Some (op_after oper) \<and> store_ingest (op_shard oper) st' = op_record oper \<and>
    (\<forall>env cod u v w. \<exists>m. node_add limits env cod eng u v stream st' w = (Refused (mk_status Aborted m), st', w))"
proof -
  let ?req = "op_request oper" and ?sid = "op_shard oper"
  have O: "stage_add limits st stream = Inr (?req, op_rows oper, op_before oper)" "ad_operation_id ?req \<noteq> []"
      "decide_ingest st ?req (op_rows oper) (as_u64 (index_len eng (op_before oper))) = Apply"
      "add_chunk eng (op_before oper) ?req = Inr (op_rows oper, op_after oper)"
      "store_ingest ?sid st = op_record oper" "store_labels ?sid st = None" "reg_root st \<noteq> None"
    using assms(2) by (simp_all add: operation_ok_def memory_before_def)
  have st': "st' = set_index ?sid (op_after oper) st"
    by (simp add: st'_def node_add_dropped_def O)
  have stage: "stage_add limits st' stream = Inr (?req, op_rows oper, op_after oper)"
    using O(6,7) by (intro stage_add_again(2) [OF O(1)]) (simp_all add: st')
  have "as_u64 (index_len eng (op_after oper)) \<noteq> as_u64 (index_len eng (op_before oper))"
    using add_chunk_len [OF assms(1) O(4)] assms(3) by simp
  then have "\<exists>m. decide_ingest st' ?req (op_rows oper) (as_u64 (index_len eng (op_after oper))) =
      Conflict (mk_status Aborted m)"
    using O(3) by (auto simp: decide_ingest_def st' Let_def split: option.splits if_splits)
  then show ?thesis
    using O(2,5) by (auto simp: node_add_def stage Let_def) (simp_all add: st')
qed

end
