(* ===== verification/Node_Examples.thy ===== *)
theory Node_Examples
  imports Exactly_Once Shard_Examples
begin

text \<open>
  The node run on a concrete engine: an index is its number of rows (at most 255), all of whose codes,
  scales and scores are zero, and a file format for one shard of it.
\<close>

definition tiny_slots :: "u8 \<Rightarrow> nat \<Rightarrow> bool list option \<Rightarrow> nat list" where
  "tiny_slots q k flags =
     take k (filter (\<lambda>i. case flags of None \<Rightarrow> True | Some f \<Rightarrow> f ! i) [0..<unat q])"

definition tiny_engine :: "(u8, unit) engine" where
  "tiny_engine =
     \<lparr>q_len = unat, q_dim_opt = (\<lambda>_. Some 8), q_bit_width = (\<lambda>_. 1), q_packed_codes = (\<lambda>q. replicate (unat q) 0),
      q_scales = (\<lambda>q. replicate (unat q) (F32 0)), q_tqplus_shift = (\<lambda>_. []), q_tqplus_scale = (\<lambda>_. []),
      q_calibration_state = (\<lambda>_. Uncalibrated),
      q_from_parts = (\<lambda>dim bw n codes scales shift scale.
        if dim = Some 8 \<and> bw = 1 \<and> n < 256 \<and> codes = replicate n 0 \<and> scales = replicate n (F32 0) \<and>
           shift = [] \<and> scale = []
        then Inr (word_of_nat n) else Inl ''unsupported parts''),
      q_new = (\<lambda>_ _. Inr 0), q_new_lazy = (\<lambda>_. Inr 0),
      q_add_2d = (\<lambda>q vs dim. if unat q + length vs div dim < 256 then Inr (q + word_of_nat (length vs div dim))
        else Inl ''full''),
      q_search = (\<lambda>q qs k flags. Some (replicate (length qs div 8)
        (replicate (length (tiny_slots q k flags)) (F32 0), map int (tiny_slots q k flags)))),
      m_len = (\<lambda>_. 0), m_dim_opt = (\<lambda>_. None), m_bit_width = (\<lambda>_. 4), m_calibration_state = (\<lambda>_. Uncalibrated),
      m_contains = (\<lambda>_ _. False), m_new = (\<lambda>_ _. Inr ()), m_new_lazy = (\<lambda>_. Inr ()),
      m_add_with_ids_2d = (\<lambda>_ _ _ _. Inl ''unsupported''), m_remove = (\<lambda>_ _. (False, ())),
      m_search = (\<lambda>_ _ _. None), m_search_with_allowlist = (\<lambda>_ _ _ _. None), first_invalid_coord = (\<lambda>_ _. None)\<rparr>"

lemma tiny_engine_len: "unat (q :: u8) < 2 ^ 64" "unat (q :: u8) < 256"
  using unsigned_less [of q, where ?'a = nat] by simp_all

lemma int_less_uint: "s < unat q \<Longrightarrow> int s < uint (q :: u8)"
  using of_nat_less_iff [where 'a = int, of s "unat q"] by simp

lemma tiny_search_laws: "search_laws tiny_engine"
proof -
  have "answers (unat q) k flags
      (replicate (length (tiny_slots q k flags)) (F32 0), map int (tiny_slots q k flags))" for q :: u8 and k flags
    by (auto simp: int_less_uint answers_def tiny_slots_def list_all_iff distinct_map inj_on_def dest!: in_set_takeD split: option.splits)
  then show ?thesis
    by (auto simp: search_laws_def tiny_engine_def list_all_iff)
qed

lemma tiny_engine_laws: "engine_laws tiny_engine"
  using tiny_search_laws tiny_engine_len
  by (auto simp: engine_laws_def raw_parts_law_def well_shaped_def bytes_per_row_def tiny_engine_def
      unat_of_nat take_bit_nat_eq_self split: if_splits)

lemma tiny_add_law: "add_law tiny_engine"
  by (auto simp: add_law_def tiny_engine_def unat_word_ariths unat_of_nat take_bit_nat_eq_self split: if_splits)


definition tiny_record :: ingest_record where
  "tiny_record =
     \<lparr>ir_operation_id = ''o'', ir_expected_len = 1, ir_rows = 2, ir_len = 3, ir_generation = 2\<rparr>"

definition tiny_manifest :: "u64 \<Rightarrow> u8 \<Rightarrow> bool \<Rightarrow> shard_manifest" where
  "tiny_manifest g q applied =
     manifest_for tiny_engine ''s'' g (Positional q)
       \<lparr>pf_index_bytes = 1, pf_index_crc32 = 7, pf_labelled = False, pf_labels_count = 0, pf_labels_crc32 = 0\<rparr>
       (if applied then Some tiny_record else None)"

definition tiny_codec :: "(u8, unit) codec" where
  "tiny_codec =
     \<lparr>write_positional = (\<lambda>q. [q]), load_positional = (\<lambda>d. case d of [q] \<Rightarrow> Inr q | _ \<Rightarrow> Inl ''bad index''),
      write_id_map = (\<lambda>_. []), load_id_map = (\<lambda>_. Inr ()), crc32 = (\<lambda>_. 7),
      encode_manifest = (\<lambda>m.
        let q = word_of_nat (sm_rows m); applied = (sm_last_ingest m \<noteq> None) in
        if m = tiny_manifest (sm_generation m) q applied
        then Inr ([q, if applied then 1 else 0] @ u64_to_le_bytes (sm_generation m)) else Inl ''unsupported''),
      decode_manifest = (\<lambda>d. case d of
          q # flag # g \<Rightarrow> Inr (tiny_manifest (u64_from_le_bytes g) q (flag = 1))
        | _ \<Rightarrow> Inl ''bad manifest'')\<rparr>"

lemma tiny_codec_law: "codec_law tiny_codec"
  by (auto simp: codec_law_def tiny_codec_def Let_def split: if_splits)

text \<open>A shard of one row, durable in generation 1.\<close>

definition tiny_store :: "u64 \<Rightarrow> (u8, unit) index_store" where
  "tiny_store g =
     \<lparr>reg_inner = [(''s'', Positional 1)], reg_labels = [], reg_generations = [(''s'', g)],
      reg_ingests = [], reg_root = Some ''/d''\<rparr>"

definition tiny_disk :: world where
  "tiny_disk = restarted (snd (persist quiet tiny_codec tiny_engine ''t'' ''c'' ''s'' (tiny_store 0) no_files))"

text \<open>Two rows under the operation \<open>o\<close>, in two frames.\<close>

definition tiny_add :: "(status + add_request) list" where
  "tiny_add =
     (let frame = \<lparr>ad_index_id = ''s'', ad_dim = 8, ad_vectors = replicate 8 (F32 0), ad_ids = [],
        ad_operation_id = ''o'', ad_expected_len = Some 1, ad_expected_rows = 2\<rparr>
      in [Inr frame, Inr frame])"

definition tiny_operation :: "(u8, unit) operation" where
  "tiny_operation =
     \<lparr>op_request = \<lparr>ad_index_id = ''s'', ad_dim = 8, ad_vectors = replicate 16 (F32 0), ad_ids = [],
        ad_operation_id = ''o'', ad_expected_len = Some 1, ad_expected_rows = 2\<rparr>,
      op_rows = 2, op_before = Positional 1, op_after = Positional 3, op_len = 3, op_record = None, op_generation = 1\<rparr>"

definition tiny_limits :: service_limits where
  "tiny_limits =
     \<lparr>max_k = 1000, max_queries_per_request = 64, max_vector_coordinates_per_frame = 4000,
      max_concurrent_scans = 1\<rparr>"

text \<open>The first attempt dies after \<open>CURRENT\<close> was replaced, the second is a replay.\<close>

definition tiny_retries ::
    "add_response answer list \<times> (u8, unit) index_store option \<times> world" where
  "tiny_retries =
     retry_add tiny_limits tiny_codec tiny_engine ''/d'' tiny_add
       [(dies_at 18, ''t'', ''c'', quiet), (quiet, ''t'', ''c'', quiet)] (tiny_store 1) tiny_disk"

lemma tiny_replies: "fst tiny_retries =
    [Died, Reply \<lparr>ar_added = 2, ar_len = 3, ar_generation = 2, ar_replayed = True, ar_operation_id = ''o''\<rparr>]"
  by code_simp

lemma tiny_operation_ok: "operation_ok tiny_limits tiny_engine tiny_add tiny_operation (tiny_store 1)"
proof -
  have "stage_add tiny_limits (tiny_store 1) tiny_add =
      Inr (op_request tiny_operation, op_rows tiny_operation, op_before tiny_operation)"
    by code_simp
  moreover have "decide_ingest (tiny_store 1) (op_request tiny_operation) (op_rows tiny_operation)
      (as_u64 (index_len tiny_engine (op_before tiny_operation))) = Apply"
    by code_simp
  moreover have "add_chunk tiny_engine (op_before tiny_operation) (op_request tiny_operation) =
      Inr (op_rows tiny_operation, op_after tiny_operation)"
    by code_simp
  moreover have "op_len tiny_operation = as_u64 (index_len tiny_engine (op_before tiny_operation)) + op_rows tiny_operation"
    by code_simp
  moreover have "memory_before tiny_operation (tiny_store 1)"
    by code_simp
  moreover have "ad_operation_id (op_request tiny_operation) \<noteq> [] \<and> op_generation tiny_operation \<noteq> - 1 \<and>
      \<not> tombstoned (op_shard tiny_operation)"
    by code_simp
  ultimately show ?thesis
    by (simp add: operation_ok_def)
qed

lemma tiny_disk_before: "disk_before tiny_codec tiny_engine tiny_operation (w_files tiny_disk)"
  by code_simp

theorem retry_safe_add_exactly_once_witness:
  "fst tiny_retries =
     [Died, Reply \<lparr>ar_added = 2, ar_len = 3, ar_generation = 2, ar_replayed = True, ar_operation_id = ''o''\<rparr>] \<and>
   applied_once tiny_codec tiny_engine tiny_operation (fst tiny_retries) (fst (snd tiny_retries))
     (w_files (snd (snd tiny_retries)))"
proof -
  have "retry_add tiny_limits tiny_codec tiny_engine ''/d'' tiny_add
      [(dies_at 18, ''t'', ''c'', quiet), (quiet, ''t'', ''c'', quiet)] (tiny_store 1) tiny_disk =
      (fst tiny_retries, fst (snd tiny_retries), snd (snd tiny_retries))"
    by (simp add: tiny_retries_def)
  from retry_safe_add_exactly_once [OF tiny_codec_law tiny_add_law tiny_operation_ok tiny_disk_before this]
  show ?thesis
    using tiny_replies by simp
qed

theorem dropped_add_refuses_retry_witness:
  "store_get ''s'' (node_add_dropped tiny_limits tiny_engine tiny_add (tiny_store 1)) = Some (Positional 3) \<and>
   (\<exists>m. fst (node_add tiny_limits quiet tiny_codec tiny_engine ''t'' ''c'' tiny_add
     (node_add_dropped tiny_limits tiny_engine tiny_add (tiny_store 1)) tiny_disk) = Refused (mk_status Aborted m))"
proof -
  have names: "op_shard tiny_operation = ''s''" "op_after tiny_operation = Positional 3" "op_rows tiny_operation \<noteq> 0"
    by (simp_all add: tiny_operation_def)
  show ?thesis
    using dropped_add_refuses_retry [OF tiny_add_law tiny_operation_ok names(3)] names by (metis fst_conv)
qed

section \<open>A history of the tiny node\<close>

definition tiny_calls :: "(shard_env \<times> node_call) list" where
  "tiny_calls =
     [(quiet, SearchRows \<lparr>se_index_id = ''s'', se_queries = replicate 8 (F32 0), se_k = 2, se_allowlist = []\<rparr>),
      (quiet, AddRows ''t'' ''c'' tiny_add),
      (quiet, CreateIndex ''n'' \<lparr>ci_dim = 8, ci_bit_width = 4, ci_kind = 1, ci_lazy = False\<rparr>),
      (quiet, RemoveRow ''s'' 1),
      (\<lambda>_ _. Dies 0, FlushIndex ''t'' ''c'' ''s'')]"

definition tiny_started :: world where
  "tiny_started = snd (store_open quiet tiny_codec tiny_engine ''/d'' tiny_disk)"

definition tiny_run :: "node_reply answer list \<times> (u8, unit) index_store \<times> world" where
  "tiny_run = node_run tiny_limits tiny_codec tiny_engine tiny_calls (tiny_store 1) tiny_started"

lemma tiny_history: "fst tiny_run =
    [Reply (Found [\<lparr>qr_scores = [F32 0], qr_ids = [0], qr_labels = []\<rparr>]),
     Reply (Added \<lparr>ar_added = 2, ar_len = 3, ar_generation = 2, ar_replayed = False, ar_operation_id = ''o''\<rparr>),
     Reply (Registered ''n'' \<lparr>info_index_id = ''n'', info_kind = 1, info_dim = 8, info_bit_width = 1, info_len = 0,
       info_calibration_state = 1, info_labelled = False, info_generation = 0\<rparr>),
     Refused (failed_precondition [Lit ''remove requires an ID_MAP index'']),
     Died]"
  by code_simp

theorem node_history_safe_witness:
  "registry_ok tiny_engine (fst (snd tiny_run)) \<and> length (fst tiny_run) = 5 \<and> last (fst tiny_run) = Died"
proof -
  let ?o = "store_open quiet tiny_codec tiny_engine ''/d'' tiny_disk"
  have "fst ?o = Done (tiny_store 1)"
    by code_simp
  then have o: "?o = (Done (tiny_store 1), tiny_started)"
    by (simp add: prod_eq_iff tiny_started_def)
  have fresh: "history_fresh tiny_limits tiny_codec tiny_engine tiny_calls (tiny_store 1) tiny_started"
    by code_simp
  have "node_run tiny_limits tiny_codec tiny_engine tiny_calls (tiny_store 1) tiny_started =
      (fst tiny_run, fst (snd tiny_run), snd (snd tiny_run))"
    by (simp add: tiny_run_def)
  from node_history_safe [OF tiny_engine_laws o fresh this] show ?thesis
    by (simp add: tiny_history)
qed

section \<open>A filtered search\<close>

definition tiny_search :: search_request where
  "tiny_search = \<lparr>se_index_id = ''s'', se_queries = replicate 8 (F32 0), se_k = 2, se_allowlist = [0]\<rparr>"

theorem node_search_answers_witness:
  "\<exists>rs. fst (node_search tiny_limits tiny_engine tiny_search (tiny_store 1) tiny_disk) = Reply rs \<and> length rs = 1 \<and>
     list_all (\<lambda>r. list_all (\<lambda>i. i = 0) (qr_ids r)) rs"
proof -
  let ?s = "node_search tiny_limits tiny_engine tiny_search (tiny_store 1) tiny_disk"
  have reply: "fst ?s = Reply [\<lparr>qr_scores = [F32 0], qr_ids = [0], qr_labels = []\<rparr>]"
    by code_simp
  have "registry_ok tiny_engine (tiny_store 1)"
    by (auto simp: registry_ok_def shard_ok_def tiny_store_def store_get_def store_labels_def store_generation_def
        store_ingest_def labels_cover_def)
  then have "snd ?s = (tiny_store 1, tiny_disk) \<and> (\<exists>ix dim. index_dim_opt tiny_engine ix = Some dim \<and>
      length [()] = length (se_queries tiny_search) div dim)"
    using node_search_answers [OF tiny_engine_laws, of "tiny_store 1" tiny_limits tiny_search tiny_disk "fst ?s"
        "fst (snd ?s)" "snd (snd ?s)"] reply
    by (auto simp: prod_eq_iff)
  with reply show ?thesis
    by simp
qed

end
