(* ===== verification/Reshape_Examples.thy ===== *)
theory Reshape_Examples
  imports Reshape_Properties Node_Examples
begin

text \<open>
  A split, a join, a tick and a calibration on two small nodes: the node \<open>http://a\<close> serves an index of
  three rows, \<open>http://b\<close> is empty.
\<close>

definition small_store :: "(u8, unit) index_store" where
  "small_store = \<lparr>reg_inner = [(''s'', Positional 3)], reg_labels = [], reg_generations = [(''s'', 1)],
     reg_ingests = [], reg_root = None\<rparr>"

text \<open>After \<open>n\<close> calls that changed nothing.\<close>

definition small_fleet :: "nat \<Rightarrow> (u8, unit) fleet" where
  "small_fleet n = \<lparr>fl_nodes = [''http://a'' \<mapsto> (small_store, no_files), ''http://b'' \<mapsto> (empty_store None, no_files)],
     fl_calls = n\<rparr>"

definition calm :: network where
  "calm = \<lparr>net_dial = (\<lambda>_. Inr ()), net_fault = (\<lambda>_. None), net_down = mk_status Unavailable [],
     net_uuid = (\<lambda>_. ''i''), net_uuid2 = (\<lambda>_. ''j''), net_fs = (\<lambda>_. quiet)\<rparr>"

definition small_coordinator :: coordinator where
  "small_coordinator = \<lparr>co_generation = 1, co_shards = [with_index ''http://a'' ''s''], co_path = None,
     co_spares = [''http://b''], co_pinned = None,
     co_limits = example_limits,
     co_generation_gauge = 1\<rparr>"

lemma small_fleet_ok: "fleet_ok tiny_engine (small_fleet n)" "dims_bound tiny_engine (small_fleet n)"
proof -
  have "registry_ok tiny_engine small_store"
    by (auto simp: registry_ok_def shard_ok_def small_store_def store_get_def store_labels_def store_generation_def
        store_ingest_def labels_cover_def)
  then show "fleet_ok tiny_engine (small_fleet n)"
    by (auto simp: fleet_ok_def small_fleet_def split: if_splits)
  show "dims_bound tiny_engine (small_fleet n)"
    by (simp add: dims_bound_def tiny_engine_def)
qed

definition no_topology_file :: disk where
  "no_topology_file = \<lparr>state_file = None, temp_file = None\<rparr>"

definition small_split :: split_request where
  "small_split = \<lparr>sp_source = Some (mk_shard_ref ''http://a'' ''s''), sp_targets = [''http://a'', ''http://b''],
     sp_row_counts = []\<rparr>"

definition split_run where
  "split_run = split tiny_codec tiny_engine calm seed_env (\<lambda>x. x) small_split small_coordinator no_topology_file (small_fleet 0)"

lemma tiny_sel:
  "q_len tiny_engine = unat" "q_dim_opt tiny_engine = (\<lambda>_. Some 8)" "q_bit_width tiny_engine = (\<lambda>_. 1)"
  "q_packed_codes tiny_engine = (\<lambda>q. replicate (unat q) 0)" "q_scales tiny_engine = (\<lambda>q. replicate (unat q) (F32 0))"
  "q_tqplus_shift tiny_engine = (\<lambda>_. [])" "q_tqplus_scale tiny_engine = (\<lambda>_. [])"
  "q_calibration_state tiny_engine = (\<lambda>_. Uncalibrated)"
  "q_from_parts tiny_engine (Some 8) (Suc 0) n (replicate n 0) (replicate n (F32 0)) [] [] =
     (if n < 256 then Inr (word_of_nat n) else Inl ''unsupported parts'')"
  by (simp_all add: tiny_engine_def)

text \<open>The block that carries \<open>n\<close> rows with these labels.\<close>

definition small_block :: "nat \<Rightarrow> u64 list \<Rightarrow> row_block" where
  "small_block n labels = \<lparr>block_dim = 8, block_bit_width = 1, block_rows = as_u64 n,
     block_packed_codes = replicate n 0, block_scales = replicate n (F32 0),
     block_shift = [], block_scale = [], block_labels = labels\<rparr>"

lemmas small_defs = to_usize_def checked_add_usize_def usize_limit_def rbind_def checked_def tiny_sel

lemma small_lists: "replicate 2 x = [x, x]" "[0..<3] = [0, 1, 2]"
  by (simp_all add: numeral_2_eq_2 numeral_3_eq_3)

lemma small_export_block:
  "export_block tiny_engine 3 None 0 2 = Inr (small_block 2 [0, 1])"
  "export_block tiny_engine 3 None 2 1 = Inr (small_block 1 [2])"
  "export_block tiny_engine 3 None 0 3 = Inr (small_block 3 [0, 1, 2])"
  by (simp_all add: export_block_def export_range_def small_defs bytes_per_row_def slice_def export_labels_def
      small_block_def small_lists)

lemma small_export:
  "export_rows tiny_engine (Positional 3) None 0 2 = ([small_block 2 [0, 1]], None)"
  "export_rows tiny_engine (Positional 3) None 2 1 = ([small_block 1 [2]], None)"
  "export_rows tiny_engine (Positional 3) None 0 3 = ([small_block 3 [0, 1, 2]], None)"
  by (simp_all add: export_rows_def export_range_def small_defs rows_per_frame_def
      bytes_per_row_def MAX_EXPORT_FRAME_BYTES_def export_loop.simps small_export_block)

lemma small_import:
  "length labels = n \<Longrightarrow> n < 256 \<Longrightarrow>
     import_stream tiny_engine [Inr (Some (ImportStart (as_u64 n))), block_frame (small_block n labels)] = Inr (word_of_nat n, labels)"
  by (simp add: import_stream_def small_defs builder_push_def check_head_def builder_finish_def small_block_def
      head_of_def unat_as_u64 del: unsigned_of_nat)

definition small_probe :: probe where
  "small_probe = \<lparr>probe_address = ''http://a'', probe_index_id = ''s'',
     probe_info = index_info_of tiny_engine ''s'' (Positional 3) False 1, probe_calibration = calibration_of tiny_engine 3\<rparr>"

lemma small_probed:
  "resolve (rpc_of tiny_engine calm (small_fleet n)) (with_index ''http://a'' ''s'') = Inr small_probe"
  "to_config (mk_shard_ref ''http://a'' ''s'') = with_index ''http://a'' ''s''"
  "require_positional small_probe what = Inr ()" "info_len (probe_info small_probe) = 3"
  "plan_counts 3 (Suc (Suc 0)) [] = Inr [2, 1]"
  by code_simp+

definition with_import :: "string \<Rightarrow> u8 \<Rightarrow> u64 list \<Rightarrow> (u8, unit) index_store \<Rightarrow> (u8, unit) index_store" where
  "with_import sid q labels st =
     set_generation sid 0 (st\<lparr>reg_inner := AList.update sid (Positional q) (reg_inner st),
       reg_labels := AList.update sid labels (reg_labels st)\<rparr>)"

lemma small_import_rows:
  assumes "length labels = n" and "n < 256" and "validate_shard_id sid = Inr ()" and "store_get sid st = None"
  shows "\<exists>info. import_rows tiny_engine sid [Inr (Some (ImportStart (as_u64 n))), block_frame (small_block n labels)] st w =
    (Reply (sid, info), with_import sid (word_of_nat n) labels st, w)"
proof -
  have "unat (word_of_nat n :: u8) = n"
    using assms(2) by (simp add: unat_of_nat take_bit_nat_eq_self)
  then have insert: "insert_with_id tiny_engine sid (Positional (word_of_nat n)) (Some labels) 0 st =
      Inr (with_import sid (word_of_nat n) labels st)"
    using assms by (simp add: insert_with_id_def rbind_def index_len_def tiny_sel with_import_def del: unsigned_of_nat)
  then have "store_get sid (with_import sid (word_of_nat n) labels st) = Some (Positional (word_of_nat n))"
    using insert_with_id_Inr(4) by fastforce
  then show ?thesis
    by (simp add: import_rows_def small_import [OF assms(1,2)] register_def store_insert_def insert node_handle_def)
qed

text \<open>One target: the second call after the export.\<close>

lemma small_move:
  assumes source: "fl_nodes fl ''http://a'' = Some (st, w)" "store_get ''s'' st = Some (Positional 3)" "store_labels ''s'' st = None"
    and export: "export_rows tiny_engine (Positional 3) None start (as_u64 n) = ([small_block n labels], None)"
    and n: "length labels = n" "n < 256" "n \<noteq> 0"
    and target: "fl_nodes fl t = Some (st2, w2)" "store_get (net_uuid calm (Suc (fl_calls fl))) st2 = None"
      "validate_shard_id (net_uuid calm (Suc (fl_calls fl))) = Inr ()"
    and p: "probe_address p = ''http://a''" "probe_index_id p = ''s''"
  shows "import_ranges tiny_engine calm t (as_u64 n) [\<lparr>ep_source = p, ep_start = start, ep_count = as_u64 n\<rparr>] fl =
    (Inr (net_uuid calm (Suc (fl_calls fl))),
     fl\<lparr>fl_nodes := (fl_nodes fl)(t := Some (with_import (net_uuid calm (Suc (fl_calls fl))) (word_of_nat n) labels st2, w2)),
        fl_calls := Suc (Suc (fl_calls fl))\<rparr>)"
proof -
  have calm: "net_dial calm a = Inr ()" "net_fault calm m = None" for a m
    by (simp_all add: calm_def)
  have "unat (as_u64 n) = n"
    using n(2) by (simp add: unat_as_u64 del: unsigned_of_nat)
  with n(3) have "as_u64 n \<noteq> 0"
    by (metis unat_0)
  moreover obtain info where "import_rows tiny_engine (net_uuid calm (Suc (fl_calls fl)))
      [Inr (Some (ImportStart (as_u64 n))), block_frame (small_block n labels)] st2 w2 =
    (Reply (net_uuid calm (Suc (fl_calls fl)), info), with_import (net_uuid calm (Suc (fl_calls fl))) (word_of_nat n) labels st2, w2)"
    using small_import_rows [OF n(1,2) target(3,2)] by blast
  moreover have "(fl_nodes fl)(''http://a'' \<mapsto> (st, w)) = fl_nodes fl"
    using source(1) by (simp add: fun_upd_idem)
  ultimately show ?thesis
    using source target(1) p export
    by (simp add: import_ranges_def export_plan_blocks_def calm rbind_def invoke_def Let_def export_call_def
        node_handle_def reply_of_def survives_def)
qed

definition halves :: "nat \<Rightarrow> (u8, unit) fleet" where
  "halves n = \<lparr>fl_nodes = [''http://a'' \<mapsto> (with_import ''i'' 2 [0, 1] small_store, no_files),
       ''http://b'' \<mapsto> (with_import ''i'' 1 [2] (empty_store None), no_files)], fl_calls = n\<rparr>"

lemma small_names:
  "net_uuid calm n = ''i''" "validate_shard_id ''i'' = Inr ()"
  "store_get ''s'' small_store = Some (Positional 3)" "store_labels ''s'' small_store = None"
  "store_get ''i'' small_store = None" "store_get ''i'' (empty_store None :: (u8, unit) index_store) = None"
  "store_get ''s'' (with_import ''i'' 2 [0, 1] small_store) = Some (Positional 3)"
  "store_labels ''s'' (with_import ''i'' 2 [0, 1] small_store) = None"
  by code_simp+

abbreviation small_shards :: "shard_ref list" where
  "small_shards \<equiv> [mk_shard_ref ''http://a'' ''i'', mk_shard_ref ''http://b'' ''i'']"

lemma small_probe_sel: "probe_address small_probe = ''http://a''" "probe_index_id small_probe = ''s''"
  by (simp_all add: small_probe_def)

lemma small_stage:
  "stage_targets tiny_engine calm small_probe [(''http://a'', 2), (''http://b'', 1)] 0 (small_fleet n) =
     (Inr small_shards, halves (Suc (Suc (Suc (Suc n)))))"
proof -
  let ?st1 = "with_import ''i'' 2 [0, 1] small_store"
  let ?fl1 = "\<lparr>fl_nodes = [''http://b'' \<mapsto> (empty_store None, no_files), ''http://a'' \<mapsto> (?st1, no_files)],
    fl_calls = Suc (Suc n)\<rparr>"
  have "import_ranges tiny_engine calm ''http://a'' 2 [\<lparr>ep_source = small_probe, ep_start = 0, ep_count = 2\<rparr>]
      (small_fleet n) = (Inr ''i'', ?fl1)"
    using small_move [of "small_fleet n" small_store no_files 0 2 "[0, 1]" "''http://a''" small_store no_files small_probe]
    by (simp add: small_probe_sel small_export small_fleet_def small_names)
  moreover have "import_ranges tiny_engine calm ''http://b'' 1 [\<lparr>ep_source = small_probe, ep_start = 2, ep_count = 1\<rparr>]
      ?fl1 = (Inr ''i'', halves (Suc (Suc (Suc (Suc n)))))"
    using small_move [of ?fl1 ?st1 no_files 2 1 "[2]" "''http://b''" "empty_store None" no_files small_probe]
    by (simp add: small_probe_sel small_export small_names halves_def)
  ultimately show ?thesis
    by simp
qed

lemma probed_small [simp]: "probed (small_fleet n) = small_fleet (Suc n)" "probed (halves n) = halves (Suc n)"
  by (simp_all add: probed_def small_fleet_def halves_def)

lemma small_staged:
  "stage_split tiny_engine calm (with_index ''http://a'' ''s'') [''http://a'', ''http://b''] [] (small_fleet n) =
      (Inr (small_probe, small_shards, [2, 1]), halves (Suc (Suc (Suc (Suc (Suc n))))))"
  using small_stage by (simp add: stage_split_def small_probed rbind_def del: stage_targets.simps)

lemma small_published:
  "fst (publish_shards tiny_codec tiny_engine calm seed_env small_shards small_coordinator no_topology_file (halves n)) = Inr 2"
  by code_simp

lemma split_answer: "fst split_run = Inr
  \<lparr>sr_shards = [mk_shard_ref ''http://a'' ''i'', mk_shard_ref ''http://b'' ''i''], sr_rows = [2, 1],
   sr_calibration = calibration_of tiny_engine 3, sr_generation = 2\<rparr>"
  using small_published [of "Suc (Suc (Suc (Suc (Suc 0))))"]
  by (auto simp: split_run_def split_def small_split_def small_probed small_staged small_probe_def split: prod.split sum.split)

theorem split_moves_every_row_witness:
  "hold tiny_engine (snd (snd (snd split_run))) [mk_shard_ref ''http://a'' ''i'', mk_shard_ref ''http://b'' ''i'']
     [2, 1] (geometry tiny_engine 3) (all_rows tiny_engine 3 None) \<and>
   co_generation (fst (snd split_run)) = 2"
proof -
  have run: "split tiny_codec tiny_engine calm seed_env (\<lambda>x. x) small_split small_coordinator no_topology_file (small_fleet 0)
      = (fst split_run, fst (snd split_run), fst (snd (snd split_run)), snd (snd (snd split_run)))"
    by (simp add: split_run_def)
  have "length (sp_targets small_split) < 2 ^ 64" "sp_source small_split = Some (mk_shard_ref ''http://a'' ''s'')"
    by (simp_all add: small_split_def)
  moreover have "probe_rows tiny_engine (small_fleet 0) small_probe = Some (geometry tiny_engine 3, all_rows tiny_engine 3 None)"
    by (simp add: probe_rows_def small_probe_def index_at_def small_fleet_def small_names)
  ultimately show ?thesis
    using split_moves_every_row [OF tiny_engine_laws small_fleet_ok _ run]
    by (simp add: split_answer small_probed small_coordinator_def del: split_paired_Ex)
qed

section \<open>Join\<close>

definition small_join :: join_request where
  "small_join = \<lparr>jo_sources = [mk_shard_ref ''http://a'' ''s''], jo_target = ''b''\<rparr>"

definition join_run where
  "join_run = join tiny_codec tiny_engine calm seed_env (\<lambda>x. x) small_join small_coordinator no_topology_file (small_fleet 0)"

definition joined_fleet :: "(u8, unit) fleet" where
  "joined_fleet = \<lparr>fl_nodes = [''http://a'' \<mapsto> (small_store, no_files),
       ''http://b'' \<mapsto> (with_import ''i'' 3 [0, 1, 2] (empty_store None), no_files)], fl_calls = Suc (Suc (Suc 0))\<rparr>"

lemma small_bound:
  "bind 1 [small_probe] = Inr \<lparr>pinned_generation = 1, pinned_shards = [small_probe], pinned_dim = 8, pinned_rows = 3,
     pinned_calibration = calibration_of tiny_engine 3\<rparr>"
  "store_get ''i'' (empty_store None :: (u8, unit) index_store) = None" "with_scheme ''b'' = ''http://b''"
  by code_simp+

lemma small_joined:
  "import_ranges tiny_engine calm ''http://b'' 3 (join_plans [small_probe]) (small_fleet (Suc 0)) = (Inr ''i'', joined_fleet)"
  using small_move [of "small_fleet 1" small_store no_files 0 3 "[0, 1, 2]" "''http://b''" "empty_store None" no_files small_probe]
  by (simp add: join_plans_def small_probed small_export small_fleet_def small_names small_bound joined_fleet_def
      small_probe_sel)

lemma small_generation: "co_generation small_coordinator = 1"
  by (simp add: small_coordinator_def)

lemma small_join_published:
  "fst (publish_shards tiny_codec tiny_engine calm seed_env [mk_shard_ref ''http://b'' ''i''] small_coordinator
     no_topology_file joined_fleet) = Inr 2"
  by code_simp

lemma join_answer: "fst join_run = Inr
  \<lparr>jr_shard = mk_shard_ref ''http://b'' ''i'', jr_rows = 3, jr_calibration = calibration_of tiny_engine 3, jr_generation = 2\<rparr>"
  using small_join_published
  by (auto simp: join_run_def join_def small_join_def small_probed small_bound small_joined config_new_def rbind_def Let_def
      small_generation split: prod.split sum.split)

theorem join_concatenates_sources_witness:
  "hold tiny_engine (snd (snd (snd join_run))) [mk_shard_ref ''http://b'' ''i''] [3] (geometry tiny_engine 3)
     (concat_rows [all_rows tiny_engine 3 None])"
proof -
  have run: "join tiny_codec tiny_engine calm seed_env (\<lambda>x. x) small_join small_coordinator no_topology_file (small_fleet 0)
      = (fst join_run, fst (snd join_run), fst (snd (snd join_run)), snd (snd (snd join_run)))"
    by (simp add: join_run_def)
  have "jo_sources small_join = [mk_shard_ref ''http://a'' ''s'']"
    by (simp add: small_join_def)
  moreover have "probe_rows tiny_engine (small_fleet 0) small_probe = Some (geometry tiny_engine 3, all_rows tiny_engine 3 None)"
    by (simp add: probe_rows_def small_probe_def index_at_def small_fleet_def small_names)
  ultimately show ?thesis
    using join_concatenates_sources [OF tiny_engine_laws small_fleet_ok run]
    by (auto simp: join_answer small_probed Cons_eq_map_conv)
qed

section \<open>A tick\<close>

definition small_policy :: autoscale_policy where
  "small_policy = \<lparr>max_rows_per_shard = 2, interval_ms = 1\<rparr>"

definition tick_run where
  "tick_run = autoscale_tick tiny_codec tiny_engine calm seed_env (\<lambda>_ x. x) small_policy small_coordinator
     no_topology_file (small_fleet 0)"

definition tick_published_at where
  "tick_published_at = tick_publish tiny_codec tiny_engine calm seed_env 1 (co_shards small_coordinator) 0 small_shards
     small_coordinator no_topology_file (halves 7)"

lemma small_tick:
  "tick_source small_policy (rpc_of tiny_engine calm (small_fleet 0)) (topology small_coordinator) = Some (0, small_probe)"
  "co_spares small_coordinator = [''http://b'']"
  "fst tick_published_at = Inr 2"
  "fst (tick_retire tiny_engine calm small_probe 2 (fst (snd tick_published_at)) (snd (snd (snd tick_published_at))))
     = SourceDropped 2"
  by code_simp+

lemma small_spare: "call_node calm ''http://b'' (list_indexes tiny_engine) (small_fleet 1) = (Inr [], small_fleet 2)"
  by (simp add: call_node_def calm_def at_node_def invoke_def Let_def small_fleet_def list_indexes_def
      store_handles_def empty_store_def reply_of_def survives_def numeral_2_eq_2)

lemma tick_answer: "fst tick_run = SourceDropped 2"
proof -
  obtain co' d' fl' where P: "tick_published_at = (Inr 2, co', d', fl')"
    using small_tick(3) by (metis prod.collapse)
  obtain co4 fl4 where "tick_retire tiny_engine calm small_probe 2 co' fl' = (SourceDropped 2, co4, fl4)"
    using small_tick(4) P by (metis fst_conv prod.collapse snd_conv)
  moreover have "stage_split tiny_engine calm (with_index ''http://a'' ''s'') [''http://a'', ''http://b''] [] (small_fleet 2) =
      (Inr (small_probe, small_shards, [2, 1]), halves 7)"
    using small_staged [of 2] by (simp add: eval_nat_numeral)
  ultimately show ?thesis
    using small_tick(1) P small_spare unfolding tick_published_at_def
    by (simp add: tick_run_def autoscale_tick_def topology_def small_tick(2) small_probe_sel small_generation Let_def)
qed


section \<open>A calibration\<close>

definition raw_small :: raw_index where
  "raw_small = \<lparr>raw_dim = Some 8, raw_bits = 4, raw_len = 0, raw_codes = [], raw_scales = [], raw_shift = [], raw_scale = []\<rparr>"

definition raw_fleet :: "(raw_index, unit) fleet" where
  "raw_fleet = \<lparr>fl_nodes = [''http://a'' \<mapsto>
     (\<lparr>reg_inner = [(''s'', Positional raw_small)], reg_labels = [], reg_generations = [(''s'', 1)],
       reg_ingests = [], reg_root = None\<rparr>, no_files)], fl_calls = 0\<rparr>"

definition raw_codec :: "(raw_index, unit) codec" where
  "raw_codec = \<lparr>write_positional = (\<lambda>_. []), load_positional = (\<lambda>_. Inl ''unused''), write_id_map = (\<lambda>_. []),
     load_id_map = (\<lambda>_. Inr ()), crc32 = (\<lambda>_. 0), encode_manifest = (\<lambda>_. Inl ''unused''),
     decode_manifest = (\<lambda>_. Inl ''unused'')\<rparr>"

definition raw_fit :: "raw_index \<Rightarrow> f32 list \<Rightarrow> nat \<Rightarrow> string + raw_index" where
  "raw_fit q sample dim = Inr (q\<lparr>raw_shift := take dim sample, raw_scale := replicate dim (F32 1)\<rparr>)"

definition fit_run where
  "fit_run = fit_calibration raw_codec raw_engine raw_fit calm seed_env
     \<lparr>fi_sample = replicate 8 (F32 7), fi_dim = 8, fi_bit_width = 4\<rparr> small_coordinator no_topology_file raw_fleet"

lemma fit_answer:
  "(case fst fit_run of Inr r \<Rightarrow> fr_shards r = [mk_shard_ref ''http://a'' ''s''] \<and> fr_generation r = 2 | Inl _ \<Rightarrow> False)"
  by code_simp

theorem fit_reaches_every_shard_witness:
  "holds_pair raw_engine (snd (snd (snd fit_run))) (replicate 8 (F32 7), replicate 8 (F32 1)) (mk_shard_ref ''http://a'' ''s'')"
proof -
  let ?req = "\<lparr>fi_sample = replicate 8 (F32 7), fi_dim = 8, fi_bit_width = 4\<rparr>"
  have "fit_calibration raw_codec raw_engine raw_fit calm seed_env ?req small_coordinator no_topology_file raw_fleet
      = (fst fit_run, fst (snd fit_run), fst (snd (snd fit_run)), snd (snd (snd fit_run)))"
    by (simp add: fit_run_def)
  note F = fit_reaches_every_shard [OF raw_engine_law this]
  obtain r where "fst fit_run = Inr r" "fr_shards r = [mk_shard_ref ''http://a'' ''s'']"
    using fit_answer by (auto split: sum.splits)
  moreover have "fitted_pair raw_engine raw_fit ?req = Inr (replicate 8 (F32 7), replicate 8 (F32 1))"
    by code_simp
  ultimately show ?thesis
    using F by auto
qed

end
