(* ===== verification/Candidates.thy ===== *)
theory Candidates
  imports Errors
begin

text \<open>
  The coordinator's bounded global heap (\<^verbatim>\<open>HeapCandidate\<close> and its uses in
  \<^verbatim>\<open>src/src/coordinator/mod.rs\<close>). The ordering is translated from \<open>Ord::cmp\<close>; the standard
  library's \<open>BinaryHeap\<close> enters through its contract, stated as the locale \<open>max_heap\<close>:
  \<open>peek\<close> and \<open>pop\<close> return a greatest element, and the heap holds the multiset pushed and not
  popped. What the search needs, that offering a stream of candidates to a heap bounded by
  \<open>k\<close> retains \<open>k\<close> smallest of them, is proved from the contract alone, and the contract is
  interpreted on the model's heap.
\<close>

section \<open>Orderings\<close>

datatype ordering = Less | Equal | Greater

definition cmp_of :: "'a::linorder \<Rightarrow> 'a \<Rightarrow> ordering" where
  "cmp_of a b = (if a < b then Less else if a = b then Equal else Greater)"

fun then_with :: "ordering \<Rightarrow> ordering \<Rightarrow> ordering" where
  "then_with Equal o' = o'"
| "then_with o1 o' = o1"

text \<open>\<open>f32::total_cmp\<close>\<close>

definition total_cmp :: "f32 \<Rightarrow> f32 \<Rightarrow> ordering" where
  "total_cmp a b = cmp_of (total_key a) (total_key b)"

lemma cmp_of_simps [simp]:
  "cmp_of a b = Less \<longleftrightarrow> a < b"
  "cmp_of a b = Equal \<longleftrightarrow> a = b"
  "cmp_of a b = Greater \<longleftrightarrow> b < a"
  by (auto simp: cmp_of_def)

lemma then_with_simps:
  "then_with a b = Less \<longleftrightarrow> a = Less \<or> (a = Equal \<and> b = Less)"
  "then_with a b = Equal \<longleftrightarrow> a = Equal \<and> b = Equal"
  "then_with a b = Greater \<longleftrightarrow> a = Greater \<or> (a = Equal \<and> b = Greater)"
  by (cases a; simp)+

lemma then_with_cmp_of: "then_with (cmp_of a b) (cmp_of c d) = cmp_of (a, c) (b, d)"
  by (auto simp: cmp_of_def less_prod_def)

lemma then_with_assoc: "then_with (then_with a b) c = then_with a (then_with b c)"
  by (cases a) auto

section \<open>Candidates and their order\<close>

record heap_candidate =
  score :: f32
  shard_rank :: nat
  slot :: u64
  label :: "u64 option"
  label_order_key :: "u64 option"

text \<open>
  \<open>Ord::cmp\<close>: the worst candidate is the greatest. Lower scores lose, then larger labels when
  label order was requested, then later shards, then larger slots.
\<close>

definition candidate_cmp :: "heap_candidate \<Rightarrow> heap_candidate \<Rightarrow> ordering" where
  "candidate_cmp self other =
     then_with
       (then_with
         (then_with
           (total_cmp (score other) (score self))
           (cmp_of (label_order_key self) (label_order_key other)))
         (cmp_of (shard_rank self) (shard_rank other)))
       (cmp_of (slot self) (slot other))"

text \<open>\<open>PartialEq::eq\<close> and \<open><\<close> as derived from \<open>cmp\<close>.\<close>

definition candidate_eq :: "heap_candidate \<Rightarrow> heap_candidate \<Rightarrow> bool" where
  "candidate_eq self other \<longleftrightarrow> candidate_cmp self other = Equal"

definition candidate_lt :: "heap_candidate \<Rightarrow> heap_candidate \<Rightarrow> bool" where
  "candidate_lt self other \<longleftrightarrow> candidate_cmp self other = Less"

text \<open>The sort key that this comparison compares, in a linear order of the library.\<close>

type_synonym rank_key = "int \<times> u64 option \<times> nat \<times> u64"

definition rank_key :: "heap_candidate \<Rightarrow> rank_key" where
  "rank_key c = (- total_key (score c), label_order_key c, shard_rank c, slot c)"

lemma total_cmp_swap: "total_cmp b a = cmp_of (- total_key a) (- total_key b)"
  by (auto simp: total_cmp_def cmp_of_def)

lemma candidate_cmp_rank_key: "candidate_cmp a b = cmp_of (rank_key a) (rank_key b)"
  unfolding candidate_cmp_def then_with_assoc
  unfolding total_cmp_swap rank_key_def then_with_cmp_of ..

lemma candidate_lt_iff: "candidate_lt a b \<longleftrightarrow> rank_key a < rank_key b"
  by (simp add: candidate_lt_def candidate_cmp_rank_key)

lemma candidate_eq_iff: "candidate_eq a b \<longleftrightarrow> rank_key a = rank_key b"
  by (simp add: candidate_eq_def candidate_cmp_rank_key)

lemma rank_key_le_score: "rank_key a \<le> rank_key b \<Longrightarrow> score b \<le> score a"
  by (auto simp: rank_key_def less_eq_prod_def less_eq_f32_def)

lemma score_less_rank_key: "score b < score a \<Longrightarrow> rank_key a < rank_key b"
  by (simp add: rank_key_def less_prod_def less_f32_def)

section \<open>The k best of a multiset\<close>

definition best_of :: "('a \<Rightarrow> 'k::linorder) \<Rightarrow> nat \<Rightarrow> 'a multiset \<Rightarrow> 'a multiset \<Rightarrow> bool" where
  "best_of key k A S \<longleftrightarrow>
     S \<subseteq># A \<and> size S = min k (size A) \<and> (\<forall>x \<in># S. \<forall>y \<in># A - S. key x \<le> key y)"

lemma best_of_empty [simp]: "best_of key k {#} {#}"
  by (simp add: best_of_def)

lemma best_of_subset: "best_of key k A S \<Longrightarrow> S \<subseteq># A"
  by (simp add: best_of_def)

lemma best_of_size: "best_of key k A S \<Longrightarrow> size S = min k (size A)"
  by (simp add: best_of_def)

lemma best_of_le: "best_of key k A S \<Longrightarrow> x \<in># S \<Longrightarrow> y \<in># A - S \<Longrightarrow> key x \<le> key y"
  by (simp add: best_of_def)

lemma best_of_small:
  assumes "best_of key k A S" and "size S < k"
  shows "S = A"
proof -
  have "size S = size A"
    using assms by (auto simp: best_of_def)
  with assms show ?thesis
    by (metis best_of_subset mset_subset_size order_less_irrefl subset_mset.le_imp_less_or_eq)
qed

text \<open>Every kept element is at least as good as some element of any other selection of \<open>k\<close>.\<close>

lemma best_of_dominates:
  assumes best: "best_of key k A S" and sub: "T \<subseteq># A" and size: "size T = k" and x: "x \<in># S"
  shows "\<exists>y \<in># T. key x \<le> key y"
proof (cases "T \<subseteq># S")
  case True
  moreover have "size S \<le> size T"
    using best size by (simp add: best_of_def)
  ultimately have "T = S"
    by (metis mset_subset_size not_less subset_mset.order_iff_strict)
  with x show ?thesis by auto
next
  case False
  then obtain y where y: "count S y < count T y"
    by (auto simp: subseteq_mset_def not_le)
  moreover have "count T y \<le> count A y"
    using sub by (simp add: subseteq_mset_def)
  ultimately have "y \<in># A - S" and "y \<in># T"
    by (simp_all add: in_diff_count count_inI)
  then show ?thesis
    using best_of_le [OF best x] by blast
qed

lemma best_of_extend:
  assumes "best_of key k A S" and "size S = k" and "\<forall>x \<in># S. \<forall>y \<in># R. key x \<le> key y"
  shows "best_of key k (A + R) S"
proof -
  obtain T where A: "A = S + T"
    using best_of_subset [OF assms(1)] by (metis subset_mset.le_iff_add)
  then have le: "\<forall>x \<in># S. \<forall>y \<in># T. key x \<le> key y"
    using assms(1) by (simp add: best_of_def)
  have diff: "A + R - S = T + R"
    by (simp add: A add.assoc)
  show ?thesis
    unfolding best_of_def diff using le assms(2,3) by (auto simp: A add.assoc)
qed

lemma best_of_all: "size A \<le> k \<Longrightarrow> best_of key k A A"
  by (simp add: best_of_def)

text \<open>Adding an element that is not better than the worst kept one changes nothing.\<close>

lemma best_of_skip:
  assumes best: "best_of key k A S" and full: "size S = k"
    and worse: "\<forall>x \<in># S. key x \<le> key c"
  shows "best_of key k (add_mset c A) S"
proof -
  have sub: "S \<subseteq># A" using best by (rule best_of_subset)
  then have diff: "add_mset c A - S = add_mset c (A - S)"
    by (metis add_mset_add_single subset_mset.diff_add_assoc2)
  have "size S \<le> size A" using sub by (rule size_mset_mono)
  then show ?thesis
    using best full worse sub unfolding best_of_def diff
    by (auto intro: subset_mset.order_trans [OF sub] simp: subset_mset.le_iff_add)
qed

text \<open>Replacing a worst kept element by a better one.\<close>

lemma best_of_replace:
  assumes best: "best_of key k A S" and full: "size S = k"
    and w: "w \<in># S" and worst: "\<forall>x \<in># S. key x \<le> key w" and better: "key c \<le> key w"
  shows "best_of key k (add_mset c A) (add_mset c (S - {#w#}))"
proof -
  obtain S' where S: "S = add_mset w S'"
    using w by (metis insert_DiffM)
  have sub: "S \<subseteq># A" using best by (rule best_of_subset)
  then obtain R where A: "A = S + R"
    by (metis subset_mset.le_iff_add)
  have diff: "add_mset c A - add_mset c S' = add_mset w R"
    by (simp add: A S)
  have R: "\<forall>x \<in># S. \<forall>y \<in># R. key x \<le> key y"
    using best by (simp add: best_of_def A)
  have "\<forall>x \<in># add_mset c S'. \<forall>y \<in># add_mset w R. key x \<le> key y"
    using R worst better w unfolding S by (auto intro: order_trans)
  moreover have "size (add_mset c S') = min k (size (add_mset c A))"
    using full by (simp add: A S)
  moreover have "add_mset c S' \<subseteq># add_mset c A"
    by (simp add: A S)
  ultimately show ?thesis
    unfolding best_of_def S by (simp add: diff)
qed

text \<open>Sorting by a key that identifies the elements makes the kept multiset a prefix.\<close>

lemma sort_key_mset_unique:
  assumes "mset xs = mset ys" and "inj_on key (set xs)"
    and "sorted (map key xs)" and "sorted (map key ys)"
  shows "xs = ys"
proof -
  have "mset (map key xs) = mset (map key ys)"
    using assms(1) by simp
  then have "map key xs = map key ys"
    using assms(3,4) by (metis properties_for_sort)
  moreover have "inj_on key (set xs \<union> set ys)"
    using assms(1,2) by (metis Un_absorb mset_eq_setD)
  ultimately show ?thesis
    by (simp add: inj_on_map_eq_map)
qed

lemma best_of_take_sort:
  assumes best: "best_of key k (mset xs) (mset ys)" and inj: "inj_on key (set xs)"
  shows "sort_key key ys = take k (sort_key key xs)"
proof -
  obtain rest where rest: "mset xs = mset ys + mset rest"
    using best_of_subset [OF best] by (metis ex_mset subset_mset.le_iff_add)
  have le: "\<forall>x \<in> set ys. \<forall>y \<in> set rest. key x \<le> key y"
    using best unfolding best_of_def rest by (simp flip: set_mset_mset)
  have "sort_key key xs = sort_key key ys @ sort_key key rest"
  proof (rule sort_key_mset_unique)
    show "mset (sort_key key xs) = mset (sort_key key ys @ sort_key key rest)"
      by (simp add: rest)
    show "inj_on key (set (sort_key key xs))"
      using inj by simp
    show "sorted (map key (sort_key key xs))"
      by simp
    show "sorted (map key (sort_key key ys @ sort_key key rest))"
      using le by (simp add: sorted_append)
  qed
  moreover have "length ys = min k (length xs)"
    using best_of_size [OF best] by simp
  moreover have "length xs = length ys + length rest"
    using rest by (metis size_mset size_union)
  ultimately show ?thesis
    by (cases "k \<le> length ys") (auto simp: min_def split: if_splits)
qed

section \<open>The contract of a max-heap\<close>

text \<open>
  \<open>if heap.len() < k { push } else if heap.peek().is_some_and(|worst| c < *worst) { pop; push }\<close>
\<close>

definition offer_with ::
    "('h \<Rightarrow> nat) \<Rightarrow> ('h \<Rightarrow> 'a option) \<Rightarrow> ('h \<Rightarrow> 'h) \<Rightarrow> ('a \<Rightarrow> 'h \<Rightarrow> 'h)
     \<Rightarrow> ('a \<Rightarrow> 'a \<Rightarrow> bool) \<Rightarrow> nat \<Rightarrow> 'a \<Rightarrow> 'h \<Rightarrow> 'h" where
  "offer_with len peek pop push lt k c h =
     (if len h < k then push c h
      else if (case peek h of None \<Rightarrow> False | Some worst \<Rightarrow> lt c worst) then push c (pop h)
      else h)"

locale max_heap =
  fixes key :: "'a \<Rightarrow> 'k::linorder"
    and invar :: "'h \<Rightarrow> bool"
    and contents :: "'h \<Rightarrow> 'a multiset"
    and len :: "'h \<Rightarrow> nat"
    and peek :: "'h \<Rightarrow> 'a option"
    and pop :: "'h \<Rightarrow> 'h"
    and push :: "'a \<Rightarrow> 'h \<Rightarrow> 'h"
    and lt :: "'a \<Rightarrow> 'a \<Rightarrow> bool"
  assumes len: "len h = size (contents h)"
    and push_contents: "contents (push c h) = add_mset c (contents h)"
    and push_invar: "invar h \<Longrightarrow> invar (push c h)"
    and peek_None: "peek h = None \<longleftrightarrow> contents h = {#}"
    and peek_greatest: "invar h \<Longrightarrow> peek h = Some w \<Longrightarrow> w \<in># contents h \<and> (\<forall>x \<in># contents h. key x \<le> key w)"
    and pop_contents: "peek h = Some w \<Longrightarrow> contents (pop h) = contents h - {#w#}"
    and pop_invar: "invar h \<Longrightarrow> invar (pop h)"
    and lt_key: "lt a b \<longleftrightarrow> key a < key b"
begin

lemma offer_invar: "invar h \<Longrightarrow> invar (offer_with len peek pop push lt k c h)"
  by (simp add: offer_with_def push_invar pop_invar)

lemma offer_best:
  assumes "invar h" and best: "best_of key k A (contents h)"
  shows "best_of key k (add_mset c A) (contents (offer_with len peek pop push lt k c h))"
proof (cases "len h < k")
  case True
  then have "contents h = A"
    using best_of_small [OF best] by (simp add: len)
  with True show ?thesis
    using best_of_all [of "add_mset c A" k key] by (simp add: offer_with_def push_contents len)
next
  case False
  then have full: "size (contents h) = k"
    using best_of_size [OF best] by (simp add: len)
  show ?thesis
  proof (cases "peek h")
    case None
    then have "contents h = {#}" by (simp add: peek_None)
    with full None False show ?thesis
      by (simp add: offer_with_def best_of_def)
  next
    case (Some w)
    note w = peek_greatest [OF \<open>invar h\<close> Some]
    show ?thesis
    proof (cases "key c < key w")
      case True
      with w full best show ?thesis
        using best_of_replace [OF best full, of w c] Some \<open>\<not> len h < k\<close>
        by (simp add: offer_with_def lt_key push_contents pop_contents)
    next
      case not_better: False
      then have "\<forall>x \<in># contents h. key x \<le> key c"
        using w by (auto intro: order_trans)
      then show ?thesis
        using best_of_skip [OF best full] not_better Some \<open>\<not> len h < k\<close>
        by (simp add: offer_with_def lt_key)
    qed
  qed
qed

lemma offer_len:
  assumes "invar h" and "best_of key k A (contents h)"
  shows "len (offer_with len peek pop push lt k c h) = min k (Suc (size A))"
  using best_of_size [OF offer_best [OF assms]] by (simp add: len)

lemma full_peek: "len h = k \<Longrightarrow> 0 < k \<Longrightarrow> \<exists>w. peek h = Some w"
  using peek_None len by (metis less_numeral_extra(3) not_None_eq size_empty)

end

section \<open>The coordinator's heap\<close>

text \<open>
  The heap as the list of its elements, greatest first: one representative of the contract.
  Nothing later looks at the representation beyond the facts of the interpretation.
\<close>

type_synonym binary_heap = "heap_candidate list"

fun heap_push :: "heap_candidate \<Rightarrow> binary_heap \<Rightarrow> binary_heap" where
  "heap_push c [] = [c]"
| "heap_push c (x # xs) = (if candidate_lt c x then x # heap_push c xs else c # x # xs)"

definition heap_peek :: "binary_heap \<Rightarrow> heap_candidate option" where
  "heap_peek h = (case h of [] \<Rightarrow> None | x # _ \<Rightarrow> Some x)"

definition heap_pop :: "binary_heap \<Rightarrow> binary_heap" where
  "heap_pop h = drop 1 h"

definition heap_ok :: "binary_heap \<Rightarrow> bool" where
  "heap_ok h \<longleftrightarrow> sorted_wrt (\<lambda>x y. rank_key y \<le> rank_key x) h"

definition offer :: "nat \<Rightarrow> heap_candidate \<Rightarrow> binary_heap \<Rightarrow> binary_heap" where
  "offer = offer_with length heap_peek heap_pop heap_push candidate_lt"

lemma mset_heap_push [simp]: "mset (heap_push c h) = add_mset c (mset h)"
  by (induction c h rule: heap_push.induct) auto

lemma set_heap_push [simp]: "set (heap_push c h) = insert c (set h)"
  by (metis mset_heap_push set_mset_add_mset_insert set_mset_mset)

lemma heap_push_ok: "heap_ok h \<Longrightarrow> heap_ok (heap_push c h)"
  by (induction c h rule: heap_push.induct) (auto simp: heap_ok_def candidate_lt_iff)

interpretation heap: max_heap rank_key heap_ok mset length heap_peek heap_pop heap_push candidate_lt
proof unfold_locales
  fix h :: binary_heap and w c :: heap_candidate
  show "heap_peek h = None \<longleftrightarrow> mset h = {#}"
    by (auto simp: heap_peek_def split: list.splits)
  show "heap_ok h \<Longrightarrow> heap_peek h = Some w
      \<Longrightarrow> w \<in># mset h \<and> (\<forall>x \<in># mset h. rank_key x \<le> rank_key w)"
    by (auto simp: heap_ok_def heap_peek_def split: list.splits)
  show "heap_peek h = Some w \<Longrightarrow> mset (heap_pop h) = mset h - {#w#}"
    by (auto simp: heap_pop_def heap_peek_def split: list.splits)
  show "heap_ok h \<Longrightarrow> heap_ok (heap_pop h)"
    by (cases h) (auto simp: heap_pop_def heap_ok_def)
  show "heap_ok h \<Longrightarrow> heap_ok (heap_push c h)"
    by (rule heap_push_ok)
qed (simp_all add: candidate_lt_iff)

lemmas offer_best = heap.offer_best [folded offer_def]
lemmas offer_ok = heap.offer_invar [folded offer_def]

lemma heap_ok_Nil [simp]: "heap_ok []"
  by (simp add: heap_ok_def)

lemma heap_peek_Nil [simp]: "heap_peek [] = None"
  by (simp add: heap_peek_def)

lemma heap_peek_eq_None [simp]: "heap_peek h = None \<longleftrightarrow> h = []"
  by (simp add: heap_peek_def split: list.splits)

text \<open>\<open>candidates.sort()\<close>: best first.\<close>

definition sort_candidates :: "heap_candidate list \<Rightarrow> heap_candidate list" where
  "sort_candidates = sort_key rank_key"

lemma mset_sort_candidates [simp]: "mset (sort_candidates xs) = mset xs"
  by (simp add: sort_candidates_def)

lemma set_sort_candidates [simp]: "set (sort_candidates xs) = set xs"
  by (simp add: sort_candidates_def)

lemma length_sort_candidates [simp]: "length (sort_candidates xs) = length xs"
  by (simp add: sort_candidates_def)

end
