(* ===== verification/Stream_Query.thy ===== *)
theory Stream_Query
  imports Candidates Binding
begin

text \<open>
  The distributed exact search of one query: \<^verbatim>\<open>CoordinatorService::stream_query\<close> in
  \<^verbatim>\<open>src/src/coordinator/mod.rs\<close>. One response task per shard forwards \<open>StreamEvent\<close>s into one
  channel; the collector keeps the global heap, publishes a rising floor to the shards that
  have not completed, and returns only after every shard's completion summary. The model takes
  the events in the order the channel delivers them, so a theorem about every event list is a
  theorem about every interleaving of the shards.

  A \<open>watch\<close> channel holds its latest value: \<open>watches ! i\<close> is what shard \<open>i\<close> sees. Dropping a
  \<open>ShardControl\<close> that is not completed sends \<open>Stop\<close> (\<open>drop_controls\<close>).
\<close>

record query_options =
  stable_label_order :: bool
  allowed_labels :: "u64 list"
  allowed_label_bitmaps :: "label_bitmap list"
  has_allowed_labels :: bool
  initial_floor :: "f32 option"
  tie_complete :: bool

datatype stream_event =
    EvMessage nat stream_search_response
  | EvError nat status
  | EvClosed nat

text \<open>\<open>ShardControl\<close> retained per shard: its \<open>completed\<close> flag; \<open>None\<close> once dropped.\<close>

type_synonym shard_control = "bool option"

record stream_state =
  sq_heap :: binary_heap
  tie_candidates :: "heap_candidate list"
  published_floor :: f32
  sq_completed :: "bool list"
  sq_remaining :: nat
  outbound :: "shard_control list"
  watches :: "stream_search_request list"

definition drop_controls :: "shard_control list \<Rightarrow> stream_search_request list \<Rightarrow> stream_search_request list" where
  "drop_controls controls ws =
     map2 (\<lambda>c w. if c = Some False then StopStreamSearch else w) controls ws"

section \<open>Opening one stream per shard\<close>

definition start_request :: "query_options \<Rightarrow> f32 list \<Rightarrow> string \<Rightarrow> probe \<Rightarrow> stream_search_request" where
  "start_request opts vector request_id shard =
     StartSearch
       \<lparr>start_index_id = probe_index_id shard, start_vector = vector,
        start_initial_floor = initial_floor opts, start_request_id = request_id,
        start_allowed_labels = allowed_labels opts,
        start_has_allowed_labels = has_allowed_labels opts,
        start_allowed_label_bitmaps = allowed_label_bitmaps opts\<rparr>"

text \<open>
  \<open>connect\<close> is \<open>query_client\<close> for an address, \<open>start\<close> the answer of the \<open>StreamSearch\<close> call to
  that address. On an error the controls opened so far are dropped.
\<close>

fun open_streams ::
    "(string \<Rightarrow> status + unit) \<Rightarrow> (string \<Rightarrow> status + unit) \<Rightarrow> query_options \<Rightarrow> f32 list \<Rightarrow> string
     \<Rightarrow> probe list \<Rightarrow> stream_search_request list
     \<Rightarrow> (status \<times> stream_search_request list) + stream_search_request list" where
  "open_streams connect start opts vector request_id [] opened = Inr opened"
| "open_streams connect start opts vector request_id (shard # shards) opened =
     (case connect (probe_address shard) of
        Inl e \<Rightarrow> Inl (e, drop_controls (replicate (length opened) (Some False)) opened)
      | Inr _ \<Rightarrow>
          (case start (probe_address shard) of
             Inl e \<Rightarrow> Inl (node_error (probe_address shard) e,
                          drop_controls (replicate (length opened) (Some False)) opened)
           | Inr _ \<Rightarrow> open_streams connect start opts vector request_id shards
                         (opened @ [start_request opts vector request_id shard])))"

definition start_floor :: "query_options \<Rightarrow> f32" where
  "start_floor opts = (case initial_floor opts of None \<Rightarrow> neg_infinity | Some f \<Rightarrow> f)"

definition initial_state :: "query_options \<Rightarrow> nat \<Rightarrow> stream_search_request list \<Rightarrow> stream_state" where
  "initial_state opts shards opened =
     \<lparr>sq_heap = [], tie_candidates = [], published_floor = start_floor opts,
      sq_completed = replicate shards False, sq_remaining = shards,
      outbound = replicate shards (Some False), watches = opened\<rparr>"

section \<open>One batch of candidates\<close>

text \<open>\<open>flag.then(|| labels[rank])\<close>; the outer \<open>None\<close> is the index panic.\<close>

definition then_index :: "bool \<Rightarrow> u64 list \<Rightarrow> nat \<Rightarrow> u64 option option" where
  "then_index flag labels rank =
     (if flag then map_option Some (nth_opt labels rank) else Some None)"

text \<open>The \<open>for (rank, (score, slot))\<close> loop over one batch.\<close>

fun collect_candidates ::
    "query_options \<Rightarrow> nat \<Rightarrow> nat \<Rightarrow> string \<Rightarrow> bool \<Rightarrow> u64 list \<Rightarrow> nat \<Rightarrow> (f32 \<times> u64) list
     \<Rightarrow> binary_heap \<times> heap_candidate list
     \<Rightarrow> status failure + (binary_heap \<times> heap_candidate list)" where
  "collect_candidates opts k srank address labelled labels rank [] (h, ties) = Inr (h, ties)"
| "collect_candidates opts k srank address labelled labels rank ((sc, sl) # rest) (h, ties) =
     (if is_nan sc then
        Inl (Failed (internal [Lit ''shard '', Lit address, Lit '' returned a NaN score'']))
      else
        (case (then_index labelled labels rank, then_index (stable_label_order opts) labels rank) of
           (Some lbl, Some okey) \<Rightarrow>
             (let c = \<lparr>score = sc, shard_rank = srank, slot = sl, label = lbl, label_order_key = okey\<rparr>
              in collect_candidates opts k srank address labelled labels (Suc rank) rest
                   (offer k c h, if tie_complete opts then ties @ [c] else ties))
         | _ \<Rightarrow> Inl Panic))"

text \<open>Broadcast a raised floor to every shard that has not completed.\<close>

fun broadcast_floor ::
    "f32 \<Rightarrow> bool list \<Rightarrow> nat \<Rightarrow> shard_control list \<Rightarrow> stream_search_request list
     \<Rightarrow> status failure + stream_search_request list" where
  "broadcast_floor floor completed rank [] ws = Inr ws"
| "broadcast_floor floor completed rank (sender # senders) ws =
     (case nth_opt completed rank of
        None \<Rightarrow> Inl Panic
      | Some True \<Rightarrow> broadcast_floor floor completed (Suc rank) senders ws
      | Some False \<Rightarrow>
          (case sender of
             None \<Rightarrow> Inl Panic
           | Some _ \<Rightarrow> broadcast_floor floor completed (Suc rank) senders (ws[rank := FloorUpdate floor])))"

definition publish_floor :: "query_options \<Rightarrow> nat \<Rightarrow> stream_state \<Rightarrow> status failure + stream_state" where
  "publish_floor opts k st =
     (if length (sq_heap st) = k then
        (case heap_peek (sq_heap st) of
           None \<Rightarrow> Inl Panic
         | Some root \<Rightarrow>
             (let floor = score root in
              if f32_gt floor (published_floor st) then
                rbind (broadcast_floor floor (sq_completed st) 0 (outbound st) (watches st)) (\<lambda>ws.
                  Inr (st\<lparr>published_floor := floor,
                          tie_candidates :=
                            (if tie_complete opts
                             then filter (\<lambda>c. f32_ge (score c) floor) (tie_candidates st)
                             else tie_candidates st),
                          watches := ws\<rparr>))
              else Inr st))
      else Inr st)"

definition on_batch ::
    "pinned \<Rightarrow> query_options \<Rightarrow> nat \<Rightarrow> nat \<Rightarrow> stream_search_batch \<Rightarrow> stream_state
     \<Rightarrow> status failure + stream_state" where
  "on_batch p opts k srank batch st =
     (case (nth_opt (sq_completed st) srank, nth_opt (pinned_shards p) srank) of
        (Some completed, Some shard) \<Rightarrow>
          if completed then
            Inl (Failed (internal [Lit ''shard '', Lit (probe_address shard),
                                   Lit '' emitted candidates after its completion summary'']))
          else if length (batch_scores batch) \<noteq> length (batch_slots batch)
                \<or> (batch_labels batch \<noteq> [] \<and> length (batch_labels batch) \<noteq> length (batch_scores batch)) then
            Inl (Failed (internal [Lit ''shard '', Lit (probe_address shard),
                                   Lit '' returned misaligned streaming candidates'']))
          else if stable_label_order opts \<and> batch_labels batch = [] \<and> batch_scores batch \<noteq> [] then
            Inl (Failed (failed_precondition [Lit ''shard '', Lit (probe_address shard),
              Lit '' returned unlabelled candidates but stable label order was requested'']))
          else
            rbind (collect_candidates opts k srank (probe_address shard) (batch_labels batch \<noteq> [])
                     (batch_labels batch) 0 (zip (batch_scores batch) (batch_slots batch))
                     (sq_heap st, tie_candidates st)) (\<lambda>(h, ties).
              publish_floor opts k (st\<lparr>sq_heap := h, tie_candidates := ties\<rparr>))
      | _ \<Rightarrow> Inl Panic)"

section \<open>The collector's event loop\<close>

definition on_summary ::
    "pinned \<Rightarrow> nat \<Rightarrow> stream_search_summary \<Rightarrow> stream_state \<Rightarrow> status failure + stream_state" where
  "on_summary p srank summary st =
     (case (nth_opt (sq_completed st) srank, nth_opt (pinned_shards p) srank) of
        (Some completed, Some shard) \<Rightarrow>
          if completed then
            Inl (Failed (internal [Lit ''shard '', Lit (probe_address shard),
                                   Lit '' sent more than one completion summary'']))
          else if \<not> summary_completed summary then
            Inl (Failed (mk_status Aborted [Lit ''shard '', Lit (probe_address shard),
                                            Lit '' did not complete its streaming scan'']))
          else
            (case nth_opt (outbound st) srank of
               Some (Some _) \<Rightarrow>
                 Inr (st\<lparr>sq_completed := (sq_completed st)[srank := True],
                         sq_remaining := sq_remaining st - 1,
                         outbound := (outbound st)[srank := None]\<rparr>)
             | _ \<Rightarrow> Inl Panic)
      | _ \<Rightarrow> Inl Panic)"

definition shard_error :: "pinned \<Rightarrow> nat \<Rightarrow> (string \<Rightarrow> status) \<Rightarrow> status failure" where
  "shard_error p srank f =
     (case nth_opt (pinned_shards p) srank of None \<Rightarrow> Panic | Some shard \<Rightarrow> Failed (f (probe_address shard)))"

fun stream_step ::
    "pinned \<Rightarrow> query_options \<Rightarrow> nat \<Rightarrow> stream_event \<Rightarrow> stream_state \<Rightarrow> status failure + stream_state" where
  "stream_step p opts k (EvMessage srank (Some (Batch batch))) st = on_batch p opts k srank batch st"
| "stream_step p opts k (EvMessage srank (Some (Summary summary))) st = on_summary p srank summary st"
| "stream_step p opts k (EvMessage srank None) st =
     Inl (shard_error p srank (\<lambda>a. internal [Lit ''shard '', Lit a, Lit '' returned an empty streaming response'']))"
| "stream_step p opts k (EvError srank e) st = Inl (shard_error p srank (\<lambda>a. node_error a e))"
| "stream_step p opts k (EvClosed srank) st =
     (case nth_opt (sq_completed st) srank of
        None \<Rightarrow> Inl Panic
      | Some True \<Rightarrow> Inr st
      | Some False \<Rightarrow> Inl (shard_error p srank (\<lambda>a. unavailable NODE_UNREACHABLE
            [Lit a, Lit '' closed its streaming scan without a completion summary''])))"

text \<open>Events until the last completion, or the error and the state it happened in.\<close>

fun stream_loop ::
    "pinned \<Rightarrow> query_options \<Rightarrow> nat \<Rightarrow> stream_state \<Rightarrow> stream_event list
     \<Rightarrow> (status failure \<times> stream_state) + stream_state" where
  "stream_loop p opts k st [] =
     (if 0 < sq_remaining st
      then Inl (Failed (internal [Lit ''all shard response streams closed before completing'']), st)
      else Inr st)"
| "stream_loop p opts k st (e # es) =
     (if 0 < sq_remaining st
      then (case stream_step p opts k e st of
              Inl err \<Rightarrow> Inl (err, st)
            | Inr st' \<Rightarrow> stream_loop p opts k st' es)
      else Inr st)"

section \<open>The result\<close>

definition final_candidates :: "query_options \<Rightarrow> stream_state \<Rightarrow> heap_candidate list" where
  "final_candidates opts st =
     sort_candidates
       (if tie_complete opts then
          (case heap_peek (sq_heap st) of
             None \<Rightarrow> tie_candidates st
           | Some c \<Rightarrow> filter (\<lambda>x. f32_ge (score x) (score c)) (tie_candidates st))
        else sq_heap st)"

definition neighbour_of :: "probe \<Rightarrow> heap_candidate \<Rightarrow> neighbour" where
  "neighbour_of shard c =
     \<lparr>nb_score = score c, nb_label = label c, nb_address = probe_address shard,
      nb_index_id = probe_index_id shard, nb_slot = slot c\<rparr>"

fun neighbours :: "probe list \<Rightarrow> heap_candidate list \<Rightarrow> status failure + neighbour list" where
  "neighbours shards [] = Inr []"
| "neighbours shards (c # cs) =
     (case nth_opt shards (shard_rank c) of
        None \<Rightarrow> Inl Panic
      | Some shard \<Rightarrow> rbind (neighbours shards cs) (\<lambda>ns. Inr (neighbour_of shard c # ns)))"

text \<open>The whole call: its result, and what the shards' request channels hold at the end.\<close>

definition stream_query ::
    "(string \<Rightarrow> status + unit) \<Rightarrow> (string \<Rightarrow> status + unit) \<Rightarrow> pinned \<Rightarrow> f32 list \<Rightarrow> nat
     \<Rightarrow> query_options \<Rightarrow> string \<Rightarrow> stream_event list
     \<Rightarrow> (status failure + neighbour list) \<times> stream_search_request list" where
  "stream_query connect start p vector k opts request_id events =
     (case open_streams connect start opts vector request_id (pinned_shards p) [] of
        Inl (e, ws) \<Rightarrow> (Inl (Failed e), ws)
      | Inr opened \<Rightarrow>
          (case stream_loop p opts k (initial_state opts (length (pinned_shards p)) opened) events of
             Inl (err, st) \<Rightarrow> (Inl err, drop_controls (outbound st) (watches st))
           | Inr st \<Rightarrow> (neighbours (pinned_shards p) (final_candidates opts st),
                        drop_controls (outbound st) (watches st))))"

end
