(* ===== verification/Stream_Exact.thy ===== *)
theory Stream_Exact
  imports Stream_Query
begin

text \<open>
  What the distributed search of one query guarantees. The candidates a shard emitted are read
  off the events (\<open>emitted\<close>); \<open>stream_inv\<close> relates the collector's state to them after every
  event: the heap holds the k best, the published floor is the start floor or a score every kept
  candidate reaches, the tie list keeps every candidate at or above the floor, and each shard
  that has not completed sees the current floor. The lemmas then turn a successful end into
  exactness, and a failing end into the cancellation of every unfinished shard.
\<close>

section \<open>The candidates of a batch\<close>

definition candidate_at ::
    "query_options \<Rightarrow> nat \<Rightarrow> bool \<Rightarrow> u64 list \<Rightarrow> nat \<times> f32 \<times> u64 \<Rightarrow> heap_candidate" where
  "candidate_at opts srank labelled labels x =
     (case x of (i, sc, sl) \<Rightarrow>
       \<lparr>score = sc, shard_rank = srank, slot = sl,
        label = (if labelled then Some (labels ! i) else None),
        label_order_key = (if stable_label_order opts then Some (labels ! i) else None)\<rparr>)"

definition batch_candidates :: "query_options \<Rightarrow> nat \<Rightarrow> stream_search_batch \<Rightarrow> heap_candidate list" where
  "batch_candidates opts srank b =
     map (candidate_at opts srank (batch_labels b \<noteq> []) (batch_labels b))
       (List.enumerate 0 (zip (batch_scores b) (batch_slots b)))"

fun event_candidates :: "query_options \<Rightarrow> stream_event \<Rightarrow> heap_candidate list" where
  "event_candidates opts (EvMessage srank (Some (Batch b))) = batch_candidates opts srank b"
| "event_candidates opts _ = []"

definition emitted :: "query_options \<Rightarrow> stream_event list \<Rightarrow> heap_candidate list" where
  "emitted opts es = concat (map (event_candidates opts) es)"

lemma emitted_simps [simp]:
  "emitted opts [] = []"
  "emitted opts (e # es) = event_candidates opts e @ emitted opts es"
  "emitted opts (es @ fs) = emitted opts es @ emitted opts fs"
  by (simp_all add: emitted_def)

lemma shard_rank_batch: "c \<in> set (batch_candidates opts i b) \<Longrightarrow> shard_rank c = i"
  by (auto simp: batch_candidates_def candidate_at_def)

lemma score_batch:
  "length (batch_scores b) = length (batch_slots b) \<Longrightarrow>
     map score (batch_candidates opts i b) = batch_scores b"
  by (rule nth_equalityI) (auto simp: batch_candidates_def candidate_at_def nth_enumerate_eq)

text \<open>A batch is well formed when its arrays line up and no score is NaN.\<close>

definition well_formed_batch :: "query_options \<Rightarrow> stream_search_batch \<Rightarrow> bool" where
  "well_formed_batch opts b \<longleftrightarrow>
     length (batch_scores b) = length (batch_slots b) \<and>
     (batch_labels b = [] \<or> length (batch_labels b) = length (batch_scores b)) \<and>
     (stable_label_order opts \<and> batch_labels b = [] \<longrightarrow> batch_scores b = []) \<and>
     (\<forall>s \<in> set (batch_scores b). \<not> is_nan s)"

lemma then_index_ok:
  "(flag \<Longrightarrow> i < length labels) \<Longrightarrow>
     then_index flag labels i = Some (if flag then Some (labels ! i) else None)"
  by (simp add: then_index_def nth_opt_in_range)

lemma collect_candidates_ok:
  assumes "\<forall>(s, l) \<in> set pairs. \<not> is_nan s"
    and "labelled \<or> stable_label_order opts \<Longrightarrow> rank + length pairs \<le> length labels"
  shows "collect_candidates opts k srank address labelled labels rank pairs (h, ties) =
     Inr (let cs = map (candidate_at opts srank labelled labels) (List.enumerate rank pairs)
          in (fold (offer k) cs h, if tie_complete opts then ties @ cs else ties))"
  using assms
proof (induction pairs arbitrary: rank h ties)
  case Nil
  then show ?case by simp
next
  case (Cons x pairs)
  have "then_index labelled labels rank = Some (if labelled then Some (labels ! rank) else None)"
    "then_index (stable_label_order opts) labels rank =
       Some (if stable_label_order opts then Some (labels ! rank) else None)"
    by (rule then_index_ok, use Cons.prems(2) in fastforce)+
  with Cons show ?case
    by (cases x) (simp add: Let_def candidate_at_def)
qed

lemma collect_candidates_Inr:
  assumes "collect_candidates opts k srank address labelled labels rank pairs (h, ties) = Inr r"
  shows "\<forall>(s, l) \<in> set pairs. \<not> is_nan s"
  using assms
  by (induction opts k srank address labelled labels rank pairs "(h, ties)" arbitrary: h ties
      rule: collect_candidates.induct) (auto split: if_splits option.splits simp: Let_def)

lemma collect_candidates_no_panic:
  assumes "labelled \<or> stable_label_order opts \<Longrightarrow> rank + length pairs \<le> length labels"
  shows "collect_candidates opts k srank address labelled labels rank pairs (h, ties) \<noteq> Inl Panic"
  using assms
proof (induction pairs arbitrary: rank h ties)
  case Nil
  then show ?case by simp
next
  case (Cons x pairs)
  have "then_index labelled labels rank = Some (if labelled then Some (labels ! rank) else None)"
    "then_index (stable_label_order opts) labels rank =
       Some (if stable_label_order opts then Some (labels ! rank) else None)"
    by (rule then_index_ok, use Cons.prems in fastforce)+
  with Cons show ?case
    by (cases x) (simp add: Let_def)
qed

lemma ball_zip_left:
  "length xs = length ys \<Longrightarrow> (\<forall>(s, l) \<in> set (zip xs ys). P s) \<longleftrightarrow> (\<forall>s \<in> set xs. P s)"
  using set_map [of fst "zip xs ys"] by fastforce

section \<open>One event\<close>

text \<open>What a batch does to the heap and the ties before the floor is published.\<close>

definition absorb :: "query_options \<Rightarrow> nat \<Rightarrow> heap_candidate list \<Rightarrow> stream_state \<Rightarrow> stream_state" where
  "absorb opts k cs st =
     st\<lparr>sq_heap := fold (offer k) cs (sq_heap st),
        tie_candidates := (if tie_complete opts then tie_candidates st @ cs else tie_candidates st)\<rparr>"

lemma absorb_sel [simp]:
  "sq_heap (absorb opts k cs st) = fold (offer k) cs (sq_heap st)"
  "tie_candidates (absorb opts k cs st) =
     (if tie_complete opts then tie_candidates st @ cs else tie_candidates st)"
  "published_floor (absorb opts k cs st) = published_floor st"
  "sq_completed (absorb opts k cs st) = sq_completed st"
  "sq_remaining (absorb opts k cs st) = sq_remaining st"
  "outbound (absorb opts k cs st) = outbound st"
  "watches (absorb opts k cs st) = watches st"
  by (simp_all add: absorb_def)

lemma collect_batch:
  assumes wf: "well_formed_batch opts b"
  shows "collect_candidates opts k i address (batch_labels b \<noteq> []) (batch_labels b) 0
           (zip (batch_scores b) (batch_slots b)) (h, ties) =
         Inr (fold (offer k) (batch_candidates opts i b) h,
              if tie_complete opts then ties @ batch_candidates opts i b else ties)"
proof -
  let ?pairs = "zip (batch_scores b) (batch_slots b)"
  have "\<forall>(s, l) \<in> set ?pairs. \<not> is_nan s"
    using wf by (auto simp: well_formed_batch_def dest: set_zip_leftD)
  moreover have "batch_labels b \<noteq> [] \<or> stable_label_order opts \<Longrightarrow>
      0 + length ?pairs \<le> length (batch_labels b)"
    using wf by (auto simp: well_formed_batch_def)
  ultimately show ?thesis
    unfolding batch_candidates_def by (subst collect_candidates_ok) (simp_all add: Let_def)
qed

lemma on_batch_ok:
  assumes "nth_opt (sq_completed st) i = Some False" and "nth_opt (pinned_shards p) i = Some shard"
    and "well_formed_batch opts b"
  shows "on_batch p opts k i b st = publish_floor opts k (absorb opts k (batch_candidates opts i b) st)"
  using assms collect_batch [OF assms(3)]
  by (auto simp: on_batch_def absorb_def well_formed_batch_def)

lemma on_batch_Inr:
  assumes "on_batch p opts k i b st = Inr st'"
  shows "nth_opt (sq_completed st) i = Some False \<and> (\<exists>shard. nth_opt (pinned_shards p) i = Some shard)
    \<and> well_formed_batch opts b
    \<and> publish_floor opts k (absorb opts k (batch_candidates opts i b) st) = Inr st'"
proof -
  have pre: "nth_opt (sq_completed st) i = Some False"
      "\<exists>shard. nth_opt (pinned_shards p) i = Some shard" "well_formed_batch opts b"
    using assms
    by (auto simp: on_batch_def well_formed_batch_def rbind_Inr_iff ball_zip_left
        split: option.splits if_splits dest!: collect_candidates_Inr)
  then show ?thesis
    using assms on_batch_ok by metis
qed

section \<open>Publishing a floor\<close>

definition controls :: "bool list \<Rightarrow> shard_control list" where
  "controls completed = map (\<lambda>c. if c then None else Some False) completed"

definition broadcast :: "f32 \<Rightarrow> bool list \<Rightarrow> stream_search_request list \<Rightarrow> stream_search_request list" where
  "broadcast floor completed ws = map2 (\<lambda>c w. if c then w else FloorUpdate floor) completed ws"

lemma controls_simps [simp]:
  "length (controls cs) = length cs"
  "i < length cs \<Longrightarrow> controls cs ! i = (if cs ! i then None else Some False)"
  "(controls cs)[i := None] = controls (cs[i := True])"
  by (simp_all add: controls_def map_update)

lemma length_broadcast [simp]: "length (broadcast f cs ws) = min (length cs) (length ws)"
  by (simp add: broadcast_def)

lemma broadcast_floor_append:
  assumes "length before = length ws0" and "length rest = length ws"
  shows "broadcast_floor f (before @ rest) (length before) (controls rest) (ws0 @ ws) =
     Inr (ws0 @ broadcast f rest ws)"
  using assms
proof (induction rest ws arbitrary: before ws0 rule: list_induct2')
  case (4 c rest w ws)
  have nth: "(before @ c # rest) ! length ws0 = c"
    using 4(2) by (metis nth_append_length)
  have eq: "(ws0 @ w # ws)[length before := FloorUpdate f] = (ws0 @ [FloorUpdate f]) @ ws"
    using 4 by (simp add: list_update_append)
  show ?case
    using 4(1) [of "before @ [c]" "ws0 @ [w]"] 4(1) [of "before @ [c]" "ws0 @ [FloorUpdate f]"] 4(2,3) eq nth
    by (cases c) (simp_all add: controls_def broadcast_def nth_opt_in_range)
qed (simp_all add: controls_def broadcast_def)

lemma broadcast_floor_controls:
  "length completed = length ws \<Longrightarrow>
     broadcast_floor f completed 0 (controls completed) ws = Inr (broadcast f completed ws)"
  using broadcast_floor_append [of "[]" "[]"] by simp

text \<open>The floor a state publishes, when it raises the one before.\<close>

definition raises :: "nat \<Rightarrow> stream_state \<Rightarrow> f32 \<Rightarrow> bool" where
  "raises k st f \<longleftrightarrow>
     length (sq_heap st) = k \<and> map_option score (heap_peek (sq_heap st)) = Some f \<and>
     f32_lt (published_floor st) f"

definition with_floor :: "query_options \<Rightarrow> f32 \<Rightarrow> stream_state \<Rightarrow> stream_state" where
  "with_floor opts f st =
     st\<lparr>published_floor := f,
        tie_candidates := (if tie_complete opts
          then filter (\<lambda>c. f32_ge (score c) f) (tie_candidates st) else tie_candidates st),
        watches := broadcast f (sq_completed st) (watches st)\<rparr>"

lemma with_floor_sel [simp]:
  "sq_heap (with_floor opts f st) = sq_heap st"
  "published_floor (with_floor opts f st) = f"
  "sq_completed (with_floor opts f st) = sq_completed st"
  "sq_remaining (with_floor opts f st) = sq_remaining st"
  "outbound (with_floor opts f st) = outbound st"
  "watches (with_floor opts f st) = broadcast f (sq_completed st) (watches st)"
  "tie_candidates (with_floor opts f st) = (if tie_complete opts
     then filter (\<lambda>c. f32_ge (score c) f) (tie_candidates st) else tie_candidates st)"
  by (simp_all add: with_floor_def)

lemma publish_floor_cases:
  assumes "outbound st = controls (sq_completed st)" and "length (watches st) = length (sq_completed st)"
    and "0 < k"
  shows "(\<exists>f. raises k st f \<and> publish_floor opts k st = Inr (with_floor opts f st)) \<or>
         ((\<forall>f. \<not> raises k st f) \<and> publish_floor opts k st = Inr st)"
  using assms
  by (auto simp: publish_floor_def raises_def with_floor_def Let_def broadcast_floor_controls
      split: option.splits)

section \<open>The invariant of the collector\<close>

definition control_inv :: "query_options \<Rightarrow> stream_search_request list \<Rightarrow> stream_state \<Rightarrow> bool" where
  "control_inv opts opened st \<longleftrightarrow>
     length (sq_completed st) = length opened \<and> length (watches st) = length opened \<and>
     outbound st = controls (sq_completed st) \<and>
     sq_remaining st = count_list (sq_completed st) False \<and>
     (\<forall>i < length opened. \<not> sq_completed st ! i \<longrightarrow>
        watches st ! i = (if published_floor st = start_floor opts then opened ! i
                          else FloorUpdate (published_floor st)))"

definition floor_inv :: "query_options \<Rightarrow> nat \<Rightarrow> stream_state \<Rightarrow> bool" where
  "floor_inv opts k st \<longleftrightarrow>
     published_floor st = start_floor opts \<or>
     (f32_lt (start_floor opts) (published_floor st) \<and> length (sq_heap st) = k \<and>
      (\<forall>c \<in> set (sq_heap st). f32_ge (score c) (published_floor st)))"

definition ties_inv :: "query_options \<Rightarrow> heap_candidate list \<Rightarrow> stream_state \<Rightarrow> bool" where
  "ties_inv opts E st \<longleftrightarrow>
     (tie_complete opts \<longrightarrow>
       (published_floor st = start_floor opts \<longrightarrow> tie_candidates st = E) \<and>
       filter (\<lambda>c. f32_ge (score c) (published_floor st)) (tie_candidates st) =
       filter (\<lambda>c. f32_ge (score c) (published_floor st)) E)"

definition heap_inv :: "nat \<Rightarrow> heap_candidate list \<Rightarrow> stream_state \<Rightarrow> bool" where
  "heap_inv k E st \<longleftrightarrow>
     heap_ok (sq_heap st) \<and> best_of rank_key k (mset E) (mset (sq_heap st)) \<and>
     (\<forall>c \<in> set E. \<not> is_nan (score c))"

definition stream_inv ::
    "query_options \<Rightarrow> nat \<Rightarrow> stream_search_request list \<Rightarrow> heap_candidate list \<Rightarrow> stream_state \<Rightarrow> bool" where
  "stream_inv opts k opened E st \<longleftrightarrow>
     control_inv opts opened st \<and> heap_inv k E st \<and> floor_inv opts k st \<and> ties_inv opts E st \<and>
     (\<forall>f. \<not> raises k st f)"

lemma stream_inv_initial:
  "0 < k \<Longrightarrow> length opened = n \<Longrightarrow> stream_inv opts k opened [] (initial_state opts n opened)"
  by (simp add: stream_inv_def control_inv_def heap_inv_def floor_inv_def ties_inv_def raises_def
      initial_state_def controls_def)

text \<open>Absorbing a batch keeps everything but the last conjunct.\<close>

lemma fold_offer:
  assumes "heap_ok h" and "best_of rank_key k (mset E) (mset h)"
  shows "heap_ok (fold (offer k) cs h) \<and> best_of rank_key k (mset (E @ cs)) (mset (fold (offer k) cs h))"
  using assms
proof (induction cs arbitrary: h E)
  case (Cons c cs)
  have "best_of rank_key k (mset (E @ [c])) (mset (offer k c h))"
    using offer_best [OF Cons.prems] by simp
  with Cons.IH [OF offer_ok [OF Cons.prems(1)] this] show ?case by simp
qed simp

lemma heap_inv_absorb:
  assumes "heap_inv k E st" and "\<forall>c \<in> set cs. \<not> is_nan (score c)"
  shows "heap_inv k (E @ cs) (absorb opts k cs st)"
  using assms fold_offer [of "sq_heap st" k E cs] by (auto simp: heap_inv_def)

lemma heap_inv_subset: "heap_inv k E st \<Longrightarrow> set (sq_heap st) \<subseteq> set E"
  by (metis best_of_subset heap_inv_def set_mset_mono set_mset_mset)

lemma floor_inv_absorb:
  assumes heap: "heap_inv k E st" and "\<forall>c \<in> set cs. \<not> is_nan (score c)" and floor: "floor_inv opts k st"
  shows "floor_inv opts k (absorb opts k cs st)"
proof (cases "published_floor st = start_floor opts")
  case True
  then show ?thesis by (simp add: floor_inv_def)
next
  case False
  let ?h = "sq_heap st" and ?h' = "fold (offer k) cs (sq_heap st)"
  from False floor have raised: "f32_lt (start_floor opts) (published_floor st)" "length ?h = k"
      "\<forall>c \<in> set ?h. f32_ge (score c) (published_floor st)"
    by (auto simp: floor_inv_def)
  have heap': "heap_inv k (E @ cs) (absorb opts k cs st)"
    by (rule heap_inv_absorb) fact+
  then have best: "best_of rank_key k (mset (E @ cs)) (mset ?h')"
    and nan: "\<forall>c \<in> set (E @ cs). \<not> is_nan (score c)"
    by (simp_all add: heap_inv_def)
  have sub: "mset ?h \<subseteq># mset (E @ cs)"
    using heap by (auto simp: heap_inv_def dest!: best_of_subset intro: subset_mset.add_increasing2)
  have ge: "f32_ge (score c) (published_floor st)" if c: "c \<in> set ?h'" for c
  proof -
    obtain y where y: "y \<in> set ?h" "rank_key c \<le> rank_key y"
      using best_of_dominates [OF best sub, of c] raised(2) c by auto
    have "f32_le (score y) (score c)"
      using rank_key_le_score [OF y(2)] nan y(1) c heap_inv_subset [OF heap] heap_inv_subset [OF heap']
      by (intro f32_le_of_le) auto
    with raised(3) y(1) show ?thesis
      by (blast intro: f32_le_trans)
  qed
  have "length ?h' = k"
    using best_of_size [OF best] size_mset_mono [OF sub] raised(2) by simp
  with raised(1) ge show ?thesis
    by (simp add: floor_inv_def)
qed

lemma ties_inv_absorb: "ties_inv opts E st \<Longrightarrow> ties_inv opts (E @ cs) (absorb opts k cs st)"
  by (simp add: ties_inv_def)

text \<open>Publishing restores it.\<close>

lemma control_inv_with_floor:
  assumes "control_inv opts opened st" and "floor_inv opts k st" and "f32_lt (published_floor st) f"
  shows "control_inv opts opened (with_floor opts f st)"
proof -
  have "f \<noteq> start_floor opts"
    using assms(2,3) by (auto simp: floor_inv_def dest: f32_lt_trans)
  with assms(1) show ?thesis
    by (auto simp: control_inv_def broadcast_def)
qed

lemma floor_inv_with_floor:
  assumes "heap_inv k E st" and "floor_inv opts k st" and raises: "raises k st f"
  shows "floor_inv opts k (with_floor opts f st)"
proof -
  obtain root where root: "heap_peek (sq_heap st) = Some root" "score root = f" "length (sq_heap st) = k"
    using raises by (auto simp: raises_def)
  have "f32_ge (score c) f" if "c \<in> set (sq_heap st)" for c
  proof -
    have "rank_key c \<le> rank_key root" "root \<in> set (sq_heap st)"
      using heap.peek_greatest [OF _ root(1)] assms(1) that by (auto simp: heap_inv_def)
    then show ?thesis
      using rank_key_le_score [of c root] assms(1) heap_inv_subset [OF assms(1)] that root(2)
      by (auto simp: heap_inv_def intro!: f32_le_of_le)
  qed
  moreover have "f32_lt (start_floor opts) f"
    using assms(2) raises by (auto simp: floor_inv_def raises_def dest: f32_lt_trans)
  ultimately show ?thesis
    using root by (simp add: floor_inv_def)
qed

lemma ties_inv_with_floor:
  assumes ties: "ties_inv opts E st" and "floor_inv opts k st" and "f32_lt (published_floor st) f"
  shows "ties_inv opts E (with_floor opts f st)"
proof -
  have neq: "f \<noteq> start_floor opts"
    using assms(2,3) by (auto simp: floor_inv_def dest: f32_lt_trans)
  have weaker: "f32_ge x f \<Longrightarrow> f32_ge x (published_floor st)" for x
    using assms(3) by (blast intro: f32_le_trans f32_lt_imp_le)
  have two: "filter (\<lambda>c. f32_ge (score c) f) xs =
      filter (\<lambda>c. f32_ge (score c) f) (filter (\<lambda>c. f32_ge (score c) (published_floor st)) xs)" for xs
    using weaker by (auto intro!: filter_cong)
  have "filter (\<lambda>c. f32_ge (score c) f) (tie_candidates st) = filter (\<lambda>c. f32_ge (score c) f) E"
    if "tie_complete opts"
    using ties that by (subst (1 2) two) (simp add: ties_inv_def del: filter_filter)
  with neq show ?thesis
    by (simp add: ties_inv_def)
qed

lemma raises_with_floor: "raises k st f \<Longrightarrow> \<not> raises k (with_floor opts f st) g"
  by (auto simp: raises_def)

lemma publish_floor_inv:
  assumes "control_inv opts opened st" "heap_inv k E st" "floor_inv opts k st" "ties_inv opts E st" "0 < k"
  shows "\<exists>st'. publish_floor opts k st = Inr st' \<and> stream_inv opts k opened E st'
    \<and> (published_floor st' = published_floor st \<or> f32_lt (published_floor st) (published_floor st'))
    \<and> sq_completed st' = sq_completed st"
proof -
  have "outbound st = controls (sq_completed st)" "length (watches st) = length (sq_completed st)"
    using assms(1) by (auto simp: control_inv_def)
  then consider f where "raises k st f" "publish_floor opts k st = Inr (with_floor opts f st)"
    | "\<forall>f. \<not> raises k st f" "publish_floor opts k st = Inr st"
    using publish_floor_cases \<open>0 < k\<close> by blast
  then show ?thesis
  proof cases
    case 1
    then have lt: "f32_lt (published_floor st) f"
      by (simp add: raises_def)
    have "stream_inv opts k opened E (with_floor opts f st)"
      using assms 1 lt control_inv_with_floor floor_inv_with_floor ties_inv_with_floor raises_with_floor
      by (fastforce simp: stream_inv_def heap_inv_def)
    with 1 lt show ?thesis by simp
  next
    case 2
    with assms show ?thesis by (simp add: stream_inv_def)
  qed
qed

lemma on_batch_inv:
  assumes inv: "stream_inv opts k opened E st" and "0 < k"
    and shard: "nth_opt (sq_completed st) i = Some False" "nth_opt (pinned_shards p) i = Some shard"
    and wf: "well_formed_batch opts b"
  shows "\<exists>st'. on_batch p opts k i b st = Inr st'
    \<and> stream_inv opts k opened (E @ batch_candidates opts i b) st'
    \<and> (published_floor st' = published_floor st \<or> f32_lt (published_floor st) (published_floor st'))
    \<and> sq_completed st' = sq_completed st"
proof -
  let ?cs = "batch_candidates opts i b"
  have nan: "\<forall>c \<in> set ?cs. \<not> is_nan (score c)"
    using wf score_batch [of b opts i] by (metis imageI list.set_map well_formed_batch_def)
  have "control_inv opts opened (absorb opts k ?cs st)"
    using inv by (simp add: stream_inv_def control_inv_def)
  then have "\<exists>st'. publish_floor opts k (absorb opts k ?cs st) = Inr st'
      \<and> stream_inv opts k opened (E @ ?cs) st'
      \<and> (published_floor st' = published_floor st \<or> f32_lt (published_floor st) (published_floor st'))
      \<and> sq_completed st' = sq_completed st"
    using publish_floor_inv [of opts opened "absorb opts k ?cs st" k "E @ ?cs"] inv nan \<open>0 < k\<close>
      heap_inv_absorb floor_inv_absorb ties_inv_absorb by (auto simp: stream_inv_def)
  then show ?thesis
    using on_batch_ok [OF shard wf] by simp
qed

section \<open>Steps and runs\<close>

lemma control_inv_summary:
  assumes "control_inv opts opened st" and "nth_opt (sq_completed st) i = Some False"
  shows "control_inv opts opened (st\<lparr>sq_completed := (sq_completed st)[i := True],
           sq_remaining := sq_remaining st - 1, outbound := (outbound st)[i := None]\<rparr>)"
proof -
  have i: "i < length (sq_completed st)" "\<not> sq_completed st ! i"
    using assms(2) by (auto simp: nth_opt_def split: if_splits)
  then have "count_list ((sq_completed st)[i := True]) False = count_list (sq_completed st) False - 1"
    using count_list_update_False [of i "sq_completed st"] by simp
  with assms(1) i show ?thesis
    by (auto simp: control_inv_def nth_list_update)
qed

lemma on_summary_Inr:
  assumes inv: "stream_inv opts k opened E st" and step: "on_summary p i s st = Inr st'"
  shows "nth_opt (sq_completed st) i = Some False \<and> summary_completed s
    \<and> stream_inv opts k opened E st' \<and> published_floor st' = published_floor st
    \<and> sq_completed st' = (sq_completed st)[i := True]"
proof -
  have pre: "nth_opt (sq_completed st) i = Some False" "summary_completed s"
    and st': "st' = st\<lparr>sq_completed := (sq_completed st)[i := True],
           sq_remaining := sq_remaining st - 1, outbound := (outbound st)[i := None]\<rparr>"
    using step by (auto simp: on_summary_def split: option.splits if_splits)
  have "control_inv opts opened st'"
    using inv pre(1) control_inv_summary unfolding st' stream_inv_def by blast
  with inv pre show ?thesis
    by (simp add: st' stream_inv_def heap_inv_def floor_inv_def ties_inv_def raises_def)
qed

lemma on_summary_ok:
  assumes inv: "stream_inv opts k opened E st"
    and "nth_opt (sq_completed st) i = Some False" and "nth_opt (pinned_shards p) i = Some shard"
    and "summary_completed s"
  shows "\<exists>st'. on_summary p i s st = Inr st'"
proof -
  have "nth_opt (outbound st) i = Some (Some False)"
    using inv assms(2) by (auto simp: stream_inv_def control_inv_def nth_opt_def split: if_splits)
  with assms(2-) show ?thesis
    by (simp add: on_summary_def)
qed

definition finishes :: "nat \<Rightarrow> stream_event \<Rightarrow> bool" where
  "finishes i e \<longleftrightarrow>
     (case e of EvMessage j (Some (Summary s)) \<Rightarrow> j = i \<and> summary_completed s | _ \<Rightarrow> False)"

text \<open>One accepted event keeps the invariant, never lowers the floor and marks only completions.\<close>

lemma stream_step_Inr:
  assumes inv: "stream_inv opts k opened E st" and "0 < k" and step: "stream_step p opts k e st = Inr st'"
  shows "stream_inv opts k opened (E @ event_candidates opts e) st'
    \<and> (published_floor st' = published_floor st \<or> f32_lt (published_floor st) (published_floor st'))
    \<and> (\<forall>i < length opened. sq_completed st' ! i \<longleftrightarrow> sq_completed st ! i \<or> finishes i e)"
  using step
proof (cases e)
  case (EvMessage i resp)
  show ?thesis
  proof (cases resp)
    case None
    with step EvMessage show ?thesis by simp
  next
    case (Some pl)
    note ev = EvMessage Some
    show ?thesis
    proof (cases pl)
      case (Batch b)
      then have step: "on_batch p opts k i b st = Inr st'"
        using step ev by simp
      then obtain shard where shard: "nth_opt (sq_completed st) i = Some False"
          "nth_opt (pinned_shards p) i = Some shard" "well_formed_batch opts b"
        using on_batch_Inr by blast
      then show ?thesis
        using on_batch_inv [OF inv \<open>0 < k\<close> shard] step ev Batch by (auto simp: finishes_def)
    next
      case (Summary s)
      then have step: "on_summary p i s st = Inr st'"
        using step ev by simp
      have len: "length (sq_completed st) = length opened"
        using inv by (simp add: stream_inv_def control_inv_def)
      show ?thesis
        using on_summary_Inr [OF inv step] ev Summary len
        by (auto simp: finishes_def nth_opt_def nth_list_update split: if_splits)
    qed
  qed
next
  case (EvError i status)
  with step show ?thesis by simp
next
  case (EvClosed i)
  then have "st' = st"
    using step by (auto split: option.splits bool.splits)
  with inv EvClosed show ?thesis by (simp add: finishes_def)
qed

fun stream_run ::
    "pinned \<Rightarrow> query_options \<Rightarrow> nat \<Rightarrow> stream_state \<Rightarrow> stream_event list \<Rightarrow> status failure + stream_state" where
  "stream_run p opts k st [] = Inr st"
| "stream_run p opts k st (e # es) =
     rbind (stream_step p opts k e st) (\<lambda>st'. stream_run p opts k st' es)"

text \<open>How a loop ends: which prefix it consumed and why it stopped there.\<close>

lemma stream_loop_run:
  "case stream_loop p opts k st es of
     Inr st' \<Rightarrow> \<exists>used rest. es = used @ rest \<and> stream_run p opts k st used = Inr st' \<and> sq_remaining st' = 0
   | Inl (err, st') \<Rightarrow> \<exists>used rest. es = used @ rest \<and> stream_run p opts k st used = Inr st'
       \<and> 0 < sq_remaining st'
       \<and> (case rest of
            [] \<Rightarrow> err = Failed (internal [Lit ''all shard response streams closed before completing''])
          | e # _ \<Rightarrow> stream_step p opts k e st' = Inl err)"
proof (induction p opts k st es rule: stream_loop.induct)
  case (1 p opts k st)
  then show ?case by (auto split: list.splits)
next
  case (2 p opts k st e es)
  show ?case
  proof (cases "0 < sq_remaining st")
    case False
    then have eq: "stream_loop p opts k st (e # es) = Inr st" by simp
    show ?thesis
      unfolding eq sum.case using False by (intro exI [of _ "[]"] exI [of _ "e # es"]) simp
  next
    case active: True
    show ?thesis
    proof (cases "stream_step p opts k e st")
      case (Inl err)
      then have eq: "stream_loop p opts k st (e # es) = Inl (err, st)" using active by simp
      show ?thesis
        unfolding eq sum.case prod.case using active Inl
        by (intro exI [of _ "[]"] exI [of _ "e # es"]) simp
    next
      case (Inr st')
      note IH = 2 [OF active Inr]
      show ?thesis
      proof (cases "stream_loop p opts k st' es")
        case (Inl res)
        then obtain err st2 used rest where "res = (err, st2)" "es = used @ rest"
            "stream_run p opts k st' used = Inr st2" "0 < sq_remaining st2"
            "case rest of
              [] \<Rightarrow> err = Failed (internal [Lit ''all shard response streams closed before completing''])
            | e # _ \<Rightarrow> stream_step p opts k e st2 = Inl err"
          using IH by (cases res) auto
        then show ?thesis
          using active Inr Inl by (simp, intro exI [of _ "e # used"] exI [of _ rest]) simp
      next
        case (Inr st2)
        then obtain used rest where "es = used @ rest" "stream_run p opts k st' used = Inr st2"
            "sq_remaining st2 = 0"
          using IH by auto
        then show ?thesis
          using active Inr \<open>stream_step p opts k e st = Inr st'\<close>
          by (simp, intro exI [of _ "e # used"] exI [of _ rest]) simp
      qed
    qed
  qed
qed

lemma stream_run_inv:
  assumes "stream_inv opts k opened E st" and "0 < k" and "stream_run p opts k st es = Inr st'"
  shows "stream_inv opts k opened (E @ emitted opts es) st'
    \<and> (published_floor st' = published_floor st \<or> f32_lt (published_floor st) (published_floor st'))
    \<and> (\<forall>i < length opened. sq_completed st' ! i \<longleftrightarrow> sq_completed st ! i \<or> (\<exists>e \<in> set es. finishes i e))"
  using assms(1,3)
proof (induction es arbitrary: st E)
  case (Cons e es)
  then obtain st1 where st1: "stream_step p opts k e st = Inr st1" "stream_run p opts k st1 es = Inr st'"
    by (auto elim: rbind_InrE)
  note step = stream_step_Inr [OF Cons.prems(1) \<open>0 < k\<close> st1(1)]
  note IH = Cons.IH [OF conjunct1 [OF step] st1(2)]
  have "published_floor st' = published_floor st \<or> f32_lt (published_floor st) (published_floor st')"
    using step IH by (metis f32_lt_trans)
  with step IH show ?case by auto
qed simp

section \<open>Shards that scan honestly\<close>

text \<open>
  The contract of a shard's scan: it emits rows of the shard, each at most once, and at its
  completion summary every row it withheld scores below the floor then in force. \<open>seen\<close> is what
  has been emitted so far.
\<close>

fun honest_event ::
    "query_options \<Rightarrow> heap_candidate list \<Rightarrow> heap_candidate list \<Rightarrow> stream_state \<Rightarrow> stream_event \<Rightarrow> bool" where
  "honest_event opts rows seen st (EvMessage i (Some (Batch b))) \<longleftrightarrow>
     distinct (seen @ batch_candidates opts i b) \<and> list_all (\<lambda>c. c \<in> set rows) (batch_candidates opts i b)"
| "honest_event opts rows seen st (EvMessage i (Some (Summary s))) \<longleftrightarrow>
     list_all (\<lambda>c. shard_rank c = i \<longrightarrow> c \<in> set seen \<or> f32_lt (score c) (published_floor st)) rows"
| "honest_event opts rows seen st _ \<longleftrightarrow> True"

fun honest_scans ::
    "pinned \<Rightarrow> query_options \<Rightarrow> nat \<Rightarrow> heap_candidate list \<Rightarrow> heap_candidate list \<Rightarrow> stream_state
     \<Rightarrow> stream_event list \<Rightarrow> bool" where
  "honest_scans p opts k rows seen st [] \<longleftrightarrow> True"
| "honest_scans p opts k rows seen st (e # es) \<longleftrightarrow>
     honest_event opts rows seen st e \<and>
     (case stream_step p opts k e st of
        Inl _ \<Rightarrow> True
      | Inr st' \<Rightarrow> honest_scans p opts k rows (seen @ event_candidates opts e) st' es)"

definition covered :: "heap_candidate list \<Rightarrow> heap_candidate list \<Rightarrow> stream_state \<Rightarrow> bool" where
  "covered rows seen st \<longleftrightarrow>
     (\<forall>c \<in> set rows. shard_rank c < length (sq_completed st) \<and> sq_completed st ! shard_rank c \<longrightarrow>
        c \<in> set seen \<or> f32_lt (score c) (published_floor st))"

lemma honest_step:
  assumes inv: "stream_inv opts k opened seen st" and "0 < k"
    and step: "stream_step p opts k e st = Inr st'" and honest: "honest_event opts rows seen st e"
    and cov: "covered rows seen st" and seen: "distinct seen" "set seen \<subseteq> set rows"
  shows "covered rows (seen @ event_candidates opts e) st' \<and> distinct (seen @ event_candidates opts e)
    \<and> set (seen @ event_candidates opts e) \<subseteq> set rows"
proof -
  note S = stream_step_Inr [OF inv \<open>0 < k\<close> step]
  have len: "length (sq_completed st) = length opened" "length (sq_completed st') = length opened"
    using inv S by (simp_all add: stream_inv_def control_inv_def)
  have keep: "f32_lt x (published_floor st) \<Longrightarrow> f32_lt x (published_floor st')" for x
    using S by (metis f32_lt_trans)
  have fin: "c \<in> set seen \<or> f32_lt (score c) (published_floor st)"
    if "finishes (shard_rank c) e" "c \<in> set rows" for c
    using honest that
    by (auto simp: finishes_def list_all_iff split: stream_event.splits option.splits stream_search_payload.splits)
  have "covered rows (seen @ event_candidates opts e) st'"
    using cov S keep fin len unfolding covered_def by (metis Un_iff set_append)
  moreover have "distinct (seen @ event_candidates opts e)"
      "set (seen @ event_candidates opts e) \<subseteq> set rows"
    using honest seen
    by (cases "(opts, rows, seen, st, e)" rule: honest_event.cases; auto simp: list_all_iff)+
  ultimately show ?thesis by blast
qed

lemma honest_run:
  assumes "stream_inv opts k opened seen st" and "0 < k"
    and "stream_run p opts k st es = Inr st'" and "honest_scans p opts k rows seen st (es @ rest)"
    and "covered rows seen st" and "distinct seen" "set seen \<subseteq> set rows"
  shows "covered rows (seen @ emitted opts es) st' \<and> distinct (seen @ emitted opts es)
    \<and> set (seen @ emitted opts es) \<subseteq> set rows"
  using assms(1,3-)
proof (induction es arbitrary: st seen)
  case (Cons e es)
  then obtain st1 where st1: "stream_step p opts k e st = Inr st1" "stream_run p opts k st1 es = Inr st'"
    by (auto elim: rbind_InrE)
  have honest: "honest_event opts rows seen st e"
      "honest_scans p opts k rows (seen @ event_candidates opts e) st1 (es @ rest)"
    using Cons.prems(3) st1(1) by simp_all
  note inv = stream_step_Inr [OF Cons.prems(1) \<open>0 < k\<close> st1(1), THEN conjunct1]
  note H = honest_step [OF Cons.prems(1) \<open>0 < k\<close> st1(1) honest(1) Cons.prems(4-6)]
  then show ?case
    using Cons.IH [OF inv st1(2) honest(2)] by simp
qed simp

end
