(* ===== verification/Stream_Properties.thy ===== *)
theory Stream_Properties
  imports Stream_Exact
begin

text \<open>
  The contract of \<open>stream_query\<close>: exactness of the top k and of its tie completion, when a
  search returns at all, the absence of panics, what a shard sees of the floor, and that a
  failing search cancels every shard it has not heard the end of.
\<close>

section \<open>Opening the streams\<close>

definition requests :: "query_options \<Rightarrow> f32 list \<Rightarrow> string \<Rightarrow> probe list \<Rightarrow> stream_search_request list" where
  "requests opts vector request_id shards = map (start_request opts vector request_id) shards"

lemma length_requests [simp]: "length (requests opts v rid shards) = length shards"
  by (simp add: requests_def)

definition reachable_shards :: "(string \<Rightarrow> status + unit) \<Rightarrow> (string \<Rightarrow> status + unit) \<Rightarrow> probe list \<Rightarrow> bool" where
  "reachable_shards connect start shards \<longleftrightarrow>
     list_all (\<lambda>s. connect (probe_address s) = Inr () \<and> start (probe_address s) = Inr ()) shards"

lemma open_streams_Inr:
  "open_streams connect start opts v rid shards opened = Inr ws \<longleftrightarrow>
     reachable_shards connect start shards \<and> ws = opened @ requests opts v rid shards"
  by (induction connect start opts v rid shards opened rule: open_streams.induct)
    (auto simp: reachable_shards_def requests_def split: sum.splits)

lemma open_streams_reachable:
  "reachable_shards connect start shards \<Longrightarrow>
     open_streams connect start opts v rid shards opened = Inr (opened @ requests opts v rid shards)"
  by (simp add: open_streams_Inr)

lemma open_streams_unreachable:
  "\<not> reachable_shards connect start shards \<Longrightarrow>
     \<exists>e ws. open_streams connect start opts v rid shards opened = Inl (e, ws)"
  by (cases "open_streams connect start opts v rid shards opened") (auto simp: open_streams_Inr)

abbreviation start_state :: "pinned \<Rightarrow> query_options \<Rightarrow> f32 list \<Rightarrow> string \<Rightarrow> stream_state" where
  "start_state p opts v rid \<equiv>
     initial_state opts (length (pinned_shards p)) (requests opts v rid (pinned_shards p))"

lemma start_state_inv:
  "0 < k \<Longrightarrow> stream_inv opts k (requests opts v rid (pinned_shards p)) [] (start_state p opts v rid)"
  by (simp add: stream_inv_initial)

lemma stream_query_Inr:
  "stream_query connect start p v k opts rid events = (Inr ns, ws) \<longleftrightarrow>
     reachable_shards connect start (pinned_shards p) \<and>
     (\<exists>st. stream_loop p opts k (start_state p opts v rid) events = Inr st \<and>
        neighbours (pinned_shards p) (final_candidates opts st) = Inr ns \<and>
        ws = drop_controls (outbound st) (watches st))"
proof (cases "reachable_shards connect start (pinned_shards p)")
  case True
  then show ?thesis
    by (auto simp: stream_query_def open_streams_reachable split: sum.splits)
next
  case False
  then show ?thesis
    using open_streams_unreachable [of connect start "pinned_shards p" opts v rid "[]"]
    by (auto simp: stream_query_def)
qed

section \<open>The expected answer\<close>

text \<open>The first k rows in the ranking, and those with every row tied with the last of them.\<close>

definition top_rows :: "nat \<Rightarrow> heap_candidate list \<Rightarrow> heap_candidate list" where
  "top_rows k rows = take k (sort_candidates rows)"

definition tied_rows :: "nat \<Rightarrow> heap_candidate list \<Rightarrow> heap_candidate list" where
  "tied_rows k rows =
     (if top_rows k rows = [] then []
      else sort_candidates (filter (\<lambda>c. f32_ge (score c) (score (last (top_rows k rows)))) rows))"

text \<open>
  The rows a search may answer with: at most one candidate per shard and slot, of a pinned
  shard, at or above the floor the search starts with (so never NaN).
\<close>

definition admitted_rows :: "pinned \<Rightarrow> query_options \<Rightarrow> heap_candidate list \<Rightarrow> bool" where
  "admitted_rows p opts rows \<longleftrightarrow>
     distinct (map (\<lambda>c. (shard_rank c, slot c)) rows) \<and>
     list_all (\<lambda>c. shard_rank c < length (pinned_shards p) \<and> f32_ge (score c) (start_floor opts)) rows"

definition to_neighbour :: "pinned \<Rightarrow> heap_candidate \<Rightarrow> neighbour" where
  "to_neighbour p c = neighbour_of (pinned_shards p ! shard_rank c) c"

lemma neighbours_Inr:
  "list_all (\<lambda>c. shard_rank c < length (pinned_shards p)) cs \<Longrightarrow>
     neighbours (pinned_shards p) cs = Inr (map (to_neighbour p) cs)"
  by (induction cs) (simp_all add: to_neighbour_def nth_opt_in_range)

lemma admitted_inj: "admitted_rows p opts rows \<Longrightarrow> inj_on rank_key (set rows)"
  by (auto simp: admitted_rows_def rank_key_def distinct_map inj_on_def)

lemma admitted_distinct: "admitted_rows p opts rows \<Longrightarrow> distinct rows"
  by (simp add: admitted_rows_def distinct_map)

text \<open>At the end the heap holds the best of all rows, and every row at or above it was emitted.\<close>

lemma final_heap_best:
  assumes inv: "stream_inv opts k opened E st" and "sq_remaining st = 0"
    and rows: "admitted_rows p opts rows" and n: "length opened = length (pinned_shards p)"
    and cov: "covered rows E st" and E: "distinct E" "set E \<subseteq> set rows"
  shows "best_of rank_key k (mset rows) (mset (sq_heap st))
    \<and> (\<forall>c \<in> set rows - set E. published_floor st \<noteq> start_floor opts \<and> f32_lt (score c) (published_floor st))"
proof -
  have all_done: "\<forall>i < length opened. sq_completed st ! i"
    using inv assms(2) by (auto simp: stream_inv_def control_inv_def count_list_zero_iff in_set_conv_nth)
  have below: "published_floor st \<noteq> start_floor opts \<and> f32_lt (score c) (published_floor st)"
    if c: "c \<in> set rows - set E" for c
  proof -
    have "f32_lt (score c) (published_floor st)"
      using cov c all_done rows n inv
      by (auto simp: covered_def admitted_rows_def list_all_iff stream_inv_def control_inv_def)
    moreover have "f32_ge (score c) (start_floor opts)"
      using rows c by (simp add: admitted_rows_def list_all_iff)
    ultimately show ?thesis
      by (metis f32_le_lt_trans f32_lt_irrefl)
  qed
  have best: "best_of rank_key k (mset E) (mset (sq_heap st))"
    using inv by (simp add: stream_inv_def heap_inv_def)
  have split: "mset rows = mset E + mset (filter (\<lambda>c. c \<notin> set E) rows)"
  proof -
    have "mset (filter (\<lambda>c. c \<in> set E) rows) = mset E"
      using E admitted_distinct [OF rows] by (intro set_eq_iff_mset_eq_distinct [THEN iffD1]) auto
    then show ?thesis
      by (metis mset_filter multiset_partition)
  qed
  have "best_of rank_key k (mset rows) (mset (sq_heap st))"
  proof (cases "set rows \<subseteq> set E")
    case True
    then have "mset rows = mset E"
      using E admitted_distinct [OF rows] by (metis set_eq_iff_mset_eq_distinct subset_antisym)
    with best show ?thesis by simp
  next
    case False
    then have "published_floor st \<noteq> start_floor opts"
      using below by blast
    then have full: "length (sq_heap st) = k"
      and ge: "\<forall>c \<in> set (sq_heap st). f32_ge (score c) (published_floor st)"
      using inv by (auto simp: stream_inv_def floor_inv_def)
    have "\<forall>x \<in># mset (sq_heap st). \<forall>y \<in># mset (filter (\<lambda>c. c \<notin> set E) rows). rank_key x \<le> rank_key y"
      using ge below by (auto intro!: less_imp_le score_less_rank_key f32_lt_imp_less intro: f32_lt_le_trans)
    with best full show ?thesis
      unfolding split by (intro best_of_extend) simp_all
  qed
  with below show ?thesis by blast
qed

lemma final_state:
  assumes "0 < k" and rows: "admitted_rows p opts rows"
    and honest: "honest_scans p opts k rows [] (start_state p opts v rid) events"
    and loop: "stream_loop p opts k (start_state p opts v rid) events = Inr st"
  obtains E where "stream_inv opts k (requests opts v rid (pinned_shards p)) E st"
    and "sq_remaining st = 0" and "covered rows E st" and "distinct E" and "set E \<subseteq> set rows"
proof -
  obtain used rest where run: "events = used @ rest" "stream_run p opts k (start_state p opts v rid) used = Inr st"
      "sq_remaining st = 0"
    using stream_loop_run [where p = p and opts = opts and k = k and es = events and st = "start_state p opts v rid"]
      loop by auto
  note inv = start_state_inv [OF \<open>0 < k\<close>, where opts = opts and v = v and rid = rid and p = p]
  have "covered rows [] (start_state p opts v rid)"
    by (auto simp: covered_def initial_state_def)
  note H = honest_run [OF inv \<open>0 < k\<close> run(2) honest [unfolded run(1)] this, simplified]
  show ?thesis
    by (rule that [of "emitted opts used"])
      (use H stream_run_inv [OF inv \<open>0 < k\<close> run(2)] run(3) in simp_all)
qed

text \<open>The k-th score is the heap root's.\<close>

lemma last_sorted_score:
  assumes "heap_ok h" and peek: "heap_peek h = Some root"
  shows "score (last (sort_candidates h)) = score root"
proof -
  have root: "root \<in> set h" "\<forall>x \<in> set h. rank_key x \<le> rank_key root"
    using heap.peek_greatest [OF assms] by simp_all
  then have "sort_candidates h \<noteq> []"
    by (metis length_0_conv length_sort_candidates list.set_cases neq_Nil_conv)
  then obtain xs x where xs: "sort_candidates h = xs @ [x]"
    by (metis append_butlast_last_id)
  then have "\<forall>y \<in> set h. rank_key y \<le> rank_key x"
    using sorted_sort_key [of rank_key h] set_sort_candidates [of h]
    by (auto simp: sort_candidates_def sorted_append simp del: set_sort_candidates)
  moreover have "x \<in> set h"
    using set_sort_candidates [of h] xs by auto
  ultimately have "rank_key x = rank_key root"
    using root by (metis antisym)
  then show ?thesis
    using xs by (metis antisym last_snoc order_refl rank_key_le_score)
qed

text \<open>Above a boundary that is at least the published floor the tie list is complete.\<close>

lemma ties_above:
  assumes "ties_inv opts E st" and "tie_complete opts"
    and "published_floor st = start_floor opts \<or> f32_ge b (published_floor st)"
  shows "filter (\<lambda>c. f32_ge (score c) b) (tie_candidates st) = filter (\<lambda>c. f32_ge (score c) b) E"
proof (cases "published_floor st = start_floor opts")
  case True
  with assms show ?thesis by (simp add: ties_inv_def)
next
  case False
  then have "f32_ge x b \<Longrightarrow> f32_ge x (published_floor st)" for x
    using assms(3) by (blast intro: f32_le_trans)
  then have two: "filter (\<lambda>c. f32_ge (score c) b) xs =
      filter (\<lambda>c. f32_ge (score c) b) (filter (\<lambda>c. f32_ge (score c) (published_floor st)) xs)" for xs
    by (auto intro!: filter_cong)
  show ?thesis
    using assms(1,2) by (subst (1 2) two) (simp add: ties_inv_def del: filter_filter)
qed

lemma sort_above_boundary:
  assumes rows: "admitted_rows p opts rows" and E: "distinct E" "set E \<subseteq> set rows"
    and below: "\<forall>c \<in> set rows - set E. f32_lt (score c) b"
  shows "sort_candidates (filter (\<lambda>c. f32_ge (score c) b) E) =
    sort_candidates (filter (\<lambda>c. f32_ge (score c) b) rows)" (is "sort_candidates (?above E) = _")
  unfolding sort_candidates_def
proof (rule sort_key_mset_unique)
  have "set (?above E) = set (?above rows)"
    using E(2) below by (auto dest: f32_le_lt_trans)
  moreover have "distinct (?above E)" "distinct (?above rows)"
    using E(1) admitted_distinct [OF rows] by simp_all
  ultimately have "mset (?above E) = mset (?above rows)"
    using set_eq_iff_mset_eq_distinct by blast
  then show "mset (sort_key rank_key (?above E)) = mset (sort_key rank_key (?above rows))"
    by (simp only: mset_sort)
  show "inj_on rank_key (set (sort_key rank_key (?above E)))"
    using admitted_inj [OF rows] E(2) by (auto intro: inj_on_subset)
qed simp_all

lemma final_candidates_exact:
  assumes "0 < k" and rows: "admitted_rows p opts rows"
    and "honest_scans p opts k rows [] (start_state p opts v rid) events"
    and "stream_loop p opts k (start_state p opts v rid) events = Inr st"
  shows "final_candidates opts st = (if tie_complete opts then tied_rows k rows else top_rows k rows)"
proof -
  obtain E where inv: "stream_inv opts k (requests opts v rid (pinned_shards p)) E st"
    and E: "sq_remaining st = 0" "covered rows E st" "distinct E" "set E \<subseteq> set rows"
    using final_state [OF assms] .
  note F = final_heap_best [OF inv E(1) rows _ E(2-4), simplified]
  have top: "sort_candidates (sq_heap st) = top_rows k rows"
    using best_of_take_sort [OF conjunct1 [OF F] admitted_inj [OF rows]]
    by (simp add: sort_candidates_def top_rows_def)
  show ?thesis
  proof (cases "tie_complete opts")
    case False
    with top show ?thesis by (simp add: final_candidates_def)
  next
    case ties: True
    show ?thesis
    proof (cases "heap_peek (sq_heap st)")
      case None
      then have "top_rows k rows = []" using top by (auto simp: sort_candidates_def)
      moreover have "E = []" and "published_floor st = start_floor opts"
        using inv None \<open>0 < k\<close> best_of_size [of rank_key k "mset E" "mset (sq_heap st)"]
        by (auto simp: stream_inv_def heap_inv_def floor_inv_def min_def split: if_splits)
      ultimately show ?thesis
        using None ties inv
        by (simp add: final_candidates_def tied_rows_def stream_inv_def ties_inv_def sort_candidates_def)
    next
      case (Some root)
      let ?above = "filter (\<lambda>c. f32_ge (score c) (score root))"
      have ok: "heap_ok (sq_heap st)" and "ties_inv opts E st" and floor: "floor_inv opts k st"
        using inv by (simp_all add: stream_inv_def heap_inv_def)
      have root: "root \<in> set (sq_heap st)"
        using heap.peek_greatest [OF ok Some] by simp
      have boundary: "published_floor st = start_floor opts \<or> f32_ge (score root) (published_floor st)"
        using floor root by (auto simp: floor_inv_def)
      have "top_rows k rows \<noteq> []"
        using top root by (metis empty_iff empty_set set_sort_candidates)
      moreover have "score (last (top_rows k rows)) = score root"
        using last_sorted_score [OF ok Some] top by simp
      moreover have "sort_candidates (?above E) = sort_candidates (?above rows)"
      proof (rule sort_above_boundary [OF rows E(3,4)])
        show "\<forall>c \<in> set rows - set E. f32_lt (score c) (score root)"
          using F boundary by (metis f32_lt_le_trans)
      qed
      ultimately show ?thesis
        using ties Some ties_above [OF \<open>ties_inv opts E st\<close> ties boundary]
        by (simp add: final_candidates_def tied_rows_def)
    qed
  qed
qed

lemma start_state_n [simp]:
  "sq_completed (start_state p opts v rid) = replicate (length (pinned_shards p)) False"
  "published_floor (start_state p opts v rid) = start_floor opts"
  by (simp_all add: initial_state_def)

lemma rows_in_range:
  "admitted_rows p opts rows \<Longrightarrow> set cs \<subseteq> set rows \<Longrightarrow>
     list_all (\<lambda>c. shard_rank c < length (pinned_shards p)) cs"
  by (auto simp: admitted_rows_def list_all_iff)

lemma top_rows_subset: "set (top_rows k rows) \<subseteq> set rows"
  using set_take_subset [of k "sort_candidates rows"] by (simp add: top_rows_def)

lemma tied_rows_subset: "set (tied_rows k rows) \<subseteq> set rows"
  by (auto simp: tied_rows_def)

lemma stream_query_answer:
  assumes "0 < k" and "admitted_rows p opts rows"
    and "honest_scans p opts k rows [] (start_state p opts v rid) events"
    and "stream_query connect start p v k opts rid events = (Inr ns, ws)"
  shows "ns = map (to_neighbour p) (if tie_complete opts then tied_rows k rows else top_rows k rows)"
proof -
  obtain st where st: "stream_loop p opts k (start_state p opts v rid) events = Inr st"
      "neighbours (pinned_shards p) (final_candidates opts st) = Inr ns"
    using assms(4) by (auto simp: stream_query_Inr)
  note final = final_candidates_exact [OF assms(1-3) st(1)]
  have "set (final_candidates opts st) \<subseteq> set rows"
    using top_rows_subset tied_rows_subset by (simp add: final)
  then show ?thesis
    using neighbours_Inr [OF rows_in_range [OF assms(2)]] st(2) final by auto
qed

section \<open>A concrete search\<close>

text \<open>Two shards; the second withholds a row below the floor that the others raised.\<close>

definition example_options :: "bool \<Rightarrow> query_options" where
  "example_options ties =
     \<lparr>stable_label_order = False, allowed_labels = [], allowed_label_bitmaps = [],
      has_allowed_labels = False, initial_floor = None, tie_complete = ties\<rparr>"

definition example_probe :: "string \<Rightarrow> probe" where
  "example_probe a =
     \<lparr>probe_address = a, probe_index_id = ''i'',
      probe_info = \<lparr>info_index_id = ''i'', info_kind = 1, info_dim = 2, info_bit_width = 4, info_len = 3,
        info_calibration_state = 1, info_labelled = False, info_generation = 0\<rparr>,
      probe_calibration = \<lparr>cal_state = 1, tqplus_shift = [], tqplus_scale = []\<rparr>\<rparr>"

definition example_pinned :: pinned where
  "example_pinned =
     \<lparr>pinned_generation = 1, pinned_shards = [example_probe ''a'', example_probe ''b''],
      pinned_dim = 2, pinned_rows = 6, pinned_calibration = \<lparr>cal_state = 1, tqplus_shift = [], tqplus_scale = []\<rparr>\<rparr>"

text \<open>3.0, 2.0, 1.0 and 0.5.\<close>

definition example_row :: "nat \<Rightarrow> u64 \<Rightarrow> u32 \<Rightarrow> heap_candidate" where
  "example_row i sl w =
     \<lparr>score = F32 w, shard_rank = i, slot = sl, label = None, label_order_key = None\<rparr>"

definition example_rows :: "heap_candidate list" where
  "example_rows =
     [example_row 0 0 0x40400000, example_row 0 1 0x3F800000, example_row 0 2 0x40000000,
      example_row 1 0 0x40000000, example_row 1 1 0x3F000000]"

definition example_batch :: "u32 list \<Rightarrow> u64 list \<Rightarrow> stream_search_batch" where
  "example_batch scores slots =
     \<lparr>batch_scores = map F32 scores, batch_slots = slots, batch_labels = []\<rparr>"

definition example_events :: "stream_event list" where
  "example_events =
     [EvMessage 0 (Some (Batch (example_batch [0x40400000, 0x3F800000] [0, 1]))),
      EvMessage 1 (Some (Batch (example_batch [0x40000000] [0]))),
      EvMessage 1 (Some (Summary \<lparr>summary_completed = True, summary_emitted = 1,
        summary_blocks_scanned = 1, summary_floor_raises_applied = 1\<rparr>)),
      EvClosed 1,
      EvMessage 0 (Some (Batch (example_batch [0x40000000] [2]))),
      EvMessage 0 (Some (Summary \<lparr>summary_completed = True, summary_emitted = 3,
        summary_blocks_scanned = 1, summary_floor_raises_applied = 1\<rparr>))]"

abbreviation example_query :: "bool \<Rightarrow> (status failure + neighbour list) \<times> stream_search_request list" where
  "example_query ties \<equiv>
     stream_query (\<lambda>_. Inr ()) (\<lambda>_. Inr ()) example_pinned [] 2 (example_options ties) ''r'' example_events"

text \<open>
  C1. Exact search: when a search without tie completion returns, and every shard scans honestly
  (\<open>honest_scans\<close>: it emits its own rows, each once, and withholds only rows below the floor in
  force when it completes), the answer is the first k of all admitted rows of all shards, in rank
  order, each named by its shard and slot. The order of the events is arbitrary.
\<close>

theorem stream_query_top_k:
  assumes "0 < k" and "\<not> tie_complete opts" and "admitted_rows p opts rows"
    and "honest_scans p opts k rows [] (start_state p opts v rid) events"
    and "stream_query connect start p v k opts rid events = (Inr ns, ws)"
  shows "ns = map (to_neighbour p) (take k (sort_candidates rows))"
  using stream_query_answer [OF assms(1,3-5)] assms(2) by (simp add: top_rows_def)

theorem stream_query_top_k_witness:
  "fst (example_query False) =
     Inr (map (to_neighbour example_pinned) (take 2 (sort_candidates example_rows)))"
proof -
  obtain ns ws where answer: "example_query False = (Inr ns, ws)"
  proof (rule that)
    show "example_query False =
        (Inr (projr (fst (example_query False))), snd (example_query False))"
      by code_simp
  qed
  have "ns = map (to_neighbour example_pinned) (take 2 (sort_candidates example_rows))"
    by (rule stream_query_top_k [OF _ _ _ _ answer]) code_simp+
  with answer show ?thesis by simp
qed

text \<open>
  C2. Tie completion: with \<open>tie_complete\<close> set the answer is every admitted row whose score reaches
  the k-th best score, in rank order: nothing tied with the boundary is lost to a floor that rose
  during the scan, to the heap's eviction or to the interleaving of the shards.
\<close>

theorem stream_query_tie_complete:
  assumes "0 < k" and "tie_complete opts" and "admitted_rows p opts rows"
    and "honest_scans p opts k rows [] (start_state p opts v rid) events"
    and "stream_query connect start p v k opts rid events = (Inr ns, ws)"
  shows "ns = map (to_neighbour p) (tied_rows k rows)"
  using stream_query_answer [OF assms(1,3-5)] assms(2) by simp

theorem stream_query_tie_complete_witness:
  "fst (example_query True) = Inr (map (to_neighbour example_pinned) (tied_rows 2 example_rows))"
proof -
  obtain ns ws where answer: "example_query True = (Inr ns, ws)"
  proof (rule that)
    show "example_query True = (Inr (projr (fst (example_query True))), snd (example_query True))"
      by code_simp
  qed
  have "ns = map (to_neighbour example_pinned) (tied_rows 2 example_rows)"
    by (rule stream_query_tie_complete [OF _ _ _ _ answer]) code_simp+
  with answer show ?thesis by simp
qed

section \<open>When a search returns\<close>

text \<open>
  The event orders a search accepts, up to the last completion: batches that line up and carry
  no NaN from shards still scanning, one completion summary per shard, no stream error and no
  stream closed before its summary.
\<close>

fun orderly :: "query_options \<Rightarrow> bool list \<Rightarrow> stream_event list \<Rightarrow> bool" where
  "orderly opts completed [] \<longleftrightarrow> list_all id completed"
| "orderly opts completed (e # es) \<longleftrightarrow>
     list_all id completed \<or>
     (case e of
        EvMessage i (Some (Batch b)) \<Rightarrow>
          i < length completed \<and> \<not> completed ! i \<and> well_formed_batch opts b \<and> orderly opts completed es
      | EvMessage i (Some (Summary s)) \<Rightarrow>
          i < length completed \<and> \<not> completed ! i \<and> summary_completed s \<and>
          orderly opts (completed[i := True]) es
      | EvClosed i \<Rightarrow> i < length completed \<and> completed ! i \<and> orderly opts completed es
      | _ \<Rightarrow> False)"

lemma nth_opt_Some_iff: "nth_opt xs i = Some x \<longleftrightarrow> i < length xs \<and> xs ! i = x"
  by (auto simp: nth_opt_def)

lemma list_all_id: "list_all id bs \<longleftrightarrow> False \<notin> set bs"
  by (induction bs) auto

lemma remaining_zero:
  "stream_inv opts k opened E st \<Longrightarrow> list_all id (sq_completed st) \<longleftrightarrow> sq_remaining st = 0"
  by (auto simp: stream_inv_def control_inv_def count_list_zero_iff list_all_id)

lemma batch_orderly:
  assumes inv: "stream_inv opts k opened E st" and "0 < k" and len: "length opened = length (pinned_shards p)"
  shows "(\<exists>st1. on_batch p opts k i b st = Inr st1 \<and> Q (sq_completed st1)) \<longleftrightarrow>
    i < length (sq_completed st) \<and> \<not> sq_completed st ! i \<and> well_formed_batch opts b \<and> Q (sq_completed st)"
proof
  assume "\<exists>st1. on_batch p opts k i b st = Inr st1 \<and> Q (sq_completed st1)"
  then obtain st1 shard where st1: "on_batch p opts k i b st = Inr st1" "Q (sq_completed st1)"
      "nth_opt (sq_completed st) i = Some False" "nth_opt (pinned_shards p) i = Some shard"
      "well_formed_batch opts b"
    using on_batch_Inr by blast
  then show "i < length (sq_completed st) \<and> \<not> sq_completed st ! i \<and> well_formed_batch opts b \<and> Q (sq_completed st)"
    using on_batch_inv [OF inv \<open>0 < k\<close> st1(3-5)] by (auto simp: nth_opt_Some_iff)
next
  assume R: "i < length (sq_completed st) \<and> \<not> sq_completed st ! i \<and> well_formed_batch opts b \<and> Q (sq_completed st)"
  then have "nth_opt (sq_completed st) i = Some False" "nth_opt (pinned_shards p) i = Some (pinned_shards p ! i)"
    using inv len by (auto simp: nth_opt_Some_iff stream_inv_def control_inv_def)
  then show "\<exists>st1. on_batch p opts k i b st = Inr st1 \<and> Q (sq_completed st1)"
    using on_batch_inv [OF inv \<open>0 < k\<close>, of i p] R by fastforce
qed

lemma summary_orderly:
  assumes inv: "stream_inv opts k opened E st" and len: "length opened = length (pinned_shards p)"
  shows "(\<exists>st1. on_summary p i s st = Inr st1 \<and> Q (sq_completed st1)) \<longleftrightarrow>
    i < length (sq_completed st) \<and> \<not> sq_completed st ! i \<and> summary_completed s
      \<and> Q ((sq_completed st)[i := True])"
proof
  assume "\<exists>st1. on_summary p i s st = Inr st1 \<and> Q (sq_completed st1)"
  then show "i < length (sq_completed st) \<and> \<not> sq_completed st ! i \<and> summary_completed s
      \<and> Q ((sq_completed st)[i := True])"
    using on_summary_Inr [OF inv] by (fastforce simp: nth_opt_Some_iff)
next
  assume R: "i < length (sq_completed st) \<and> \<not> sq_completed st ! i \<and> summary_completed s
      \<and> Q ((sq_completed st)[i := True])"
  then have "nth_opt (sq_completed st) i = Some False" "nth_opt (pinned_shards p) i = Some (pinned_shards p ! i)"
    using inv len by (auto simp: nth_opt_Some_iff stream_inv_def control_inv_def)
  then obtain st1 where "on_summary p i s st = Inr st1"
    using on_summary_ok [OF inv] R by blast
  then show "\<exists>st1. on_summary p i s st = Inr st1 \<and> Q (sq_completed st1)"
    using on_summary_Inr [OF inv] R by fastforce
qed

lemma stream_loop_orderly:
  assumes "stream_inv opts k opened E st" and "0 < k" and len: "length opened = length (pinned_shards p)"
  shows "(\<exists>st'. stream_loop p opts k st es = Inr st') \<longleftrightarrow> orderly opts (sq_completed st) es"
  using assms(1)
proof (induction es arbitrary: st E)
  case Nil
  then show ?case using remaining_zero [OF Nil] by simp
next
  case (Cons e es)
  note inv = Cons.prems
  have step_iff: "(\<exists>st'. stream_loop p opts k st (e # es) = Inr st') \<longleftrightarrow>
      sq_remaining st = 0 \<or> (\<exists>st1. stream_step p opts k e st = Inr st1 \<and> orderly opts (sq_completed st1) es)"
  proof (cases "stream_step p opts k e st")
    case (Inr st1)
    with Cons.IH [OF conjunct1 [OF stream_step_Inr [OF inv \<open>0 < k\<close> Inr]]] show ?thesis by simp
  qed simp
  show ?case
    unfolding step_iff
    using remaining_zero [OF inv] batch_orderly [OF inv \<open>0 < k\<close> len, where Q = "\<lambda>c. orderly opts c es"]
      summary_orderly [OF inv len, where Q = "\<lambda>c. orderly opts c es"]
    by (auto split: stream_event.splits option.splits stream_search_payload.splits bool.splits
        simp: nth_opt_def shard_error_def)
qed

text \<open>Every kept candidate names a pinned shard.\<close>

lemma emitted_in_range:
  assumes "stream_run p opts k st es = Inr st'"
  shows "list_all (\<lambda>c. shard_rank c < length (pinned_shards p)) (emitted opts es)"
  using assms
proof (induction es arbitrary: st)
  case (Cons e es)
  then obtain st1 where st1: "stream_step p opts k e st = Inr st1" "stream_run p opts k st1 es = Inr st'"
    by (auto elim: rbind_InrE)
  have "list_all (\<lambda>c. shard_rank c < length (pinned_shards p)) (event_candidates opts e)"
    using st1(1) by (cases "(opts, e)" rule: event_candidates.cases)
      (auto simp: list_all_iff nth_opt_Some_iff dest!: on_batch_Inr shard_rank_batch)
  with Cons.IH [OF st1(2)] show ?case by simp
qed simp

lemma final_candidates_subset:
  assumes inv: "stream_inv opts k opened E st" and "0 < k"
  shows "set (final_candidates opts st) \<subseteq> set E"
proof (cases "tie_complete opts")
  case False
  then show ?thesis
    using heap_inv_subset [of k E st] inv by (simp add: final_candidates_def stream_inv_def)
next
  case ties: True
  have inv': "ties_inv opts E st" "floor_inv opts k st" "heap_ok (sq_heap st)"
    using inv by (simp_all add: stream_inv_def heap_inv_def)
  show ?thesis
  proof (cases "heap_peek (sq_heap st)")
    case None
    then have "published_floor st = start_floor opts"
      using inv' \<open>0 < k\<close> by (auto simp: floor_inv_def)
    with None ties inv' show ?thesis
      by (simp add: final_candidates_def ties_inv_def)
  next
    case (Some root)
    then have "published_floor st = start_floor opts \<or> f32_ge (score root) (published_floor st)"
      using inv' heap.peek_greatest [OF inv'(3) Some] by (auto simp: floor_inv_def)
    then show ?thesis
      using ties_above [OF inv'(1) ties] ties Some by (simp add: final_candidates_def)
  qed
qed

lemma loop_neighbours:
  assumes "0 < k" and loop: "stream_loop p opts k (start_state p opts v rid) events = Inr st"
  shows "\<exists>ns. neighbours (pinned_shards p) (final_candidates opts st) = Inr ns"
proof -
  obtain used where run: "stream_run p opts k (start_state p opts v rid) used = Inr st"
    using stream_loop_run [where p = p and opts = opts and k = k and es = events and st = "start_state p opts v rid"]
      loop by auto
  have "stream_inv opts k (requests opts v rid (pinned_shards p)) (emitted opts used) st"
    using stream_run_inv [OF start_state_inv [OF \<open>0 < k\<close>] \<open>0 < k\<close> run] by simp
  note sub = final_candidates_subset [OF this \<open>0 < k\<close>]
  then have "list_all (\<lambda>c. shard_rank c < length (pinned_shards p)) (final_candidates opts st)"
    using emitted_in_range [OF run] by (auto simp: list_all_iff)
  then show ?thesis
    by (simp add: neighbours_Inr)
qed

text \<open>
  C3. Liveness and its converse: a search returns an answer exactly when every shard accepts its
  stream and the events are \<open>orderly\<close>: every shard completes once, nothing follows a completion
  and nothing malformed arrives. No answer is ever given from an incomplete collection.
\<close>

theorem stream_query_returns_iff:
  assumes "0 < k"
  shows "(\<exists>ns ws. stream_query connect start p v k opts rid events = (Inr ns, ws)) \<longleftrightarrow>
    reachable_shards connect start (pinned_shards p) \<and>
    orderly opts (replicate (length (pinned_shards p)) False) events"
proof -
  have "(\<exists>st. stream_loop p opts k (start_state p opts v rid) events = Inr st) \<longleftrightarrow>
      orderly opts (replicate (length (pinned_shards p)) False) events"
    using stream_loop_orderly [OF start_state_inv [OF assms] assms] by simp
  then show ?thesis
    unfolding stream_query_Inr using loop_neighbours [OF assms] by metis
qed

theorem stream_query_returns_iff_witness:
  "(\<exists>ns ws. stream_query (\<lambda>_. Inr ()) (\<lambda>_. Inr ()) example_pinned [] 2 (example_options True) ''r''
      example_events = (Inr ns, ws)) \<and>
   \<not> (\<exists>ns ws. stream_query (\<lambda>_. Inr ()) (\<lambda>_. Inr ()) example_pinned [] 2 (example_options True) ''r''
      (take 5 example_events) = (Inr ns, ws))"
proof -
  have "reachable_shards (\<lambda>_. Inr ()) (\<lambda>_. Inr ()) (pinned_shards example_pinned) \<and>
      orderly (example_options True) (replicate (length (pinned_shards example_pinned)) False) example_events"
    "\<not> orderly (example_options True) (replicate (length (pinned_shards example_pinned)) False)
      (take 5 example_events)"
    by code_simp+
  then show ?thesis
    by (simp only: stream_query_returns_iff zero_less_numeral simp_thms)
qed

section \<open>When a search fails\<close>

lemma broadcast_floor_stop:
  "broadcast_floor f cs i os ws = Inr ws' \<Longrightarrow> StopStreamSearch \<notin> set ws \<Longrightarrow> StopStreamSearch \<notin> set ws'"
proof (induction f cs i os ws rule: broadcast_floor.induct)
  case (2 f cs i o os ws)
  have "StopStreamSearch \<notin> set (ws[i := FloorUpdate f])"
    using 2(4) set_update_subset_insert [of ws i "FloorUpdate f"] by auto
  with 2 show ?case by (auto split: option.splits bool.splits)
qed simp

lemma stream_step_stop:
  assumes "stream_step p opts k e st = Inr st'" and "StopStreamSearch \<notin> set (watches st)"
  shows "StopStreamSearch \<notin> set (watches st')"
proof -
  have publish: "publish_floor opts k s = Inr st' \<Longrightarrow> StopStreamSearch \<notin> set (watches s) \<Longrightarrow>
      StopStreamSearch \<notin> set (watches st')" for s
    by (auto simp: publish_floor_def Let_def rbind_Inr_iff broadcast_floor_stop split: if_splits option.splits)
  show ?thesis
    using assms
    by (cases "(p, opts, k, e, st)" rule: stream_step.cases)
      (auto dest!: on_batch_Inr dest: publish simp: on_summary_def split: option.splits bool.splits if_splits)
qed

lemma never_stopped:
  assumes "stream_run p opts k (start_state p opts v rid) used = Inr st"
  shows "StopStreamSearch \<notin> set (watches st)"
proof -
  have keep: "stream_run p opts k s es = Inr s' \<Longrightarrow> StopStreamSearch \<notin> set (watches s) \<Longrightarrow>
      StopStreamSearch \<notin> set (watches s')" for s s' es
    by (induction es arbitrary: s) (auto elim!: rbind_InrE dest: stream_step_stop)
  show ?thesis
    by (rule keep [OF assms]) (auto simp: initial_state_def requests_def start_request_def)
qed

text \<open>
  C4. Cancellation: a search that fails after opening its streams has consumed a prefix of the
  events without error; every shard whose completion summary is not in that prefix ends with
  \<open>Stop\<close> as the latest value of its request stream, and no other shard is stopped. The error is
  the one of the first rejected event, or the collapse of every stream.
\<close>

theorem stream_query_failure_cancels:
  assumes "0 < k" and "reachable_shards connect start (pinned_shards p)"
    and "stream_query connect start p v k opts rid events = (Inl err, ws)"
  shows "\<exists>used rest st. events = used @ rest \<and>
    stream_run p opts k (start_state p opts v rid) used = Inr st \<and>
    (case rest of
       [] \<Rightarrow> err = Failed (internal [Lit ''all shard response streams closed before completing''])
     | e # _ \<Rightarrow> stream_step p opts k e st = Inl err) \<and>
    length ws = length (pinned_shards p) \<and>
    (\<forall>i < length ws. ws ! i = StopStreamSearch \<longleftrightarrow> \<not> list_ex (finishes i) used)"
proof -
  obtain st where loop: "stream_loop p opts k (start_state p opts v rid) events = Inl (err, st)"
      "ws = drop_controls (outbound st) (watches st)"
    using assms(2,3) by (auto simp: stream_query_def open_streams_reachable split: sum.splits prod.splits
        dest: loop_neighbours [OF \<open>0 < k\<close>])
  then obtain used rest where run: "events = used @ rest"
      "stream_run p opts k (start_state p opts v rid) used = Inr st"
      "case rest of
         [] \<Rightarrow> err = Failed (internal [Lit ''all shard response streams closed before completing''])
       | e # _ \<Rightarrow> stream_step p opts k e st = Inl err"
    using stream_loop_run [where p = p and opts = opts and k = k and es = events and st = "start_state p opts v rid"]
    by auto
  note R = stream_run_inv [OF start_state_inv [OF \<open>0 < k\<close>] \<open>0 < k\<close> run(2)]
  have ctl: "length (sq_completed st) = length (pinned_shards p)"
      "length (watches st) = length (pinned_shards p)" "outbound st = controls (sq_completed st)"
    using R by (simp_all add: stream_inv_def control_inv_def)
  have "sq_completed st ! i \<longleftrightarrow> list_ex (finishes i) used" if "i < length (pinned_shards p)" for i
    using R that by (simp add: list_ex_iff)
  then have "length ws = length (pinned_shards p) \<and>
    (\<forall>i < length ws. ws ! i = StopStreamSearch \<longleftrightarrow> \<not> list_ex (finishes i) used)"
    using ctl never_stopped [OF run(2)] by (auto simp: loop(2) drop_controls_def in_set_conv_nth)
  with run show ?thesis by blast
qed

theorem stream_query_failure_cancels_witness:
  "snd (stream_query (\<lambda>_. Inr ()) (\<lambda>_. Inr ()) example_pinned [] 2 (example_options False) ''r''
          (take 4 example_events)) ! 0 = StopStreamSearch"
proof -
  let ?q = "stream_query (\<lambda>_. Inr ()) (\<lambda>_. Inr ()) example_pinned [] 2 (example_options False) ''r''
      (take 4 example_events)"
  let ?err = "Failed (internal [Lit ''all shard response streams closed before completing''])"
  have failed: "?q = (Inl ?err, snd ?q)" by code_simp
  have reachable: "reachable_shards (\<lambda>_. Inr ()) (\<lambda>_. Inr ()) (pinned_shards example_pinned)" by code_simp
  have "\<exists>used. set used \<subseteq> set (take 4 example_events) \<and> length (snd ?q) = 2 \<and>
      (\<forall>i < length (snd ?q). snd ?q ! i = StopStreamSearch \<longleftrightarrow> \<not> list_ex (finishes i) used)"
    using stream_query_failure_cancels [OF _ reachable failed]
    by (auto simp: example_pinned_def)
  moreover have "\<forall>e \<in> set (take 4 example_events). \<not> finishes 0 e" by code_simp
  ultimately show ?thesis
    by (auto simp: list_ex_iff subset_iff)
qed

lemma on_batch_no_panic:
  assumes inv: "stream_inv opts k opened E st" and "0 < k"
    and len: "length opened = length (pinned_shards p)" and i: "i < length (pinned_shards p)"
  shows "on_batch p opts k i b st \<noteq> Inl Panic"
proof -
  have nth: "nth_opt (sq_completed st) i = Some (sq_completed st ! i)"
      "nth_opt (pinned_shards p) i = Some (pinned_shards p ! i)"
    using inv len i by (auto simp: nth_opt_Some_iff stream_inv_def control_inv_def)
  show ?thesis
  proof (cases "\<not> sq_completed st ! i \<and> well_formed_batch opts b")
    case True
    then show ?thesis
      using on_batch_inv [OF inv \<open>0 < k\<close> _ nth(2)] nth(1) by fastforce
  next
    case bad: False
    let ?collect = "collect_candidates opts k i (probe_address (pinned_shards p ! i)) (batch_labels b \<noteq> [])
        (batch_labels b) 0 (zip (batch_scores b) (batch_slots b)) (sq_heap st, tie_candidates st)"
    show ?thesis
    proof (cases "length (batch_scores b) = length (batch_slots b)
        \<and> (batch_labels b = [] \<or> length (batch_labels b) = length (batch_scores b))
        \<and> (stable_label_order opts \<and> batch_labels b = [] \<longrightarrow> batch_scores b = []) \<and> \<not> sq_completed st ! i")
      case True
      then have "?collect \<noteq> Inl Panic"
        by (intro collect_candidates_no_panic) auto
      moreover have "?collect \<noteq> Inr r" for r
        using True bad by (auto simp: well_formed_batch_def ball_zip_left dest!: collect_candidates_Inr)
      ultimately obtain m where "?collect = Inl (Failed m)"
        by (metis failure.exhaust sum.exhaust)
      with True nth show ?thesis
        by (auto simp: on_batch_def)
    next
      case False
      with nth show ?thesis by (auto simp: on_batch_def)
    qed
  qed
qed

fun event_shard :: "stream_event \<Rightarrow> nat" where
  "event_shard (EvMessage i _) = i"
| "event_shard (EvError i _) = i"
| "event_shard (EvClosed i) = i"

lemma stream_step_no_panic:
  assumes inv: "stream_inv opts k opened E st" and "0 < k"
    and len: "length opened = length (pinned_shards p)" and "event_shard e < length (pinned_shards p)"
  shows "stream_step p opts k e st \<noteq> Inl Panic"
proof -
  have i: "nth_opt (sq_completed st) (event_shard e) = Some (sq_completed st ! event_shard e)"
      "nth_opt (pinned_shards p) (event_shard e) = Some (pinned_shards p ! event_shard e)"
      "nth_opt (outbound st) (event_shard e) =
         Some (if sq_completed st ! event_shard e then None else Some False)"
    using inv len assms(4) by (auto simp: nth_opt_Some_iff stream_inv_def control_inv_def)
  show ?thesis
    using i on_batch_no_panic [OF inv \<open>0 < k\<close> len] assms(4)
    by (cases "(p, opts, k, e, st)" rule: stream_step.cases)
      (auto simp: on_summary_def shard_error_def split: bool.splits)
qed

text \<open>
  No panic: with a positive k and events of pinned shards only, no batch content, event order
  or shard misbehaviour makes the collector index out of range or unwrap an absent value.
\<close>

theorem stream_query_no_panic:
  assumes "0 < k" and "list_all (\<lambda>e. event_shard e < length (pinned_shards p)) events"
  shows "fst (stream_query connect start p v k opts rid events) \<noteq> Inl Panic"
proof (cases "reachable_shards connect start (pinned_shards p)")
  case False
  then show ?thesis
    using open_streams_unreachable [of connect start "pinned_shards p" opts v rid "[]"]
    by (auto simp: stream_query_def)
next
  case True
  show ?thesis
  proof
    assume "fst (stream_query connect start p v k opts rid events) = Inl Panic"
    then have "stream_query connect start p v k opts rid events =
        (Inl Panic, snd (stream_query connect start p v k opts rid events))"
      by (metis prod.collapse)
    from stream_query_failure_cancels [OF \<open>0 < k\<close> True this]
    obtain used rest st where run: "events = used @ rest"
        "stream_run p opts k (start_state p opts v rid) used = Inr st"
        "case rest of
           [] \<Rightarrow> Panic = Failed (internal [Lit ''all shard response streams closed before completing''])
         | e # _ \<Rightarrow> stream_step p opts k e st = Inl Panic"
      by blast
    then obtain e rest' where e: "rest = e # rest'" "stream_step p opts k e st = Inl Panic"
      by (cases rest) auto
    have "event_shard e < length (pinned_shards p)"
      using assms(2) by (simp add: run(1) e(1))
    with stream_step_no_panic [OF conjunct1 [OF stream_run_inv [OF start_state_inv [OF \<open>0 < k\<close>] \<open>0 < k\<close> run(2)]] \<open>0 < k\<close>]
    show False
      using e(2) by simp
  qed
qed

theorem stream_query_no_panic_witness:
  "fst (stream_query (\<lambda>_. Inr ()) (\<lambda>_. Inr ()) example_pinned [] 2 (example_options True) ''r''
     (example_events @ [EvClosed 1, EvMessage 0 None])) \<noteq> Inl Panic"
  by (rule stream_query_no_panic) code_simp+

section \<open>The rising floor\<close>

text \<open>The k-th best score of the candidates emitted so far, when it lies above the start floor.\<close>

definition kth_floor :: "query_options \<Rightarrow> nat \<Rightarrow> heap_candidate list \<Rightarrow> f32" where
  "kth_floor opts k cs =
     (if k \<le> length cs \<and> f32_lt (start_floor opts) (score (last (top_rows k cs)))
      then score (last (top_rows k cs)) else start_floor opts)"

lemma published_kth:
  assumes inv: "stream_inv opts k opened E st" and "0 < k" and inj: "inj_on rank_key (set E)"
  shows "f32_key (published_floor st) = f32_key (kth_floor opts k E)"
proof (cases "k \<le> length E")
  case False
  then have "length (sq_heap st) \<noteq> k"
    using inv best_of_size [of rank_key k "mset E" "mset (sq_heap st)"]
    by (auto simp: stream_inv_def heap_inv_def)
  with False inv show ?thesis
    by (auto simp: kth_floor_def stream_inv_def floor_inv_def)
next
  case True
  have I: "heap_ok (sq_heap st)" "best_of rank_key k (mset E) (mset (sq_heap st))"
      "\<forall>c \<in> set E. \<not> is_nan (score c)" "floor_inv opts k st"
    using inv by (simp_all add: stream_inv_def heap_inv_def)
  have full: "length (sq_heap st) = k"
    using best_of_size [OF I(2)] True by simp
  then obtain root where root: "heap_peek (sq_heap st) = Some root"
    using heap.full_peek \<open>0 < k\<close> by blast
  have "score (last (top_rows k E)) = score root"
    using last_sorted_score [OF I(1) root] best_of_take_sort [OF I(2) inj]
    by (simp add: sort_candidates_def top_rows_def)
  then have kth: "kth_floor opts k E =
      (if f32_lt (start_floor opts) (score root) then score root else start_floor opts)"
    using True by (simp add: kth_floor_def)
  have settled: "\<not> f32_lt (published_floor st) (score root)"
    using inv root full by (simp add: stream_inv_def raises_def)
  have "root \<in> set (sq_heap st)"
    using heap.peek_greatest [OF I(1) root] by simp
  then show ?thesis
    using I(4) settled f32_le_lt_trans [of _ "published_floor st"] kth
    by (auto simp: floor_inv_def f32_lt_def f32_le_def)
qed

text \<open>
  C5. The rising floor: after any accepted events the published floor is the k-th best score seen
  so far when that lies above the start floor (numerically, so that the two zeros count as one),
  and the start floor otherwise; every shard that has not completed holds exactly this floor, or
  its start request while no floor was published.
\<close>

theorem stream_floor_is_kth_score:
  assumes "0 < k" and "stream_run p opts k (start_state p opts v rid) used = Inr st"
    and "distinct (map (\<lambda>c. (shard_rank c, slot c)) (emitted opts used))"
  shows "f32_key (published_floor st) = f32_key (kth_floor opts k (emitted opts used)) \<and>
    (\<forall>i < length (pinned_shards p). \<not> list_ex (finishes i) used \<longrightarrow>
       watches st ! i = (if published_floor st = start_floor opts
         then start_request opts v rid (pinned_shards p ! i) else FloorUpdate (published_floor st)))"
proof -
  note R = stream_run_inv [OF start_state_inv [OF assms(1)] assms(1,2), simplified]
  have "inj_on rank_key (set (emitted opts used))"
    using assms(3) by (auto simp: rank_key_def distinct_map inj_on_def)
  with R have "f32_key (published_floor st) = f32_key (kth_floor opts k (emitted opts used))"
    using published_kth [OF _ assms(1)] by blast
  moreover have "watches st ! i = (if published_floor st = start_floor opts
         then start_request opts v rid (pinned_shards p ! i) else FloorUpdate (published_floor st))"
    if "i < length (pinned_shards p)" "\<not> list_ex (finishes i) used" for i
    using R that by (auto simp: stream_inv_def control_inv_def requests_def list_ex_iff)
  ultimately show ?thesis by blast
qed

theorem stream_floor_is_kth_score_witness:
  "\<exists>st. stream_run example_pinned (example_options False) 2
      (start_state example_pinned (example_options False) [] ''r'') (take 2 example_events) = Inr st \<and>
    f32_key (published_floor st) = 0x40000000 \<and>
    watches st ! 1 = FloorUpdate (published_floor st)"
proof -
  let ?o = "example_options False" and ?p = example_pinned and ?used = "take 2 example_events"
  let ?st = "projr (stream_run ?p ?o 2 (start_state ?p ?o [] ''r'') ?used)"
  have run: "stream_run ?p ?o 2 (start_state ?p ?o [] ''r'') ?used = Inr ?st" by code_simp
  have distinct: "distinct (map (\<lambda>c. (shard_rank c, slot c)) (emitted ?o ?used))" by code_simp
  have "f32_key (published_floor ?st) = f32_key (kth_floor ?o 2 (emitted ?o ?used)) \<and>
      (1 < length (pinned_shards ?p) \<longrightarrow> \<not> list_ex (finishes 1) ?used \<longrightarrow>
        watches ?st ! 1 = (if published_floor ?st = start_floor ?o
          then start_request ?o [] ''r'' (pinned_shards ?p ! 1) else FloorUpdate (published_floor ?st)))"
    using stream_floor_is_kth_score [OF _ run distinct] by auto
  moreover have "1 < length (pinned_shards ?p)" "\<not> list_ex (finishes 1) ?used"
      "f32_key (kth_floor ?o 2 (emitted ?o ?used)) = 0x40000000" "published_floor ?st \<noteq> start_floor ?o"
    by code_simp+
  ultimately show ?thesis
    using run by (intro exI [of _ ?st]) simp
qed

end
