(* ===== verification/Node_Scan.thy ===== *)
theory Node_Scan
  imports Node_Service
begin

text \<open>
  The streamed scan of one index: \<^verbatim>\<open>stream_search\<close> of \<^verbatim>\<open>src/src/service.rs\<close>. Three parties share a
  floor and a stop flag: the pump that reads the client's updates, the engine's scan with its two
  callbacks, and the task that reports how the scan ended. Their steps are the events of a run, in
  any order, so a statement about every run is one about every interleaving. The engine decides when
  it calls back and what it emits; \<open>lawful_event\<close> is its documented contract.
\<close>

section \<open>The shared floor\<close>

text \<open>
  The compare-and-swap loop. The pump is the only writer, so a failed exchange is a spurious one and
  returns the value already read; \<open>spurious\<close> of them happen.
\<close>

fun raise_floor :: "nat \<Rightarrow> f32 \<Rightarrow> f32 \<Rightarrow> f32" where
  "raise_floor spurious current candidate =
     (if f32_le candidate current then current
      else case spurious of 0 \<Rightarrow> candidate | Suc n \<Rightarrow> raise_floor n current candidate)"

declare raise_floor.simps [simp del]

lemma raise_floor_eq: "raise_floor n current candidate = (if f32_le candidate current then current else candidate)"
  by (induction n; subst raise_floor.simps) simp_all

section \<open>Starting a scan\<close>

text \<open>The checks before the scan is spawned: the index, its labels and the floor it starts with.\<close>

definition stream_start ::
    "service_limits \<Rightarrow> ('q, 'm) index_store \<Rightarrow> stream_search_request option option
     \<Rightarrow> status + (start_stream_search \<times> ('q, 'm) index \<times> u64 list option \<times> f32)" where
  "stream_start limits st first =
     (case first of
        None \<Rightarrow> Inl (invalid_argument [Lit ''stream must start with StartStreamSearch''])
      | Some (Some (StartSearch start)) \<Rightarrow>
          rbind (node_handle st (start_index_id start)) (\<lambda>ix.
            let labels = store_labels (start_index_id start) st in
            rbind (validate_vector_frame limits (length (start_vector start))) (\<lambda>_.
              if \<not> start_has_allowed_labels start \<and>
                  (start_allowed_labels start \<noteq> [] \<or> start_allowed_label_bitmaps start \<noteq> []) then
                Inl (invalid_argument [Lit ''allowed label filters require has_allowed_labels=true''])
              else if start_allowed_labels start \<noteq> [] \<and> start_allowed_label_bitmaps start \<noteq> [] then
                Inl (invalid_argument [Lit ''allowed_labels and allowed_label_bitmaps are mutually exclusive''])
              else
                rbind (validate_label_bitmaps (start_allowed_label_bitmaps start)) (\<lambda>_.
                  if start_has_allowed_labels start \<and> labels = None then
                    Inl (failed_precondition [Lit ''stable-label filtering requires a labelled positional index''])
                  else
                    (let floor = (case start_initial_floor start of None \<Rightarrow> neg_infinity | Some f \<Rightarrow> f) in
                     if is_nan floor then Inl (invalid_argument [Lit ''initial_floor must not be NaN''])
                     else Inr (start, ix, labels, floor)))))
      | Some _ \<Rightarrow> Inl (invalid_argument [Lit ''first stream message must be StartStreamSearch'']))"

text \<open>The checks of the blocking task; the mask is over the label table. \<open>Panic\<close> is its \<open>expect\<close>.\<close>

definition scan_setup ::
    "('q, 'm) engine \<Rightarrow> start_stream_search \<Rightarrow> ('q, 'm) index \<Rightarrow> u64 list option
     \<Rightarrow> status failure + ('q \<times> bool list option)" where
  "scan_setup eng start ix labels =
     rbind (checked (positional ''StreamSearch'' ix)) (\<lambda>q.
       case q_dim_opt eng q of
         None \<Rightarrow> Inl (Failed (failed_precondition [Lit ''index has no vectors; add vectors before searching'']))
       | Some dim \<Rightarrow>
           rbind (checked (validate_queries eng (start_vector start) dim)) (\<lambda>_.
             if length (start_vector start) \<noteq> dim then
               Inl (Failed (invalid_argument
                 [Lit ''StreamSearch accepts exactly one query of dim '', num dim, Lit ''; got '',
                  num (length (start_vector start)), Lit '' coordinates'']))
             else if start_has_allowed_labels start then
               (case labels of
                  None \<Rightarrow> Inl Panic
                | Some table \<Rightarrow>
                    (case allow_mask (start_allowed_labels start) (start_allowed_label_bitmaps start) table of
                       None \<Rightarrow> Inl Panic
                     | Some flags \<Rightarrow> Inr (q, Some flags)))
             else Inr (q, None)))"

section \<open>The pump, the callbacks and the end\<close>

record scan_state =
  sn_floor :: f32
  sn_stop :: bool
  sn_error :: "status option"
  sn_pumping :: bool
  sn_now :: f32
  sn_raises :: u64
  sn_halted :: bool
  sn_open :: bool
  sn_sent :: "(status + stream_search_payload) list"
  sn_done :: bool

definition scan_init :: "f32 \<Rightarrow> scan_state" where
  "scan_init floor =
     \<lparr>sn_floor = floor, sn_stop = False, sn_error = None, sn_pumping = True, sn_now = floor, sn_raises = 0,
      sn_halted = False, sn_open = True, sn_sent = [], sn_done = False\<rparr>"

datatype inbound = Message "stream_search_request option" | EndOfRequests | RequestError status

definition pump_fails :: "status \<Rightarrow> scan_state \<Rightarrow> scan_state" where
  "pump_fails e sn = sn\<lparr>sn_error := Some e, sn_stop := True, sn_pumping := False\<rparr>"

fun pump_message :: "nat \<Rightarrow> inbound \<Rightarrow> scan_state \<Rightarrow> scan_state" where
  "pump_message spurious (Message (Some (FloorUpdate f))) sn =
     (if is_nan f then pump_fails (invalid_argument [Lit ''floor must not be NaN'']) sn
      else sn\<lparr>sn_floor := raise_floor spurious (sn_floor sn) f\<rparr>)"
| "pump_message spurious (Message (Some StopStreamSearch)) sn = sn\<lparr>sn_stop := True, sn_pumping := False\<rparr>"
| "pump_message spurious (Message (Some (StartSearch _))) sn =
     pump_fails (invalid_argument [Lit ''StartStreamSearch must appear exactly once and first'']) sn"
| "pump_message spurious (Message None) sn =
     pump_fails (invalid_argument [Lit ''StartStreamSearch must appear exactly once and first'']) sn"
| "pump_message spurious EndOfRequests sn = sn\<lparr>sn_pumping := False\<rparr>"
| "pump_message spurious (RequestError e) sn = pump_fails e sn"

datatype stream_control = StopScan | RaiseFloor f32 | ContinueScan

text \<open>The control callback.\<close>

definition poll_control :: "scan_state \<Rightarrow> stream_control \<times> scan_state" where
  "poll_control sn =
     (if sn_stop sn then (StopScan, sn\<lparr>sn_halted := True\<rparr>)
      else if f32_gt (sn_floor sn) (sn_now sn) then
        (RaiseFloor (sn_floor sn), sn\<lparr>sn_now := sn_floor sn, sn_raises := sn_raises sn + 1\<rparr>)
      else (ContinueScan, sn))"

text \<open>The batch callback; \<open>None\<close> is a panic: a negative slot, or a slot outside the label table.\<close>

definition batch_of ::
    "u64 list option \<Rightarrow> f32 list \<Rightarrow> int list \<Rightarrow> stream_search_batch option" where
  "batch_of labels scores slots =
     (if \<not> list_all (\<lambda>s. 0 \<le> s) slots then None
      else
        (case (case labels of None \<Rightarrow> Some [] | Some table \<Rightarrow> slot_labels table (as_slots slots)) of
           None \<Rightarrow> None
         | Some ls \<Rightarrow> Some \<lparr>batch_scores = scores, batch_slots = as_slots slots, batch_labels = ls\<rparr>))"

definition emit_batch :: "u64 list option \<Rightarrow> f32 list \<Rightarrow> int list \<Rightarrow> scan_state \<Rightarrow> scan_state option" where
  "emit_batch labels scores slots sn =
     map_option (\<lambda>b. if sn_open sn then sn\<lparr>sn_sent := sn_sent sn @ [Inr (Batch b)]\<rparr> else sn\<lparr>sn_halted := True\<rparr>)
       (batch_of labels scores slots)"

record scan_summary =
  sw_completed :: bool
  sw_emitted :: nat
  sw_blocks :: nat

definition summary_of :: "scan_summary \<Rightarrow> u64 \<Rightarrow> stream_search_summary" where
  "summary_of s raises =
     \<lparr>summary_completed = sw_completed s, summary_emitted = as_u64 (sw_emitted s),
      summary_blocks_scanned = as_u64 (sw_blocks s), summary_floor_raises_applied = raises\<rparr>"

text \<open>The end of the task: a protocol error takes precedence over the scan's own outcome.\<close>

definition finish_scan :: "status + scan_summary \<Rightarrow> scan_state \<Rightarrow> scan_state" where
  "finish_scan outcome sn =
     (let last = (case sn_error sn of
                    Some e \<Rightarrow> Inl e
                  | None \<Rightarrow> (case outcome of Inl e \<Rightarrow> Inl e | Inr s \<Rightarrow> Inr (Summary (summary_of s (sn_raises sn)))))
      in sn\<lparr>sn_error := None, sn_sent := (if sn_open sn then sn_sent sn @ [last] else sn_sent sn), sn_done := True\<rparr>)"

datatype node_event =
    Pump nat inbound
  | Poll
  | Emit "f32 list" "int list"
  | ScanEnds "status + scan_summary"
  | ReceiverGone

fun scan_step :: "u64 list option \<Rightarrow> node_event \<Rightarrow> scan_state \<Rightarrow> scan_state option" where
  "scan_step labels (Pump spurious msg) sn = Some (if sn_pumping sn then pump_message spurious msg sn else sn)"
| "scan_step labels Poll sn = Some (snd (poll_control sn))"
| "scan_step labels (Emit scores slots) sn = emit_batch labels scores slots sn"
| "scan_step labels (ScanEnds outcome) sn = Some (finish_scan outcome sn)"
| "scan_step labels ReceiverGone sn = Some (sn\<lparr>sn_open := False\<rparr>)"

fun scan_run :: "u64 list option \<Rightarrow> node_event list \<Rightarrow> scan_state \<Rightarrow> scan_state option" where
  "scan_run labels [] sn = Some sn"
| "scan_run labels (e # es) sn = Option.bind (scan_step labels e sn) (scan_run labels es)"

section \<open>The engine's contract\<close>

text \<open>The rows a scan may emit: slot and score, admitted by the mask, at or above the initial floor.\<close>

type_synonym scan_rows = "(nat \<times> f32) list"

definition rows_ok :: "u64 list option \<Rightarrow> f32 \<Rightarrow> scan_rows \<Rightarrow> bool" where
  "rows_ok labels floor rows \<longleftrightarrow>
     \<not> is_nan floor \<and> distinct (map fst rows) \<and>
     list_all (\<lambda>(s, x). s < 2 ^ 63 \<and> f32_le floor x \<and> (\<forall>table. labels = Some table \<longrightarrow> s < length table)) rows"

definition payload_slots :: "status + stream_search_payload \<Rightarrow> nat list" where
  "payload_slots pl = (case pl of Inr (Batch b) \<Rightarrow> map unat (batch_slots b) | _ \<Rightarrow> [])"

definition sent_slots :: "scan_state \<Rightarrow> nat list" where
  "sent_slots sn = concat (map payload_slots (sn_sent sn))"

text \<open>
  After a callback answered \<open>Stop\<close> nothing more is emitted and the scan has not completed. A batch
  holds rows of the index, with their scores, none emitted before. A scan that completes has
  emitted every row that reaches the last floor it was given.
\<close>

fun lawful_event :: "scan_rows \<Rightarrow> scan_state \<Rightarrow> node_event \<Rightarrow> bool" where
  "lawful_event rows sn (Pump _ _) \<longleftrightarrow> True"
| "lawful_event rows sn ReceiverGone \<longleftrightarrow> True"
| "lawful_event rows sn Poll \<longleftrightarrow> \<not> sn_done sn \<and> \<not> sn_halted sn"
| "lawful_event rows sn (Emit scores slots) \<longleftrightarrow>
     \<not> sn_done sn \<and> \<not> sn_halted sn \<and> length scores = length slots \<and> list_all (\<lambda>s. 0 \<le> s) slots \<and>
     list_all (\<lambda>(s, x). (nat s, x) \<in> set rows) (zip slots scores) \<and>
     distinct (sent_slots sn @ map nat slots)"
| "lawful_event rows sn (ScanEnds outcome) \<longleftrightarrow>
     \<not> sn_done sn \<and>
     (case outcome of
        Inl e \<Rightarrow> True
      | Inr s \<Rightarrow> (sw_completed s \<longleftrightarrow> \<not> sn_halted sn) \<and>
          (sw_completed s \<longrightarrow> list_all (\<lambda>(i, x). i \<in> set (sent_slots sn) \<or> f32_lt x (sn_now sn)) rows))"

fun lawful_scan :: "scan_rows \<Rightarrow> u64 list option \<Rightarrow> scan_state \<Rightarrow> node_event list \<Rightarrow> bool" where
  "lawful_scan rows labels sn [] = True"
| "lawful_scan rows labels sn (e # es) \<longleftrightarrow>
     lawful_event rows sn e \<and>
     (case scan_step labels e sn of None \<Rightarrow> True | Some sn' \<Rightarrow> lawful_scan rows labels sn' es)"

section \<open>What every run of a lawful scan keeps\<close>

definition batch_good :: "scan_rows \<Rightarrow> u64 list option \<Rightarrow> stream_search_batch \<Rightarrow> bool" where
  "batch_good rows labels b \<longleftrightarrow>
     length (batch_scores b) = length (batch_slots b) \<and>
     list_all (\<lambda>(s, x). (unat s, x) \<in> set rows) (zip (batch_slots b) (batch_scores b)) \<and>
     batch_labels b = (case labels of None \<Rightarrow> [] | Some table \<Rightarrow> map (\<lambda>s. table ! unat s) (batch_slots b))"

text \<open>What a completed scan has not sent lies below the last floor it was given.\<close>

definition scan_covers :: "scan_rows \<Rightarrow> scan_state \<Rightarrow> bool" where
  "scan_covers rows sn \<longleftrightarrow> list_all (\<lambda>(i, x). i \<in> set (sent_slots sn) \<or> f32_lt x (sn_now sn)) rows"

definition is_batch :: "status + stream_search_payload \<Rightarrow> bool" where
  "is_batch pl \<longleftrightarrow> (case pl of Inr (Batch _) \<Rightarrow> True | _ \<Rightarrow> False)"

text \<open>The responses: good batches, then at most one that is not a batch, and only at the end.\<close>

definition responses_ok :: "scan_rows \<Rightarrow> u64 list option \<Rightarrow> scan_state \<Rightarrow> bool" where
  "responses_ok rows labels sn \<longleftrightarrow>
     list_all is_batch (butlast (sn_sent sn)) \<and> (\<not> sn_done sn \<longrightarrow> list_all is_batch (sn_sent sn)) \<and>
     (\<forall>b. Inr (Batch b) \<in> set (sn_sent sn) \<longrightarrow> batch_good rows labels b) \<and> distinct (sent_slots sn) \<and>
     (\<forall>s. Inr (Summary s) \<in> set (sn_sent sn) \<and> summary_completed s \<longrightarrow> scan_covers rows sn)"

definition floors_ok :: "f32 \<Rightarrow> scan_state \<Rightarrow> bool" where
  "floors_ok floor sn \<longleftrightarrow> f32_le floor (sn_now sn) \<and> f32_le (sn_now sn) (sn_floor sn)"

lemma floors_ok_init: "\<not> is_nan floor \<Longrightarrow> floors_ok floor (scan_init floor)"
  by (simp add: floors_ok_def scan_init_def f32_le_refl)

lemma raise_floor_ge: "f32_le a b \<Longrightarrow> \<not> is_nan c \<Longrightarrow> f32_le a (raise_floor n b c)"
  by (auto simp: raise_floor_eq f32_le_def)

lemma pump_message_sel [simp]:
  "sn_now (pump_message n msg sn) = sn_now sn"
  "sn_sent (pump_message n msg sn) = sn_sent sn"
  "sn_done (pump_message n msg sn) = sn_done sn"
  "sn_open (pump_message n msg sn) = sn_open sn"
  "sn_halted (pump_message n msg sn) = sn_halted sn"
  by (cases "(n, msg, sn)" rule: pump_message.cases; simp add: pump_fails_def)+

lemma floors_ok_pump: "floors_ok floor sn \<Longrightarrow> floors_ok floor (pump_message n msg sn)"
  by (cases "(n, msg, sn)" rule: pump_message.cases)
    (auto simp: floors_ok_def pump_fails_def raise_floor_ge)

lemma poll_control_sel [simp]:
  "sn_sent (snd (poll_control sn)) = sn_sent sn"
  "sn_done (snd (poll_control sn)) = sn_done sn"
  "sn_floor (snd (poll_control sn)) = sn_floor sn"
  by (simp_all add: poll_control_def)

lemma floors_ok_poll: "floors_ok floor sn \<Longrightarrow> floors_ok floor (snd (poll_control sn))"
  by (auto simp: floors_ok_def poll_control_def f32_le_def f32_lt_def)

lemma batch_of_good:
  assumes rows: "rows_ok labels floor rows" and "length scores = length slots"
    and nonneg: "list_all (\<lambda>s. 0 \<le> s) slots"
    and in_rows: "list_all (\<lambda>(s, x). (nat s, x) \<in> set rows) (zip slots scores)"
  shows "\<exists>b. batch_of labels scores slots = Some b \<and> batch_good rows labels b \<and>
    map unat (batch_slots b) = map nat slots"
proof -
  have known: "nat s < 2 ^ 63 \<and> (\<forall>table. labels = Some table \<longrightarrow> nat s < length table)" if s: "s \<in> set slots" for s
  proof -
    obtain i where "i < length slots" "slots ! i = s"
      using s by (auto simp: in_set_conv_nth)
    then have "(nat s, scores ! i) \<in> set rows"
      using in_rows assms(2) by (auto simp: list_all_length)
    then show ?thesis
      using rows by (fastforce simp: rows_ok_def list_all_iff)
  qed
  have unat: "unat (word_of_int s :: u64) = nat s" if "s \<in> set slots" for s
    using known [OF that] nonneg that by (intro unat_slot) (auto simp: list_all_iff)
  have slots: "map unat (as_slots slots) = map nat slots"
    by (simp add: as_slots_def unat)
  have "list_all (\<lambda>s. unat s < length table) (as_slots slots)" if "labels = Some table" for table
    using known that by (auto simp: as_slots_def list_all_iff unat)
  then have "\<exists>b. batch_of labels scores slots = Some b \<and> batch_scores b = scores \<and> batch_slots b = as_slots slots \<and>
      batch_labels b = (case labels of None \<Rightarrow> [] | Some table \<Rightarrow> map (\<lambda>s. table ! unat s) (as_slots slots))"
    using nonneg slot_labels_total by (auto simp: batch_of_def split: option.splits)
  moreover have "list_all (\<lambda>(s, x). (unat s, x) \<in> set rows) (zip (as_slots slots) scores)"
    using in_rows assms(2) by (simp add: list_all_length as_slots_def unat)
  ultimately show ?thesis
    using assms(2) slots by (fastforce simp: batch_good_def as_slots_def list_all_iff unat split: option.splits)
qed

lemma scan_step_ok:
  assumes rows: "rows_ok labels floor rows" and lawful: "lawful_event rows sn e"
    and ok: "responses_ok rows labels sn" "floors_ok floor sn"
  shows "\<exists>sn'. scan_step labels e sn = Some sn' \<and> responses_ok rows labels sn' \<and> floors_ok floor sn'"
proof (cases e)
  case (Pump n msg)
  then show ?thesis
    using ok by (auto simp: floors_ok_pump responses_ok_def scan_covers_def sent_slots_def)
next
  case Poll
  then have "\<not> sn_done sn"
    using lawful by simp
  moreover from this have "Inr (Summary s) \<notin> set (sn_sent sn)" for s
    using ok(1) by (auto simp: responses_ok_def list_all_iff is_batch_def)
  ultimately show ?thesis
    using ok Poll by (auto simp: responses_ok_def floors_ok_poll sent_slots_def)
next
  case (Emit scores slots)
  then have L: "\<not> sn_done sn" "length scores = length slots" "list_all (\<lambda>s. 0 \<le> s) slots"
      "list_all (\<lambda>(s, x). (nat s, x) \<in> set rows) (zip slots scores)" "distinct (sent_slots sn @ map nat slots)"
    using lawful by simp_all
  obtain b where b: "batch_of labels scores slots = Some b" "batch_good rows labels b"
      "map unat (batch_slots b) = map nat slots"
    using batch_of_good [OF rows L(2-4)] by blast
  have no_summary: "Inr (Summary s) \<notin> set (sn_sent sn)" for s
    using ok(1) L(1) by (auto simp: responses_ok_def list_all_iff is_batch_def)
  let ?sn = "sn\<lparr>sn_sent := sn_sent sn @ [Inr (Batch b)]\<rparr>"
  have "sent_slots ?sn = sent_slots sn @ map nat slots"
    by (simp add: sent_slots_def payload_slots_def b(3))
  moreover have "list_all is_batch (sn_sent sn)"
    using ok(1) L(1) by (simp add: responses_ok_def)
  ultimately have "responses_ok rows labels ?sn"
    using ok(1) L(1,5) b(2) no_summary unfolding responses_ok_def by (simp add: is_batch_def)
  moreover have "floors_ok floor ?sn" "floors_ok floor (sn\<lparr>sn_halted := True\<rparr>)"
    using ok(2) by (simp_all add: floors_ok_def)
  moreover have "responses_ok rows labels (sn\<lparr>sn_halted := True\<rparr>)"
    using ok(1) by (simp add: responses_ok_def scan_covers_def sent_slots_def)
  ultimately show ?thesis
    by (simp add: Emit emit_batch_def b(1))
next
  case (ScanEnds outcome)
  then have L: "\<not> sn_done sn"
      "\<And>s. outcome = Inr s \<Longrightarrow> sw_completed s \<Longrightarrow> scan_covers rows sn"
    using lawful by (auto simp: scan_covers_def)
  have batches: "list_all is_batch (sn_sent sn)"
    using ok(1) L(1) by (simp add: responses_ok_def)
  then have no_summary: "Inr (Summary s) \<notin> set (sn_sent sn)" for s
    by (auto simp: list_all_iff is_batch_def)
  have "responses_ok rows labels (finish_scan outcome sn)"
    using ok(1) L batches no_summary
    by (auto simp: responses_ok_def finish_scan_def Let_def scan_covers_def sent_slots_def payload_slots_def
        summary_of_def butlast_append list_all_iff dest: in_set_butlastD split: option.splits sum.splits)
  moreover have "floors_ok floor (finish_scan outcome sn)"
    using ok(2) by (simp add: floors_ok_def finish_scan_def Let_def)
  ultimately show ?thesis
    by (simp add: ScanEnds)
next
  case ReceiverGone
  then show ?thesis
    using ok by (simp add: responses_ok_def floors_ok_def scan_covers_def sent_slots_def)
qed

lemma scan_run_ok:
  assumes "rows_ok labels floor rows" and "lawful_scan rows labels sn es"
    and "responses_ok rows labels sn" and "floors_ok floor sn"
  shows "\<exists>sn'. scan_run labels es sn = Some sn' \<and> responses_ok rows labels sn' \<and> floors_ok floor sn'"
  using assms(2-)
proof (induction es arbitrary: sn)
  case (Cons e es)
  obtain sn' where "scan_step labels e sn = Some sn'" "responses_ok rows labels sn'" "floors_ok floor sn'"
    using scan_step_ok [OF assms(1) _ Cons.prems(2,3), of e] Cons.prems(1) by auto
  with Cons show ?case by simp
qed simp

lemma responses_ok_init: "responses_ok rows labels (scan_init floor)"
  by (simp add: responses_ok_def scan_init_def sent_slots_def)


text \<open>A scan of two rows: one batch, a raised floor, and a completed summary.\<close>

definition demo_rows :: scan_rows where
  "demo_rows = [(0, F32 0x3F800000), (1, F32 0x3F000000)]"

definition demo_scan :: "node_event list" where
  "demo_scan =
     [Emit [F32 0x3F800000] [0], Pump 1 (Message (Some (FloorUpdate (F32 0x3F200000)))), Poll,
      ScanEnds (Inr \<lparr>sw_completed = True, sw_emitted = 1, sw_blocks = 1\<rparr>)]"

lemma demo_rows_ok: "rows_ok (Some [7, 9]) neg_infinity demo_rows"
  by (simp add: rows_ok_def demo_rows_def neg_infinity_def is_nan_def f32_le_def f32_key_def
      f32_negative_def f32_magnitude_def)

lemma demo_scan_lawful: "lawful_scan demo_rows (Some [7, 9]) (scan_init neg_infinity) demo_scan"
  by code_simp


lemma demo_scan_completes:
  "map_option (map is_batch \<circ> sn_sent) (scan_run (Some [7, 9]) demo_scan (scan_init neg_infinity)) =
     Some [True, False]"
  by code_simp

end
