(* ===== verification/Cluster.thy ===== *)
theory Cluster
  imports Stream_Properties Node_Scan
begin

text \<open>
  One distributed search with its nodes: the collector of \<open>Stream_Query\<close>, one streamed scan of
  \<open>Node_Scan\<close> per pinned shard, and what connects them. A request stream is a watch channel: the task
  that sends it forwards the latest value when it has not shown it yet, so floors may be skipped. A
  response stream delivers in order. The events of a run name the party that moves next, in any
  order, and include streams that break on either side.
\<close>

section \<open>The joint state\<close>

record cluster =
  cl_query :: stream_state
  cl_nodes :: "scan_state list"
  cl_shown :: "stream_search_request list"
  cl_wires :: "stream_search_request list list"
  cl_taken :: "nat list"
  cl_events :: "stream_event list"

datatype cluster_event =
    Forward nat
  | Accept nat nat
  | Interrupt nat inbound
  | Scan nat node_event
  | Respond nat
  | CloseStream nat
  | LoseStream nat status

definition deliver ::
    "pinned \<Rightarrow> query_options \<Rightarrow> nat \<Rightarrow> stream_event \<Rightarrow> cluster \<Rightarrow> status failure + cluster" where
  "deliver p opts k e cl =
     rbind (stream_step p opts k e (cl_query cl)) (\<lambda>st.
       Inr (cl\<lparr>cl_query := st, cl_events := cl_events cl @ [e]\<rparr>))"

definition response_event :: "nat \<Rightarrow> status + stream_search_payload \<Rightarrow> stream_event" where
  "response_event i r = (case r of Inl e \<Rightarrow> EvError i e | Inr pl \<Rightarrow> EvMessage i (Some pl))"

text \<open>A panic of the scan task ends it with an error.\<close>

definition scan_or_fail :: "u64 list option \<Rightarrow> node_event \<Rightarrow> scan_state \<Rightarrow> scan_state" where
  "scan_or_fail labels e sn =
     (case scan_step labels e sn of
        Some sn' \<Rightarrow> sn'
      | None \<Rightarrow> finish_scan (Inl (internal [Lit ''index task failed''])) sn)"

definition update_node :: "nat \<Rightarrow> (scan_state \<Rightarrow> scan_state) \<Rightarrow> cluster \<Rightarrow> cluster" where
  "update_node i f cl = cl\<lparr>cl_nodes := (cl_nodes cl)[i := f (cl_nodes cl ! i)]\<rparr>"

definition sent_by :: "cluster \<Rightarrow> nat \<Rightarrow> (status + stream_search_payload) list" where
  "sent_by cl i = sn_sent (cl_nodes cl ! i)"

definition forward :: "nat \<Rightarrow> cluster \<Rightarrow> cluster" where
  "forward i cl =
     (let w = watches (cl_query cl) ! i in
      if w = cl_shown cl ! i then cl
      else cl\<lparr>cl_shown := (cl_shown cl)[i := w], cl_wires := (cl_wires cl)[i := cl_wires cl ! i @ [w]]\<rparr>)"

definition accept_request :: "u64 list option \<Rightarrow> nat \<Rightarrow> nat \<Rightarrow> cluster \<Rightarrow> cluster" where
  "accept_request labels i spurious cl =
     (case cl_wires cl ! i of
        [] \<Rightarrow> cl
      | m # ms \<Rightarrow> (update_node i (scan_or_fail labels (Pump spurious (Message (Some m)))) cl)
                    \<lparr>cl_wires := (cl_wires cl)[i := ms]\<rparr>)"

text \<open>
  One step; \<open>tables ! i\<close> is the label table of shard \<open>i\<close>. The collector handles events until every
  shard has completed. An event that cannot happen changes nothing.
\<close>

definition collecting :: "cluster \<Rightarrow> bool" where
  "collecting cl \<longleftrightarrow> 0 < sq_remaining (cl_query cl)"

definition cluster_step ::
    "pinned \<Rightarrow> query_options \<Rightarrow> nat \<Rightarrow> u64 list option list \<Rightarrow> cluster_event \<Rightarrow> cluster
     \<Rightarrow> status failure + cluster" where
  "cluster_step p opts k tables e cl =
     (case e of
        Forward i \<Rightarrow> Inr (if i < length tables then forward i cl else cl)
      | Accept i spurious \<Rightarrow> Inr (if i < length tables then accept_request (tables ! i) i spurious cl else cl)
      | Interrupt i msg \<Rightarrow>
          Inr (if i < length tables then update_node i (scan_or_fail (tables ! i) (Pump 0 msg)) cl else cl)
      | Scan i ev \<Rightarrow> Inr (if i < length tables then update_node i (scan_or_fail (tables ! i) ev) cl else cl)
      | Respond i \<Rightarrow>
          if collecting cl \<and> i < length tables \<and> cl_taken cl ! i < length (sent_by cl i) then
            deliver p opts k (response_event i (sent_by cl i ! (cl_taken cl ! i)))
              (cl\<lparr>cl_taken := (cl_taken cl)[i := Suc (cl_taken cl ! i)]\<rparr>)
          else Inr cl
      | CloseStream i \<Rightarrow>
          if collecting cl \<and> i < length tables \<and> sn_done (cl_nodes cl ! i) \<and>
             cl_taken cl ! i = length (sent_by cl i) then
            deliver p opts k (EvClosed i) cl
          else Inr cl
      | LoseStream i s \<Rightarrow>
          if collecting cl \<and> i < length tables then deliver p opts k (EvError i s) cl else Inr cl)"

fun cluster_run ::
    "pinned \<Rightarrow> query_options \<Rightarrow> nat \<Rightarrow> u64 list option list \<Rightarrow> cluster_event list \<Rightarrow> cluster
     \<Rightarrow> status failure + cluster" where
  "cluster_run p opts k tables [] cl = Inr cl"
| "cluster_run p opts k tables (e # es) cl = rbind (cluster_step p opts k tables e cl) (cluster_run p opts k tables es)"

text \<open>All streams are open, and every node has read its start request.\<close>

definition cluster_start :: "pinned \<Rightarrow> query_options \<Rightarrow> f32 list \<Rightarrow> string \<Rightarrow> cluster" where
  "cluster_start p opts v rid =
     (let n = length (pinned_shards p) in
      \<lparr>cl_query = start_state p opts v rid, cl_nodes = replicate n (scan_init (start_floor opts)),
       cl_shown = requests opts v rid (pinned_shards p), cl_wires = replicate n [], cl_taken = replicate n 0,
       cl_events = []\<rparr>)"

lemma stream_start_floor:
  "stream_start limits st (Some (Some (start_request opts v rid shard))) = Inr (s, ix, labels, floor) \<Longrightarrow>
     floor = start_floor opts \<and> \<not> is_nan floor"
  by (auto simp: stream_start_def start_request_def start_floor_def rbind_Inr_iff Let_def
      split: if_splits option.splits)

section \<open>What the nodes hold\<close>

type_synonym shard_rows = "scan_rows \<times> u64 list option"

definition shard_candidate :: "query_options \<Rightarrow> nat \<Rightarrow> u64 list option \<Rightarrow> nat \<times> f32 \<Rightarrow> heap_candidate" where
  "shard_candidate opts i labels row =
     (case row of (s, x) \<Rightarrow>
       \<lparr>score = x, shard_rank = i, slot = of_nat s, label = map_option (\<lambda>t. t ! s) labels,
        label_order_key = (if stable_label_order opts then map_option (\<lambda>t. t ! s) labels else None)\<rparr>)"

definition rows_of_shard :: "query_options \<Rightarrow> nat \<Rightarrow> shard_rows \<Rightarrow> heap_candidate list" where
  "rows_of_shard opts i shard = map (shard_candidate opts i (snd shard)) (fst shard)"

definition cluster_rows :: "query_options \<Rightarrow> shard_rows list \<Rightarrow> heap_candidate list" where
  "cluster_rows opts shards = concat (map (\<lambda>i. rows_of_shard opts i (shards ! i)) [0..<length shards])"

definition shards_ok :: "pinned \<Rightarrow> query_options \<Rightarrow> shard_rows list \<Rightarrow> bool" where
  "shards_ok p opts shards \<longleftrightarrow>
     length shards = length (pinned_shards p) \<and>
     list_all (\<lambda>(rows, labels). rows_ok labels (start_floor opts) rows) shards"

lemma shards_okD:
  "shards_ok p opts shards \<Longrightarrow> i < length (pinned_shards p) \<Longrightarrow>
     i < length shards \<and> rows_ok (snd (shards ! i)) (start_floor opts) (fst (shards ! i))"
  by (auto simp: shards_ok_def list_all_length split: prod.splits)

lemma shard_candidate_sel [simp]:
  "score (shard_candidate opts i labels row) = snd row"
  "slot (shard_candidate opts i labels row) = of_nat (fst row)"
  "shard_rank (shard_candidate opts i labels row) = i"
  by (simp_all add: shard_candidate_def split: prod.splits)

lemma rank_rows_of_shard: "c \<in> set (rows_of_shard opts i shard) \<Longrightarrow> shard_rank c = i"
  by (auto simp: rows_of_shard_def)

lemma score_rows_of_shard:
  "rows_ok labels floor (fst shard) \<Longrightarrow> c \<in> set (rows_of_shard opts i shard) \<Longrightarrow> f32_le floor (score c)"
  by (fastforce simp: rows_of_shard_def rows_ok_def list_all_iff)

lemma cluster_rows_iff:
  "c \<in> set (cluster_rows opts shards) \<longleftrightarrow>
     shard_rank c < length shards \<and> c \<in> set (rows_of_shard opts (shard_rank c) (shards ! shard_rank c))"
  by (auto simp: cluster_rows_def dest: rank_rows_of_shard)

lemma unat_small: "s < 2 ^ 63 \<Longrightarrow> unat (of_nat s :: u64) = s"
  by (simp add: unsigned_of_nat take_bit_nat_eq_self)

lemma distinct_keys_upto:
  assumes "\<And>i. i < n \<Longrightarrow> distinct (map h (g i))" and "\<And>i x. x \<in> set (g i) \<Longrightarrow> fst (h x) = i"
  shows "distinct (map h (concat (map g [0..<n])))"
  using assms(1)
proof (induction n)
  case (Suc n)
  have "False" if "x \<in> set (g n)" "y \<in> set (g i)" "i < n" "h x = h y" for x y i
    using assms(2) [OF that(1)] assms(2) [OF that(2)] that(3,4) by simp
  with Suc show ?case by auto
qed simp

lemma rows_of_shard_distinct:
  assumes "rows_ok labels floor (fst shard)"
  shows "distinct (map (\<lambda>c. (shard_rank c, slot c)) (rows_of_shard opts i shard))"
proof -
  have "s < 2 ^ 63" if "(s, x) \<in> set (fst shard)" for s x
    using assms that by (auto simp: rows_ok_def list_all_iff)
  then have "inj_on (of_nat :: nat \<Rightarrow> u64) (set (map fst (fst shard)))"
    by (intro inj_onI) (metis (no_types, lifting) unat_small imageE list.set_map prod.collapse)
  then have "distinct (map (\<lambda>s. (of_nat s :: u64)) (map fst (fst shard)))"
    unfolding distinct_map [of of_nat] using assms by (simp only: rows_ok_def simp_thms)
  then have "distinct (map (\<lambda>y. (i, y)) (map (\<lambda>s. (of_nat s :: u64)) (map fst (fst shard))))"
    by (simp only: distinct_map [of "\<lambda>y. (i, y)"]) (simp add: inj_on_def)
  moreover have "map (\<lambda>c. (shard_rank c, slot c)) (rows_of_shard opts i shard) =
      map (\<lambda>y. (i, y)) (map (\<lambda>s. (of_nat s :: u64)) (map fst (fst shard)))"
    by (simp add: rows_of_shard_def)
  ultimately show ?thesis by simp
qed

lemma admitted_cluster_rows:
  assumes "shards_ok p opts shards"
  shows "admitted_rows p opts (cluster_rows opts shards)"
proof -
  have ok: "rows_ok (snd (shards ! i)) (start_floor opts) (fst (shards ! i))" if "i < length shards" for i
    using shards_okD [OF assms, of i] that assms by (simp add: shards_ok_def)
  have "distinct (map (\<lambda>c. (shard_rank c, slot c)) (cluster_rows opts shards))"
    unfolding cluster_rows_def
    by (rule distinct_keys_upto) (use rows_of_shard_distinct [OF ok] in simp, simp add: rank_rows_of_shard)
  moreover have "list_all (\<lambda>c. shard_rank c < length (pinned_shards p) \<and> f32_ge (score c) (start_floor opts))
      (cluster_rows opts shards)"
  proof (unfold list_all_iff, intro ballI conjI)
    fix c
    assume c: "c \<in> set (cluster_rows opts shards)"
    then show "shard_rank c < length (pinned_shards p)"
      using assms by (simp add: cluster_rows_iff shards_ok_def)
    show "f32_ge (score c) (start_floor opts)"
      using c score_rows_of_shard [OF ok [of "shard_rank c"]] by (auto simp: cluster_rows_iff)
  qed
  ultimately show ?thesis
    by (simp add: admitted_rows_def)
qed

section \<open>What a run keeps\<close>

text \<open>
  Every floor a node, a request stream or a watch holds is at most the floor the collector has
  published; a watch that still shows the start request has shown nothing else.
\<close>

definition request_ok :: "f32 \<Rightarrow> stream_search_request \<Rightarrow> bool" where
  "request_ok high m \<longleftrightarrow> (case m of FloorUpdate f \<Rightarrow> f32_le f high | _ \<Rightarrow> False)"

definition link_ok :: "stream_search_request \<Rightarrow> cluster \<Rightarrow> nat \<Rightarrow> bool" where
  "link_ok opened cl i \<longleftrightarrow>
     (let high = published_floor (cl_query cl); w = watches (cl_query cl) ! i in
      f32_le (sn_floor (cl_nodes cl ! i)) high \<and> list_all (request_ok high) (cl_wires cl ! i) \<and>
      (w = opened \<and> cl_shown cl ! i = opened \<or> request_ok high w))"

text \<open>The candidates of the responses that have reached the collector.\<close>

definition received :: "query_options \<Rightarrow> cluster \<Rightarrow> nat \<Rightarrow> heap_candidate list" where
  "received opts cl i =
     concat (map (\<lambda>r. event_candidates opts (response_event i r)) (take (cl_taken cl ! i) (sent_by cl i)))"

definition shard_inv :: "query_options \<Rightarrow> shard_rows \<Rightarrow> cluster \<Rightarrow> nat \<Rightarrow> bool" where
  "shard_inv opts shard cl i \<longleftrightarrow>
     responses_ok (fst shard) (snd shard) (cl_nodes cl ! i) \<and> floors_ok (start_floor opts) (cl_nodes cl ! i) \<and>
     cl_taken cl ! i \<le> length (sent_by cl i) \<and>
     filter (\<lambda>c. shard_rank c = i) (emitted opts (cl_events cl)) = received opts cl i"

definition sized :: "nat \<Rightarrow> cluster \<Rightarrow> bool" where
  "sized n cl \<longleftrightarrow>
     length (cl_nodes cl) = n \<and> length (cl_shown cl) = n \<and> length (cl_wires cl) = n \<and> length (cl_taken cl) = n"

definition collector_inv ::
    "pinned \<Rightarrow> query_options \<Rightarrow> nat \<Rightarrow> f32 list \<Rightarrow> string \<Rightarrow> shard_rows list \<Rightarrow> cluster \<Rightarrow> bool" where
  "collector_inv p opts k v rid shards cl \<longleftrightarrow>
     stream_run p opts k (start_state p opts v rid) (cl_events cl) = Inr (cl_query cl) \<and>
     honest_scans p opts k (cluster_rows opts shards) [] (start_state p opts v rid) (cl_events cl)"

definition cluster_inv ::
    "pinned \<Rightarrow> query_options \<Rightarrow> nat \<Rightarrow> f32 list \<Rightarrow> string \<Rightarrow> shard_rows list \<Rightarrow> cluster \<Rightarrow> bool" where
  "cluster_inv p opts k v rid shards cl \<longleftrightarrow>
     sized (length (pinned_shards p)) cl \<and> collector_inv p opts k v rid shards cl \<and>
     (\<forall>i < length (pinned_shards p).
        link_ok (requests opts v rid (pinned_shards p) ! i) cl i \<and> shard_inv opts (shards ! i) cl i)"

subsection \<open>The collector\<close>

lemma stream_run_snoc:
  "stream_run p opts k st (es @ [e]) = rbind (stream_run p opts k st es) (stream_step p opts k e)"
proof (induction es arbitrary: st)
  case Nil
  then show ?case by (cases "stream_step p opts k e st") simp_all
next
  case (Cons a es)
  then show ?case by (cases "stream_step p opts k a st") simp_all
qed

lemma honest_scans_snoc:
  assumes "stream_run p opts k st es = Inr st'" and "honest_scans p opts k rows seen st es"
    and "honest_event opts rows (seen @ emitted opts es) st' e"
  shows "honest_scans p opts k rows seen st (es @ [e])"
  using assms
proof (induction es arbitrary: st seen)
  case Nil
  then show ?case by (simp split: sum.split)
next
  case (Cons a es)
  then obtain st1 where "stream_step p opts k a st = Inr st1" "stream_run p opts k st1 es = Inr st'"
    by (auto elim: rbind_InrE)
  with Cons.IH [of st1 "seen @ event_candidates opts a"] Cons.prems(2,3) show ?case by simp
qed

lemma stream_run_loop:
  "stream_run p opts k st es = Inr st' \<Longrightarrow> sq_remaining st' = 0 \<Longrightarrow> \<exists>st2. stream_loop p opts k st es = Inr st2"
proof (induction es arbitrary: st)
  case (Cons e es)
  then show ?case by (auto elim!: rbind_InrE)
qed simp

lemma collector_stream_inv:
  assumes "0 < k" and "collector_inv p opts k v rid shards cl"
  shows "stream_inv opts k (requests opts v rid (pinned_shards p)) (emitted opts (cl_events cl)) (cl_query cl)"
proof -
  have "stream_run p opts k (start_state p opts v rid) (cl_events cl) = Inr (cl_query cl)"
    using assms(2) by (simp add: collector_inv_def)
  from stream_run_inv [OF start_state_inv [OF assms(1)] assms(1) this] show ?thesis by simp
qed

lemma collector_seen:
  assumes "0 < k" and inv: "collector_inv p opts k v rid shards cl"
  shows "distinct (emitted opts (cl_events cl)) \<and> set (emitted opts (cl_events cl)) \<subseteq> set (cluster_rows opts shards)"
proof -
  have run: "stream_run p opts k (start_state p opts v rid) (cl_events cl) = Inr (cl_query cl)"
      "honest_scans p opts k (cluster_rows opts shards) [] (start_state p opts v rid) (cl_events cl @ [])"
    using inv by (simp_all add: collector_inv_def)
  have "covered (cluster_rows opts shards) [] (start_state p opts v rid)"
    by (auto simp: covered_def)
  from honest_run [OF start_state_inv [OF assms(1)] assms(1) run this] show ?thesis by simp
qed

text \<open>A step changes a watch only to the floor it publishes.\<close>

lemma publish_floor_watches:
  assumes "control_inv opts opened st" and "0 < k" and "publish_floor opts k st = Inr st'"
    and "j < length opened"
  shows "watches st' ! j = watches st ! j \<or>
    watches st' ! j = FloorUpdate (published_floor st') \<and> \<not> is_nan (published_floor st')"
proof -
  have ctl: "outbound st = controls (sq_completed st)" "length (watches st) = length (sq_completed st)"
      "length (sq_completed st) = length opened"
    using assms(1) by (auto simp: control_inv_def)
  then consider f where "raises k st f" "publish_floor opts k st = Inr (with_floor opts f st)"
    | "publish_floor opts k st = Inr st"
    using publish_floor_cases \<open>0 < k\<close> by blast
  then show ?thesis
  proof cases
    case 1
    then show ?thesis
      using assms(3,4) ctl(2,3) by (auto simp: raises_def broadcast_def f32_lt_def)
  qed (use assms(3) in simp)
qed

lemma stream_step_watches:
  assumes inv: "stream_inv opts k opened E st" and "0 < k" and step: "stream_step p opts k e st = Inr st'"
    and j: "j < length opened"
  shows "watches st' ! j = watches st ! j \<or>
    watches st' ! j = FloorUpdate (published_floor st') \<and> \<not> is_nan (published_floor st')"
proof (cases "(p, opts, k, e, st)" rule: stream_step.cases)
  case (1 p' opts' k' i b st0)
  then have pub: "publish_floor opts k (absorb opts k (batch_candidates opts i b) st) = Inr st'"
    using step on_batch_Inr [of p opts k i b st st'] by simp
  have "control_inv opts opened (absorb opts k (batch_candidates opts i b) st)"
    using inv by (simp add: stream_inv_def control_inv_def)
  from publish_floor_watches [OF this \<open>0 < k\<close> pub j] show ?thesis by simp
next
  case (2 p' opts' k' i s st0)
  then show ?thesis
    using step by (auto simp: on_summary_def split: option.splits if_splits)
next
  case (5 p' opts' k' i st0)
  then show ?thesis
    using step by (auto split: option.splits bool.splits)
qed (use step in simp_all)

subsection \<open>The nodes\<close>

text \<open>A step only appends responses, and only an update of the floor that was read moves the floor.\<close>

definition node_grows :: "scan_state \<Rightarrow> scan_state \<Rightarrow> bool" where
  "node_grows sn sn' \<longleftrightarrow> (\<exists>xs. sn_sent sn' = sn_sent sn @ xs)"

lemma scan_step_sent: "scan_step labels e sn = Some sn' \<Longrightarrow> node_grows sn sn'"
  by (cases e) (auto simp: node_grows_def emit_batch_def finish_scan_def Let_def split: if_splits)

lemma scan_step_floor:
  assumes "scan_step labels e sn = Some sn'" and "f32_le (sn_floor sn) high"
    and "\<And>n m. e = Pump n (Message m) \<Longrightarrow> \<exists>f. m = Some (FloorUpdate f) \<and> f32_le f high"
  shows "f32_le (sn_floor sn') high"
proof (cases e)
  case (Pump n msg)
  show ?thesis
  proof (cases msg)
    case (Message m)
    then show ?thesis
      using assms Pump by (auto simp: pump_fails_def raise_floor_eq)
  qed (use assms Pump in \<open>auto simp: pump_fails_def\<close>)
qed (use assms in \<open>auto simp: emit_batch_def finish_scan_def Let_def split: if_splits\<close>)

lemma scan_or_fail_ok:
  assumes "rows_ok labels floor rows" "lawful_event rows sn e" "responses_ok rows labels sn" "floors_ok floor sn"
  shows "scan_step labels e sn = Some (scan_or_fail labels e sn)"
    and "responses_ok rows labels (scan_or_fail labels e sn)" and "floors_ok floor (scan_or_fail labels e sn)"
  using scan_step_ok [OF assms] by (auto simp: scan_or_fail_def)

lemma update_node_sel [simp]:
  "cl_query (update_node i f cl) = cl_query cl"
  "cl_shown (update_node i f cl) = cl_shown cl"
  "cl_wires (update_node i f cl) = cl_wires cl"
  "cl_taken (update_node i f cl) = cl_taken cl"
  "cl_events (update_node i f cl) = cl_events cl"
  "cl_nodes (update_node i f cl) = (cl_nodes cl)[i := f (cl_nodes cl ! i)]"
  by (simp_all add: update_node_def)

lemma sized_update_node [simp]: "sized n (update_node i f cl) = sized n cl"
  by (simp add: sized_def)

lemma collector_inv_update_node [simp]:
  "collector_inv p opts k v rid shards (update_node i f cl) = collector_inv p opts k v rid shards cl"
  by (simp add: collector_inv_def)

lemma shard_inv_grows:
  assumes "shard_inv opts shard cl i" and "node_grows (cl_nodes cl ! i) sn'"
    and "responses_ok (fst shard) (snd shard) sn'" and "floors_ok (start_floor opts) sn'"
    and "cl_nodes cl' ! i = sn'" and "cl_taken cl' = cl_taken cl" and "cl_events cl' = cl_events cl"
  shows "shard_inv opts shard cl' i"
  using assms by (auto simp: shard_inv_def received_def sent_by_def node_grows_def)

text \<open>A node that moves on its own, or reads an update the collector has published.\<close>

lemma node_moves:
  assumes inv: "cluster_inv p opts k v rid shards cl" and shards: "shards_ok p opts shards"
    and i: "i < length (pinned_shards p)"
    and lawful: "lawful_event (fst (shards ! i)) (cl_nodes cl ! i) e"
    and msg: "\<And>n m. e = Pump n (Message m) \<Longrightarrow>
      \<exists>f. m = Some (FloorUpdate f) \<and> f32_le f (published_floor (cl_query cl))"
  shows "cluster_inv p opts k v rid shards (update_node i (scan_or_fail (snd (shards ! i)) e) cl)"
proof -
  let ?n = "length (pinned_shards p)" and ?sn = "cl_nodes cl ! i"
  let ?sn' = "scan_or_fail (snd (shards ! i)) e ?sn" and ?cl' = "update_node i (scan_or_fail (snd (shards ! i)) e) cl"
  have len: "length (cl_nodes cl) = ?n"
    using inv by (simp add: cluster_inv_def sized_def)
  have own: "link_ok (requests opts v rid (pinned_shards p) ! i) cl i" "shard_inv opts (shards ! i) cl i"
    using inv i by (simp_all add: cluster_inv_def)
  then have ok: "responses_ok (fst (shards ! i)) (snd (shards ! i)) ?sn" "floors_ok (start_floor opts) ?sn"
    by (simp_all add: shard_inv_def)
  note step = scan_or_fail_ok [OF conjunct2 [OF shards_okD [OF shards i]] lawful ok]
  have "f32_le (sn_floor ?sn') (published_floor (cl_query cl))"
    using scan_step_floor [OF step(1) _ msg] own(1) by (simp add: link_ok_def Let_def)
  then have "link_ok (requests opts v rid (pinned_shards p) ! i) ?cl' i"
    using own(1) i len by (simp add: link_ok_def Let_def)
  moreover have "shard_inv opts (shards ! i) ?cl' i"
    using shard_inv_grows [OF own(2) scan_step_sent [OF step(1)] step(2,3)] i len by simp
  moreover have "link_ok (requests opts v rid (pinned_shards p) ! j) ?cl' j \<and> shard_inv opts (shards ! j) ?cl' j"
    if "j < ?n" "j \<noteq> i" for j
    using inv that by (simp add: cluster_inv_def link_ok_def shard_inv_def received_def sent_by_def)
  ultimately show ?thesis
    using inv by (auto simp: cluster_inv_def)
qed

lemma wire_pops:
  assumes "cluster_inv p opts k v rid shards cl" and "cl_wires cl ! i = m # ms"
  shows "cluster_inv p opts k v rid shards (cl\<lparr>cl_wires := (cl_wires cl)[i := ms]\<rparr>)"
proof -
  let ?cl' = "cl\<lparr>cl_wires := (cl_wires cl)[i := ms]\<rparr>"
  have "link_ok r ?cl' j" if "link_ok r cl j" "j < length (cl_wires cl)" for r j
    using that assms(2) by (cases "j = i") (simp_all add: link_ok_def Let_def)
  moreover have "shard_inv opts s ?cl' j = shard_inv opts s cl j" for s j
    by (simp add: shard_inv_def received_def sent_by_def)
  ultimately show ?thesis
    using assms(1) by (simp add: cluster_inv_def collector_inv_def sized_def)
qed

lemma accept_request_inv:
  assumes inv: "cluster_inv p opts k v rid shards cl" and shards: "shards_ok p opts shards"
    and i: "i < length (pinned_shards p)"
  shows "cluster_inv p opts k v rid shards (accept_request (snd (shards ! i)) i n cl)"
proof (cases "cl_wires cl ! i")
  case Nil
  with inv show ?thesis by (simp add: accept_request_def)
next
  case (Cons m ms)
  have "request_ok (published_floor (cl_query cl)) m"
    using inv i Cons by (auto simp: cluster_inv_def link_ok_def Let_def)
  then have "\<exists>f. m = FloorUpdate f \<and> f32_le f (published_floor (cl_query cl))"
    by (auto simp: request_ok_def split: stream_search_request.splits)
  then have "cluster_inv p opts k v rid shards
      (update_node i (scan_or_fail (snd (shards ! i)) (Pump n (Message (Some m)))) cl)"
    by (intro node_moves [OF inv shards i]) auto
  from wire_pops [OF this, of i m ms] Cons show ?thesis
    by (simp add: accept_request_def)
qed

lemma forward_inv:
  assumes inv: "cluster_inv p opts k v rid shards cl" and i: "i < length (pinned_shards p)"
  shows "cluster_inv p opts k v rid shards (forward i cl)"
proof -
  let ?n = "length (pinned_shards p)"
  have link: "link_ok r (forward i cl) j" if "link_ok r cl j" "j < ?n" for r j
    using that i inv
    by (cases "j = i") (auto simp: forward_def Let_def link_ok_def cluster_inv_def sized_def)
  have "cl_query (forward i cl) = cl_query cl" "cl_nodes (forward i cl) = cl_nodes cl"
      "cl_taken (forward i cl) = cl_taken cl" "cl_events (forward i cl) = cl_events cl"
      "sized ?n (forward i cl)"
    using inv by (auto simp: forward_def Let_def cluster_inv_def sized_def)
  moreover from this have "shard_inv opts s (forward i cl) j = shard_inv opts s cl j" for s j
    by (simp add: shard_inv_def received_def sent_by_def)
  ultimately show ?thesis
    using inv link by (simp add: cluster_inv_def collector_inv_def)
qed

subsection \<open>The responses\<close>

lemma batch_candidates_good:
  assumes good: "batch_good rows labels b" and wf: "well_formed_batch opts b"
  shows "batch_candidates opts i b =
    map (shard_candidate opts i labels) (zip (map unat (batch_slots b)) (batch_scores b))"
proof (rule nth_equalityI)
  show len: "length (batch_candidates opts i b) =
      length (map (shard_candidate opts i labels) (zip (map unat (batch_slots b)) (batch_scores b)))"
    by (simp add: batch_candidates_def)
  fix j
  assume "j < length (batch_candidates opts i b)"
  then have j: "j < length (batch_scores b)" "j < length (batch_slots b)"
    by (simp_all add: batch_candidates_def)
  then show "batch_candidates opts i b ! j =
      map (shard_candidate opts i labels) (zip (map unat (batch_slots b)) (batch_scores b)) ! j"
    using good wf
    by (auto simp: batch_candidates_def candidate_at_def shard_candidate_def nth_enumerate_eq batch_good_def
        well_formed_batch_def split: option.splits)
qed

lemma batch_candidates_in_rows:
  assumes "batch_good (fst shard) (snd shard) b" and "well_formed_batch opts b"
  shows "set (batch_candidates opts i b) \<subseteq> set (rows_of_shard opts i shard)"
proof
  fix c
  assume "c \<in> set (batch_candidates opts i b)"
  then obtain s x where "c = shard_candidate opts i (snd shard) (unat s, x)" "(s, x) \<in> set (zip (batch_slots b) (batch_scores b))"
    unfolding batch_candidates_good [OF assms] by (auto simp: zip_map1)
  then show "c \<in> set (rows_of_shard opts i shard)"
    using assms(1) by (auto simp: rows_of_shard_def batch_good_def list_all_iff)
qed

lemma slots_of_batch:
  "length (batch_scores b) = length (batch_slots b) \<Longrightarrow> map slot (batch_candidates opts i b) = batch_slots b"
  by (rule nth_equalityI) (auto simp: batch_candidates_def candidate_at_def nth_enumerate_eq)

text \<open>The slots the collector has received are those the node has sent in the responses it took.\<close>

lemma slots_of_response:
  assumes "\<forall>b. r = Inr (Batch b) \<longrightarrow> length (batch_scores b) = length (batch_slots b)"
  shows "map (unat \<circ> slot) (event_candidates opts (response_event i r)) = payload_slots r"
proof (cases r)
  case (Inr pl)
  then show ?thesis
    using assms slots_of_batch [of _ opts i]
    by (cases pl) (simp_all add: response_event_def payload_slots_def flip: map_map)
qed (simp add: response_event_def payload_slots_def)

lemma slots_received:
  assumes "responses_ok rows labels (cl_nodes cl ! i)"
  shows "map (unat \<circ> slot) (received opts cl i) =
    concat (map payload_slots (take (cl_taken cl ! i) (sent_by cl i)))"
proof -
  have "map (unat \<circ> slot) (event_candidates opts (response_event i r)) = payload_slots r"
    if "r \<in> set (take (cl_taken cl ! i) (sent_by cl i))" for r
    using assms that by (intro slots_of_response)
      (auto simp: responses_ok_def batch_good_def sent_by_def dest!: in_set_takeD)
  then show ?thesis
    by (simp add: received_def map_concat cong: map_cong)
qed

lemma slots_fresh:
  assumes "distinct (concat (map f xs))" and "n < length xs"
  shows "distinct (f (xs ! n)) \<and> set (concat (map f (take n xs))) \<inter> set (f (xs ! n)) = {}"
proof -
  have "xs = take n xs @ xs ! n # drop (Suc n) xs"
    using assms(2) by (simp add: id_take_nth_drop)
  then have "concat (map f xs) = concat (map f (take n xs)) @ f (xs ! n) @ concat (map f (drop (Suc n) xs))"
    by (metis append.assoc concat.simps(2) concat_append list.simps(9) map_append)
  with assms(1) show ?thesis by auto
qed

text \<open>The collector sees every response as its contract requires.\<close>

lemma honest_batch:
  assumes inv: "cluster_inv p opts k v rid shards cl" and shards: "shards_ok p opts shards" and "0 < k"
    and i: "i < length (pinned_shards p)" and more_sent: "cl_taken cl ! i < length (sent_by cl i)"
    and b: "sent_by cl i ! (cl_taken cl ! i) = Inr (Batch b)" and wf: "well_formed_batch opts b"
  shows "distinct (emitted opts (cl_events cl) @ batch_candidates opts i b) \<and>
    set (batch_candidates opts i b) \<subseteq> set (cluster_rows opts shards)"
proof -
  let ?seen = "emitted opts (cl_events cl)" and ?new = "batch_candidates opts i b"
  have own: "shard_inv opts (shards ! i) cl i" and col: "collector_inv p opts k v rid shards cl"
    using inv i by (simp_all add: cluster_inv_def)
  then have ok: "responses_ok (fst (shards ! i)) (snd (shards ! i)) (cl_nodes cl ! i)"
      "filter (\<lambda>c. shard_rank c = i) ?seen = received opts cl i"
    by (simp_all add: shard_inv_def)
  have good: "batch_good (fst (shards ! i)) (snd (shards ! i)) b"
    using ok(1) b more_sent by (metis nth_mem responses_ok_def sent_by_def)
  then have slots: "map (unat \<circ> slot) ?new = map unat (batch_slots b)"
    using slots_of_batch [of b opts i] by (simp add: batch_good_def flip: map_map)
  have fresh: "distinct (map unat (batch_slots b))"
      "set (map (unat \<circ> slot) (received opts cl i)) \<inter> set (map unat (batch_slots b)) = {}"
    using slots_fresh [of payload_slots "sent_by cl i" "cl_taken cl ! i"] ok(1) more_sent b
    by (simp_all add: slots_received [OF ok(1)] responses_ok_def sent_slots_def sent_by_def payload_slots_def)
  have "distinct ?new"
    using fresh(1) slots distinct_map by metis
  moreover have "c \<notin> set ?seen" if c: "c \<in> set ?new" for c
  proof
    assume "c \<in> set ?seen"
    then have "c \<in> set (received opts cl i)"
      using c shard_rank_batch [OF c] by (simp flip: ok(2))
    then show False
      using fresh(2) c slots by (metis disjoint_iff image_eqI list.set_map)
  qed
  moreover have "set ?new \<subseteq> set (cluster_rows opts shards)"
    using batch_candidates_in_rows [OF good wf, of i] shard_rank_batch [of _ opts i b] shards_okD [OF shards i]
    by (fastforce simp: cluster_rows_iff)
  ultimately show ?thesis
    using collector_seen [OF \<open>0 < k\<close> col] by auto
qed

text \<open>Nothing follows a summary.\<close>

lemma summary_is_last:
  assumes "list_all is_batch (butlast xs)" and "n < length xs" and "xs ! n = Inr (Summary s)"
  shows "Suc n = length xs" and "concat (map payload_slots (take n xs)) = concat (map payload_slots xs)"
proof -
  show last: "Suc n = length xs"
  proof (rule ccontr)
    assume "Suc n \<noteq> length xs"
    then have "n < length (butlast xs)" "butlast xs ! n = Inr (Summary s)"
      using assms(2,3) by (simp_all add: nth_butlast)
    then show False
      using assms(1) by (auto simp: is_batch_def list_all_length)
  qed
  then have "xs = take n xs @ [Inr (Summary s)]"
    using assms(2,3) take_Suc_conv_app_nth [of n xs] by simp
  from arg_cong [OF this, of "\<lambda>ys. concat (map payload_slots ys)"]
  show "concat (map payload_slots (take n xs)) = concat (map payload_slots xs)"
    by (simp add: payload_slots_def)
qed

lemma honest_summary:
  assumes inv: "cluster_inv p opts k v rid shards cl" and shards: "shards_ok p opts shards" and "0 < k"
    and i: "i < length (pinned_shards p)" and more_sent: "cl_taken cl ! i < length (sent_by cl i)"
    and s: "sent_by cl i ! (cl_taken cl ! i) = Inr (Summary s)" and completed: "summary_completed s"
    and c: "c \<in> set (cluster_rows opts shards)" "shard_rank c = i"
  shows "c \<in> set (emitted opts (cl_events cl)) \<or> f32_lt (score c) (published_floor (cl_query cl))"
proof -
  let ?sn = "cl_nodes cl ! i" and ?seen = "emitted opts (cl_events cl)"
  have own: "shard_inv opts (shards ! i) cl i" "f32_le (sn_floor ?sn) (published_floor (cl_query cl))"
    and col: "collector_inv p opts k v rid shards cl"
    using inv i by (simp_all add: cluster_inv_def link_ok_def Let_def)
  then have ok: "responses_ok (fst (shards ! i)) (snd (shards ! i)) ?sn" "f32_le (sn_now ?sn) (sn_floor ?sn)"
      "filter (\<lambda>c. shard_rank c = i) ?seen = received opts cl i"
    by (simp_all add: shard_inv_def floors_ok_def)
  obtain r x where row: "(r, x) \<in> set (fst (shards ! i))" "c = shard_candidate opts i (snd (shards ! i)) (r, x)"
    using c by (auto simp: cluster_rows_iff rows_of_shard_def)
  have "Inr (Summary s) \<in> set (sn_sent ?sn)"
    using s more_sent by (metis nth_mem sent_by_def)
  then have "r \<in> set (sent_slots ?sn) \<or> f32_lt x (sn_now ?sn)"
    using ok(1) completed row(1) by (auto simp: responses_ok_def scan_covers_def list_all_iff)
  then show ?thesis
  proof
    assume "f32_lt x (sn_now ?sn)"
    then show ?thesis
      using own(2) ok(2) row(2) by (auto intro: f32_lt_le_trans)
  next
    assume "r \<in> set (sent_slots ?sn)"
    then have "r \<in> set (concat (map payload_slots (take (cl_taken cl ! i) (sent_by cl i))))"
      using summary_is_last(2) [OF _ more_sent s] ok(1) by (simp add: responses_ok_def sent_slots_def sent_by_def)
    then obtain c' where c': "c' \<in> set (received opts cl i)" "unat (slot c') = r"
      unfolding slots_received [OF ok(1), where opts = opts, symmetric] by auto
    then have seen: "c' \<in> set ?seen" "shard_rank c' = i"
      by (auto simp flip: ok(3))
    then have "c' \<in> set (cluster_rows opts shards)"
      using collector_seen [OF \<open>0 < k\<close> col] by blast
    moreover have "slot c' = slot c"
      using c'(2) row(2) by auto
    ultimately have "c' = c"
      using admitted_cluster_rows [OF shards] c seen(2)
      by (auto simp: admitted_rows_def distinct_map inj_on_def)
    with seen(1) show ?thesis by simp
  qed
qed

subsection \<open>One step\<close>

lemma request_ok_mono: "request_ok a m \<Longrightarrow> a = b \<or> f32_lt a b \<Longrightarrow> request_ok b m"
  by (auto simp: request_ok_def split: stream_search_request.splits intro: f32_le_trans f32_lt_imp_le)

lemma link_ok_delivered:
  assumes link: "link_ok r cl j" and inv: "stream_inv opts k opened E (cl_query cl)" and "0 < k"
    and step: "stream_step p opts k e (cl_query cl) = Inr (cl_query cl')" and j: "j < length opened"
    and same: "cl_nodes cl' = cl_nodes cl" "cl_wires cl' = cl_wires cl" "cl_shown cl' = cl_shown cl"
  shows "link_ok r cl' j"
proof -
  let ?a = "published_floor (cl_query cl)" and ?b = "published_floor (cl_query cl')"
  let ?w = "watches (cl_query cl) ! j" and ?w' = "watches (cl_query cl') ! j"
  have up: "?a = ?b \<or> f32_lt ?a ?b"
    using stream_step_Inr [OF inv \<open>0 < k\<close> step] by auto
  have "f32_le (sn_floor (cl_nodes cl ! j)) ?b"
    using link up by (auto simp: link_ok_def Let_def intro: f32_le_trans f32_lt_imp_le)
  moreover have "list_all (request_ok ?b) (cl_wires cl ! j)"
    using link request_ok_mono [OF _ up] by (auto simp: link_ok_def Let_def list_all_iff)
  moreover have "?w' = ?w \<or> request_ok ?b ?w'"
    using stream_step_watches [OF inv \<open>0 < k\<close> step j] by (auto simp: request_ok_def f32_le_refl)
  ultimately show ?thesis
    using link request_ok_mono [OF _ up] by (auto simp: link_ok_def Let_def same)
qed

lemma delivered_inv:
  assumes inv: "cluster_inv p opts k v rid shards cl" and "0 < k"
    and step: "stream_step p opts k e (cl_query cl) = Inr st"
    and honest: "honest_event opts (cluster_rows opts shards) (emitted opts (cl_events cl)) (cl_query cl) e"
    and sized: "length taken = length (cl_taken cl)"
    and new: "\<And>j. j < length (pinned_shards p) \<Longrightarrow> taken ! j \<le> length (sent_by cl j) \<and>
      received opts (cl\<lparr>cl_taken := taken\<rparr>) j =
        received opts cl j @ filter (\<lambda>c. shard_rank c = j) (event_candidates opts e)"
  shows "cluster_inv p opts k v rid shards
    (cl\<lparr>cl_query := st, cl_events := cl_events cl @ [e], cl_taken := taken\<rparr>)" (is "cluster_inv _ _ _ _ _ _ ?cl'")
proof -
  have col: "collector_inv p opts k v rid shards cl"
    using inv by (simp add: cluster_inv_def)
  then have run: "stream_run p opts k (start_state p opts v rid) (cl_events cl) = Inr (cl_query cl)"
      "honest_scans p opts k (cluster_rows opts shards) [] (start_state p opts v rid) (cl_events cl)"
    by (simp_all add: collector_inv_def)
  have "collector_inv p opts k v rid shards ?cl'"
    using honest_scans_snoc [OF run] honest step run(1) by (simp add: collector_inv_def stream_run_snoc)
  moreover have "link_ok (requests opts v rid (pinned_shards p) ! j) ?cl' j"
    if "j < length (pinned_shards p)" for j
    using link_ok_delivered [OF _ collector_stream_inv [OF \<open>0 < k\<close> col] \<open>0 < k\<close>, of _ j p e ?cl'] inv step that
    by (simp add: cluster_inv_def)
  moreover have "shard_inv opts (shards ! j) ?cl' j" if "j < length (pinned_shards p)" for j
  proof -
    have "received opts ?cl' j = received opts (cl\<lparr>cl_taken := taken\<rparr>) j"
      by (simp add: received_def sent_by_def)
    then show ?thesis
      using inv new [OF that] that by (simp add: cluster_inv_def shard_inv_def sent_by_def)
  qed
  moreover have "sized (length (pinned_shards p)) ?cl'"
    using inv sized by (simp add: cluster_inv_def sized_def)
  ultimately show ?thesis
    by (simp add: cluster_inv_def)
qed

text \<open>Events without candidates: a stream that ends or breaks.\<close>

lemma deliver_quiet:
  assumes inv: "cluster_inv p opts k v rid shards cl" and "0 < k" and "event_candidates opts e = []"
    and "honest_event opts (cluster_rows opts shards) (emitted opts (cl_events cl)) (cl_query cl) e"
    and "deliver p opts k e cl = Inr cl'"
  shows "cluster_inv p opts k v rid shards cl'"
proof -
  obtain st where st: "stream_step p opts k e (cl_query cl) = Inr st"
      "cl' = cl\<lparr>cl_query := st, cl_events := cl_events cl @ [e]\<rparr>"
    using assms(5) by (auto simp: deliver_def elim: rbind_InrE)
  have taken_ok: "cl_taken cl ! j \<le> length (sent_by cl j)" if "j < length (pinned_shards p)" for j
    using inv that by (simp add: cluster_inv_def shard_inv_def)
  show ?thesis
    using delivered_inv [OF inv \<open>0 < k\<close> st(1) assms(4), of "cl_taken cl"] taken_ok assms(3) st(2)
    by (simp add: received_def sent_by_def)
qed

text \<open>The next response of a shard.\<close>

lemma received_next:
  assumes "cl_taken cl ! i < length (sent_by cl i)" and "i < length (cl_taken cl)"
    and rank: "\<And>c. c \<in> set (event_candidates opts (response_event i (sent_by cl i ! (cl_taken cl ! i)))) \<Longrightarrow> shard_rank c = i"
  shows "received opts (cl\<lparr>cl_taken := (cl_taken cl)[i := Suc (cl_taken cl ! i)]\<rparr>) j =
    received opts cl j @
    filter (\<lambda>c. shard_rank c = j) (event_candidates opts (response_event i (sent_by cl i ! (cl_taken cl ! i))))"
proof (cases "j = i")
  case True
  then have "filter (\<lambda>c. shard_rank c = j) (event_candidates opts (response_event i (sent_by cl i ! (cl_taken cl ! i)))) =
      event_candidates opts (response_event i (sent_by cl i ! (cl_taken cl ! i)))"
    using rank by (simp add: filter_True)
  with True assms(1,2) show ?thesis
    by (simp add: received_def sent_by_def take_Suc_conv_app_nth)
next
  case False
  then have "filter (\<lambda>c. shard_rank c = j) (event_candidates opts (response_event i (sent_by cl i ! (cl_taken cl ! i)))) = []"
    using rank by (auto simp: filter_empty_conv)
  with False show ?thesis
    by (simp add: received_def sent_by_def)
qed

lemma response_rank:
  "c \<in> set (event_candidates opts (response_event i r)) \<Longrightarrow> shard_rank c = i"
proof (cases r)
  case (Inr pl)
  moreover assume "c \<in> set (event_candidates opts (response_event i r))"
  ultimately show ?thesis
    by (cases pl) (auto simp: response_event_def dest: shard_rank_batch)
qed (simp add: response_event_def)

lemma honest_response:
  assumes inv: "cluster_inv p opts k v rid shards cl" and shards: "shards_ok p opts shards" and "0 < k"
    and i: "i < length (pinned_shards p)" and more_sent: "cl_taken cl ! i < length (sent_by cl i)"
    and step: "stream_step p opts k (response_event i (sent_by cl i ! (cl_taken cl ! i))) (cl_query cl) = Inr st"
  shows "honest_event opts (cluster_rows opts shards) (emitted opts (cl_events cl)) (cl_query cl)
    (response_event i (sent_by cl i ! (cl_taken cl ! i)))"
proof (cases "sent_by cl i ! (cl_taken cl ! i)")
  case (Inl e)
  then show ?thesis by (simp add: response_event_def)
next
  case (Inr pl)
  show ?thesis
  proof (cases pl)
    case (Batch b)
    then have b: "sent_by cl i ! (cl_taken cl ! i) = Inr (Batch b)" "on_batch p opts k i b (cl_query cl) = Inr st"
      using Inr step by (simp_all add: response_event_def)
    then have "well_formed_batch opts b"
      using on_batch_Inr by blast
    from honest_batch [OF inv shards \<open>0 < k\<close> i more_sent b(1) this] show ?thesis
      by (auto simp: b(1) response_event_def list_all_iff)
  next
    case (Summary s)
    then have s: "sent_by cl i ! (cl_taken cl ! i) = Inr (Summary s)" "on_summary p i s (cl_query cl) = Inr st"
      using Inr step by (simp_all add: response_event_def)
    then have "summary_completed s"
      by (auto simp: on_summary_def split: option.splits if_splits)
    from honest_summary [OF inv shards \<open>0 < k\<close> i more_sent s(1) this] show ?thesis
      by (simp add: s(1) response_event_def list_all_iff)
  qed
qed

lemma respond_inv:
  assumes inv: "cluster_inv p opts k v rid shards cl" and shards: "shards_ok p opts shards" and "0 < k"
    and i: "i < length (pinned_shards p)" and more_sent: "cl_taken cl ! i < length (sent_by cl i)"
    and d: "deliver p opts k (response_event i (sent_by cl i ! (cl_taken cl ! i)))
      (cl\<lparr>cl_taken := (cl_taken cl)[i := Suc (cl_taken cl ! i)]\<rparr>) = Inr cl'"
  shows "cluster_inv p opts k v rid shards cl'"
proof -
  let ?e = "response_event i (sent_by cl i ! (cl_taken cl ! i))"
  let ?taken = "(cl_taken cl)[i := Suc (cl_taken cl ! i)]"
  obtain st where st: "stream_step p opts k ?e (cl_query cl) = Inr st"
      "cl' = cl\<lparr>cl_query := st, cl_events := cl_events cl @ [?e], cl_taken := ?taken\<rparr>"
    using d by (auto simp: deliver_def elim!: rbind_InrE)
  have len: "i < length (cl_taken cl)"
    using inv i by (simp add: cluster_inv_def sized_def)
  have "?taken ! j \<le> length (sent_by cl j)" if "j < length (pinned_shards p)" for j
    using inv that more_sent len by (cases "j = i") (simp_all add: cluster_inv_def shard_inv_def)
  then show ?thesis
    unfolding st(2)
    by (intro delivered_inv [OF inv \<open>0 < k\<close> st(1) honest_response [OF inv shards \<open>0 < k\<close> i more_sent st(1)]])
      (simp_all add: received_next [OF more_sent len response_rank])
qed

section \<open>Reachable states\<close>

text \<open>
  Scans follow the engine's contract. A request stream may end or break at any time, a response
  stream may break, and a receiver may go away; \<open>allowed\<close> restricts the events of a run.
\<close>

fun cluster_lawful :: "shard_rows list \<Rightarrow> cluster \<Rightarrow> cluster_event \<Rightarrow> bool" where
  "cluster_lawful shards cl (Scan i (Pump n msg)) \<longleftrightarrow> False"
| "cluster_lawful shards cl (Scan i ev) \<longleftrightarrow>
     (i < length shards \<longrightarrow> lawful_event (fst (shards ! i)) (cl_nodes cl ! i) ev)"
| "cluster_lawful shards cl (Interrupt i (Message m)) \<longleftrightarrow> False"
| "cluster_lawful shards cl _ \<longleftrightarrow> True"

inductive cluster_reach ::
    "(cluster_event \<Rightarrow> bool) \<Rightarrow> pinned \<Rightarrow> query_options \<Rightarrow> nat \<Rightarrow> f32 list \<Rightarrow> string \<Rightarrow> shard_rows list
     \<Rightarrow> cluster \<Rightarrow> bool"
  for allowed p opts k v rid shards where
  start: "cluster_reach allowed p opts k v rid shards (cluster_start p opts v rid)"
| step: "cluster_reach allowed p opts k v rid shards cl \<Longrightarrow> allowed e \<Longrightarrow> cluster_lawful shards cl e \<Longrightarrow>
    cluster_step p opts k (map snd shards) e cl = Inr cl' \<Longrightarrow> cluster_reach allowed p opts k v rid shards cl'"

fun cluster_run_ok ::
    "(cluster_event \<Rightarrow> bool) \<Rightarrow> pinned \<Rightarrow> query_options \<Rightarrow> nat \<Rightarrow> shard_rows list \<Rightarrow> cluster_event list \<Rightarrow> cluster \<Rightarrow> bool" where
  "cluster_run_ok allowed p opts k shards [] cl \<longleftrightarrow> True"
| "cluster_run_ok allowed p opts k shards (e # es) cl \<longleftrightarrow>
     allowed e \<and> cluster_lawful shards cl e \<and>
     (case cluster_step p opts k (map snd shards) e cl of
        Inl _ \<Rightarrow> True
      | Inr cl' \<Rightarrow> cluster_run_ok allowed p opts k shards es cl')"

lemma run_reaches:
  "cluster_reach allowed p opts k v rid shards cl \<Longrightarrow> cluster_run_ok allowed p opts k shards es cl \<Longrightarrow>
     cluster_run p opts k (map snd shards) es cl = Inr cl' \<Longrightarrow> cluster_reach allowed p opts k v rid shards cl'"
proof (induction es arbitrary: cl)
  case (Cons e es)
  then obtain cl1 where "cluster_step p opts k (map snd shards) e cl = Inr cl1"
      "cluster_run p opts k (map snd shards) es cl1 = Inr cl'"
    by (auto elim: rbind_InrE)
  with Cons show ?case
    by (auto intro: cluster_reach.step)
qed simp

lemma cluster_start_inv:
  assumes "shards_ok p opts shards"
  shows "cluster_inv p opts k v rid shards (cluster_start p opts v rid)"
proof -
  have floor: "\<not> is_nan (start_floor opts)" if "i < length (pinned_shards p)" for i
    using shards_okD [OF assms that] by (simp add: rows_ok_def)
  then have "floors_ok (start_floor opts) (scan_init (start_floor opts))"
      "f32_le (start_floor opts) (start_floor opts)" if "i < length (pinned_shards p)" for i
    using that by (simp_all add: floors_ok_init f32_le_refl)
  moreover have "sn_floor (scan_init (start_floor opts)) = start_floor opts"
      "sn_sent (scan_init (start_floor opts)) = []"
    by (simp_all add: scan_init_def)
  ultimately show ?thesis
    by (simp add: cluster_inv_def cluster_start_def Let_def sized_def collector_inv_def link_ok_def shard_inv_def
        responses_ok_init received_def sent_by_def initial_state_def)
qed

lemma cluster_step_inv:
  assumes inv: "cluster_inv p opts k v rid shards cl" and shards: "shards_ok p opts shards" and "0 < k"
    and lawful: "cluster_lawful shards cl e"
    and step: "cluster_step p opts k (map snd shards) e cl = Inr cl'"
  shows "cluster_inv p opts k v rid shards cl'"
proof -
  have n: "length shards = length (pinned_shards p)"
    using shards by (simp add: shards_ok_def)
  show ?thesis
  proof (cases e)
    case (Forward i)
    with step inv n show ?thesis by (auto simp: cluster_step_def forward_inv split: if_splits)
  next
    case (Accept i j)
    with step inv n show ?thesis by (auto simp: cluster_step_def accept_request_inv [OF inv shards] split: if_splits)
  next
    case (Interrupt i msg)
    then have "\<And>m. msg \<noteq> Message m"
      using lawful by auto
    then have "cluster_inv p opts k v rid shards (update_node i (scan_or_fail (snd (shards ! i)) (Pump 0 msg)) cl)"
      if "i < length (pinned_shards p)"
      using that by (intro node_moves [OF inv shards]) auto
    with Interrupt step inv n show ?thesis by (auto simp: cluster_step_def split: if_splits)
  next
    case (Scan i ev)
    then have "\<And>n m. ev \<noteq> Pump n m" "i < length (pinned_shards p) \<Longrightarrow> lawful_event (fst (shards ! i)) (cl_nodes cl ! i) ev"
      using lawful n by (auto elim: cluster_lawful.elims)
    then have "cluster_inv p opts k v rid shards (update_node i (scan_or_fail (snd (shards ! i)) ev) cl)"
      if "i < length (pinned_shards p)"
      using that by (intro node_moves [OF inv shards]) auto
    with Scan step inv n show ?thesis by (auto simp: cluster_step_def split: if_splits)
  next
    case (Respond i)
    with step inv n show ?thesis
      by (auto simp: cluster_step_def intro: respond_inv [OF inv shards \<open>0 < k\<close>] split: if_splits)
  next
    case (CloseStream i)
    with step inv n deliver_quiet [OF inv \<open>0 < k\<close>, of "EvClosed i"] show ?thesis
      by (auto simp: cluster_step_def split: if_splits)
  next
    case (LoseStream i s)
    with step inv n deliver_quiet [OF inv \<open>0 < k\<close>, of "EvError i s"] show ?thesis
      by (auto simp: cluster_step_def split: if_splits)
  qed
qed

lemma reach_inv:
  assumes "cluster_reach allowed p opts k v rid shards cl" and "shards_ok p opts shards" and "0 < k"
  shows "cluster_inv p opts k v rid shards cl"
  using assms(1)
  by (induction rule: cluster_reach.induct)
    (auto intro: cluster_start_inv [OF assms(2)] cluster_step_inv [OF _ assms(2,3)])

text \<open>The specification: one search over the rows of all shards together.\<close>

definition central_search :: "pinned \<Rightarrow> query_options \<Rightarrow> nat \<Rightarrow> heap_candidate list \<Rightarrow> neighbour list" where
  "central_search p opts k rows =
     map (to_neighbour p) (if tie_complete opts then tied_rows k rows else top_rows k rows)"

lemma reach_answer:
  assumes reach: "cluster_reach allowed p opts k v rid shards cl" and shards: "shards_ok p opts shards" and "0 < k"
    and none_left: "sq_remaining (cl_query cl) = 0" and opened: "reachable_shards connect start (pinned_shards p)"
  shows "fst (stream_query connect start p v k opts rid (cl_events cl)) =
    Inr (central_search p opts k (cluster_rows opts shards))"
proof -
  let ?rows = "cluster_rows opts shards"
  have "collector_inv p opts k v rid shards cl"
    using reach_inv [OF reach shards \<open>0 < k\<close>] by (simp add: cluster_inv_def)
  then have run: "stream_run p opts k (start_state p opts v rid) (cl_events cl) = Inr (cl_query cl)"
    and honest: "honest_scans p opts k ?rows [] (start_state p opts v rid) (cl_events cl)"
    by (simp_all add: collector_inv_def)
  obtain st where st: "stream_loop p opts k (start_state p opts v rid) (cl_events cl) = Inr st"
    using stream_run_loop [OF run none_left] by blast
  note rows = admitted_cluster_rows [OF shards]
  note final = final_candidates_exact [OF \<open>0 < k\<close> rows honest st]
  have "set (final_candidates opts st) \<subseteq> set ?rows"
    using top_rows_subset tied_rows_subset by (simp add: final)
  then have "neighbours (pinned_shards p) (final_candidates opts st) =
      Inr (map (to_neighbour p) (final_candidates opts st))"
    by (intro neighbours_Inr rows_in_range [OF rows])
  then show ?thesis
    using opened st by (simp add: stream_query_def open_streams_reachable central_search_def final)
qed

end
