(* ===== verification/Cluster_Properties.thy ===== *)
theory Cluster_Properties
  imports Cluster
begin

text \<open>
  What a distributed search over scanning nodes guarantees: an answer is that of one search over the
  rows of all shards, whatever happens on the way, and without faults the search does not fail.
\<close>

section \<open>Runs without faults\<close>

text \<open>No stream breaks, no engine fails; a request stream may end.\<close>

fun healthy :: "cluster_event \<Rightarrow> bool" where
  "healthy (Interrupt i msg) \<longleftrightarrow> msg = EndOfRequests"
| "healthy (Scan i ReceiverGone) \<longleftrightarrow> False"
| "healthy (Scan i (ScanEnds (Inl e))) \<longleftrightarrow> False"
| "healthy (LoseStream i s) \<longleftrightarrow> False"
| "healthy _ \<longleftrightarrow> True"

definition healthy_response :: "status + stream_search_payload \<Rightarrow> bool" where
  "healthy_response r \<longleftrightarrow>
     (case r of Inl e \<Rightarrow> False | Inr (Batch b) \<Rightarrow> True | Inr (Summary s) \<Rightarrow> summary_completed s)"

definition has_summary :: "(status + stream_search_payload) list \<Rightarrow> bool" where
  "has_summary rs \<longleftrightarrow> (\<exists>s. Inr (Summary s) \<in> set rs)"

lemma has_summary_simps [simp]:
  "\<not> has_summary []"
  "has_summary (rs @ ss) \<longleftrightarrow> has_summary rs \<or> has_summary ss"
  "has_summary (Inr (Batch b) # rs) \<longleftrightarrow> has_summary rs"
  "has_summary (Inr (Summary s) # rs)"
  "has_summary (Inl e # rs) \<longleftrightarrow> has_summary rs"
  by (auto simp: has_summary_def)

definition healthy_node :: "scan_state \<Rightarrow> bool" where
  "healthy_node sn \<longleftrightarrow>
     \<not> sn_stop sn \<and> sn_error sn = None \<and> \<not> sn_halted sn \<and> sn_open sn \<and>
     list_all healthy_response (sn_sent sn) \<and> (sn_done sn \<longrightarrow> has_summary (sn_sent sn))"

text \<open>A shard counts as completed exactly when its summary has arrived.\<close>

definition completion_ok :: "cluster \<Rightarrow> nat \<Rightarrow> bool" where
  "completion_ok cl i \<longleftrightarrow>
     (sq_completed (cl_query cl) ! i \<longleftrightarrow> has_summary (take (cl_taken cl ! i) (sent_by cl i)))"

definition health :: "nat \<Rightarrow> cluster \<Rightarrow> bool" where
  "health n cl \<longleftrightarrow> (\<forall>i < n. healthy_node (cl_nodes cl ! i) \<and> completion_ok cl i)"

lemma healthy_scan_step:
  assumes "scan_step labels e sn = Some sn'" and "healthy_node sn" and "lawful_event rows sn e"
    and "healthy (Scan i e)"
    and "\<And>n m. e = Pump n m \<Longrightarrow> m = EndOfRequests \<or> (\<exists>f. m = Message (Some (FloorUpdate f)) \<and> \<not> is_nan f)"
  shows "healthy_node sn'"
proof (cases e)
  case (Pump n m)
  then show ?thesis
    using assms(1,2) assms(5) [OF Pump] by (cases "sn_pumping sn") (auto simp: healthy_node_def)
next
  case Poll
  then show ?thesis
    using assms(1,2) by (auto simp: healthy_node_def poll_control_def split: if_splits)
next
  case (Emit scores slots)
  then show ?thesis
    using assms(1,2) by (auto simp: healthy_node_def emit_batch_def healthy_response_def)
next
  case (ScanEnds outcome)
  then show ?thesis
    using assms(1-4)
    by (cases outcome) (auto simp: healthy_node_def finish_scan_def healthy_response_def summary_of_def)
qed (use assms(4) in simp)

lemma health_node_moves:
  assumes inv: "cluster_inv p opts k v rid shards cl" and shards: "shards_ok p opts shards"
    and health: "health (length (pinned_shards p)) cl" and i: "i < length (pinned_shards p)"
    and lawful: "lawful_event (fst (shards ! i)) (cl_nodes cl ! i) e" and "healthy (Scan i e)"
    and "\<And>n m. e = Pump n m \<Longrightarrow> m = EndOfRequests \<or> (\<exists>f. m = Message (Some (FloorUpdate f)) \<and> \<not> is_nan f)"
  shows "health (length (pinned_shards p)) (update_node i (scan_or_fail (snd (shards ! i)) e) cl)"
proof -
  let ?sn = "cl_nodes cl ! i" and ?sn' = "scan_or_fail (snd (shards ! i)) e (cl_nodes cl ! i)"
  let ?cl' = "update_node i (scan_or_fail (snd (shards ! i)) e) cl"
  have own: "shard_inv opts (shards ! i) cl i" "length (cl_nodes cl) = length (pinned_shards p)"
    using inv i by (simp_all add: cluster_inv_def sized_def)
  then have ok: "responses_ok (fst (shards ! i)) (snd (shards ! i)) ?sn" "floors_ok (start_floor opts) ?sn"
      "cl_taken cl ! i \<le> length (sn_sent ?sn)"
    by (simp_all add: shard_inv_def sent_by_def)
  note step = scan_or_fail_ok(1) [OF conjunct2 [OF shards_okD [OF shards i]] lawful ok(1,2)]
  have "healthy_node ?sn'"
    using healthy_scan_step [OF step _ lawful assms(6,7)] health i by (auto simp: health_def)
  moreover have "completion_ok ?cl' i = completion_ok cl i"
    using scan_step_sent [OF step] ok(3) i own(2)
    by (auto simp: completion_ok_def sent_by_def node_grows_def)
  moreover have "completion_ok ?cl' j = completion_ok cl j" if "j \<noteq> i" for j
    using that by (simp add: completion_ok_def sent_by_def)
  ultimately show ?thesis
    using health i own(2) unfolding health_def by (metis nth_list_update update_node_sel(6))
qed

text \<open>What the collector does with the next response of a healthy shard.\<close>

lemma healthy_batch_accepted:
  assumes "batch_good rows labels b" and "rows_ok labels floor rows" and "stable_label_order opts \<longrightarrow> labels \<noteq> None"
  shows "well_formed_batch opts b"
proof -
  have "\<not> is_nan x" if x: "x \<in> set (batch_scores b)" for x
  proof -
    obtain j where "j < length (batch_scores b)" "batch_scores b ! j = x"
      using x by (auto simp: in_set_conv_nth)
    then have "(unat (batch_slots b ! j), x) \<in> set rows"
      using assms(1) by (auto simp: batch_good_def list_all_length)
    then show ?thesis
      using assms(2) by (auto simp: rows_ok_def list_all_iff f32_le_def)
  qed
  then show ?thesis
    using assms(1,3) by (auto simp: well_formed_batch_def batch_good_def split: option.splits)
qed

lemma summary_not_before:
  assumes "list_all is_batch (butlast xs)" and "n < length xs"
  shows "\<not> has_summary (take n xs)"
proof
  assume "has_summary (take n xs)"
  then obtain s j where "j < n" "xs ! j = Inr (Summary s)"
    using assms(2) by (auto simp: has_summary_def in_set_conv_nth)
  moreover from this have "butlast xs ! j = xs ! j" "j < length (butlast xs)"
    using assms(2) by (auto simp: nth_butlast)
  ultimately show False
    using assms(1) by (auto simp: list_all_length is_batch_def)
qed

lemma healthy_response_accepted:
  assumes inv: "cluster_inv p opts k v rid shards cl" and shards: "shards_ok p opts shards" and "0 < k"
    and stable: "stable_label_order opts \<longrightarrow> list_all (\<lambda>s. snd s \<noteq> None) shards"
    and health: "health (length (pinned_shards p)) cl" and i: "i < length (pinned_shards p)"
    and more_sent: "cl_taken cl ! i < length (sent_by cl i)"
  shows "\<exists>st. stream_step p opts k (response_event i (sent_by cl i ! (cl_taken cl ! i))) (cl_query cl) = Inr st"
proof -
  let ?r = "sent_by cl i ! (cl_taken cl ! i)"
  have col: "collector_inv p opts k v rid shards cl" and own: "shard_inv opts (shards ! i) cl i"
    using inv i by (simp_all add: cluster_inv_def)
  note sinv = collector_stream_inv [OF \<open>0 < k\<close> col]
  have ok: "responses_ok (fst (shards ! i)) (snd (shards ! i)) (cl_nodes cl ! i)"
    using own by (simp add: shard_inv_def)
  have r: "?r \<in> set (sn_sent (cl_nodes cl ! i))"
    using more_sent by (simp add: sent_by_def)
  then have fine: "healthy_response ?r"
    using health i by (simp add: health_def healthy_node_def list_all_iff)
  have "\<not> has_summary (take (cl_taken cl ! i) (sent_by cl i))"
    using ok more_sent by (intro summary_not_before) (simp_all add: responses_ok_def sent_by_def)
  then have running: "nth_opt (sq_completed (cl_query cl)) i = Some False"
    using health i sinv by (simp add: health_def completion_ok_def nth_opt_def stream_inv_def control_inv_def)
  have pin: "nth_opt (pinned_shards p) i = Some (pinned_shards p ! i)"
    using i by (simp add: nth_opt_def)
  show ?thesis
  proof (cases ?r)
    case (Inl e)
    then show ?thesis
      using fine by (simp add: healthy_response_def)
  next
    case (Inr pl)
    show ?thesis
    proof (cases pl)
      case (Batch b)
      have "batch_good (fst (shards ! i)) (snd (shards ! i)) b"
        using ok r Inr Batch by (auto simp: responses_ok_def)
      moreover have "stable_label_order opts \<longrightarrow> snd (shards ! i) \<noteq> None"
        using stable i shards by (simp add: list_all_length shards_ok_def)
      ultimately have "well_formed_batch opts b"
        using healthy_batch_accepted conjunct2 [OF shards_okD [OF shards i]] by blast
      from on_batch_inv [OF sinv \<open>0 < k\<close> running pin this] show ?thesis
        using Inr Batch by (auto simp: response_event_def)
    next
      case (Summary s)
      then have "summary_completed s"
        using fine Inr by (simp add: healthy_response_def)
      from on_summary_ok [OF sinv running pin this] show ?thesis
        using Inr Summary by (simp add: response_event_def)
    qed
  qed
qed


lemma finishes_response:
  "finishes j (response_event i r) \<longleftrightarrow> j = i \<and> (\<exists>s. r = Inr (Summary s) \<and> summary_completed s)"
  by (cases r) (auto simp: finishes_def response_event_def split: stream_search_payload.splits)

lemma health_delivered:
  assumes health: "health n cl" and "stream_inv opts k opened E (cl_query cl)" and "0 < k"
    and step: "stream_step p opts k e (cl_query cl) = Inr st" and n: "length opened = n"
    and new: "\<And>j. j < n \<Longrightarrow> has_summary (take (taken ! j) (sent_by cl j)) \<longleftrightarrow>
      has_summary (take (cl_taken cl ! j) (sent_by cl j)) \<or> finishes j e"
  shows "health n (cl\<lparr>cl_query := st, cl_events := es, cl_taken := taken\<rparr>)"
  using health stream_step_Inr [OF assms(2,3) step] new n
  by (simp add: health_def completion_ok_def sent_by_def)

lemma health_respond:
  assumes inv: "cluster_inv p opts k v rid shards cl" and shards: "shards_ok p opts shards" and "0 < k"
    and stable: "stable_label_order opts \<longrightarrow> list_all (\<lambda>s. snd s \<noteq> None) shards"
    and health: "health (length (pinned_shards p)) cl" and i: "i < length (pinned_shards p)"
    and more_sent: "cl_taken cl ! i < length (sent_by cl i)"
  shows "\<exists>cl'. deliver p opts k (response_event i (sent_by cl i ! (cl_taken cl ! i)))
      (cl\<lparr>cl_taken := (cl_taken cl)[i := Suc (cl_taken cl ! i)]\<rparr>) = Inr cl' \<and>
    health (length (pinned_shards p)) cl'"
proof -
  let ?r = "sent_by cl i ! (cl_taken cl ! i)" and ?taken = "(cl_taken cl)[i := Suc (cl_taken cl ! i)]"
  obtain st where st: "stream_step p opts k (response_event i ?r) (cl_query cl) = Inr st"
    using healthy_response_accepted [OF inv shards \<open>0 < k\<close> stable health i more_sent] by blast
  have sinv: "stream_inv opts k (requests opts v rid (pinned_shards p)) (emitted opts (cl_events cl)) (cl_query cl)"
    using inv by (auto simp: cluster_inv_def intro: collector_stream_inv [OF \<open>0 < k\<close>])
  have len: "i < length (cl_taken cl)"
    using inv i by (simp add: cluster_inv_def sized_def)
  have "?r \<in> set (sn_sent (cl_nodes cl ! i))"
    using more_sent by (simp add: sent_by_def)
  then have "healthy_response ?r"
    using health i by (simp add: health_def healthy_node_def list_all_iff)
  then have "has_summary [?r] \<longleftrightarrow> finishes i (response_event i ?r)"
    by (cases ?r) (auto simp: finishes_response has_summary_def healthy_response_def split: stream_search_payload.splits)
  moreover have "take (Suc (cl_taken cl ! i)) (sent_by cl i) = take (cl_taken cl ! i) (sent_by cl i) @ [?r]"
    using more_sent by (simp add: take_Suc_conv_app_nth)
  ultimately have "has_summary (take (?taken ! j) (sent_by cl j)) \<longleftrightarrow>
      has_summary (take (cl_taken cl ! j) (sent_by cl j)) \<or> finishes j (response_event i ?r)" for j
    using len by (cases "j = i") (simp_all add: finishes_response)
  from health_delivered [OF health sinv \<open>0 < k\<close> st _ this] show ?thesis
    by (simp add: deliver_def st) (simp add: health_def completion_ok_def sent_by_def)
qed

text \<open>A response stream only closes after its summary.\<close>

lemma health_close:
  assumes inv: "cluster_inv p opts k v rid shards cl" and health: "health (length (pinned_shards p)) cl"
    and i: "i < length (pinned_shards p)" and "0 < k"
    and ended: "sn_done (cl_nodes cl ! i)" "cl_taken cl ! i = length (sent_by cl i)"
  shows "\<exists>cl'. deliver p opts k (EvClosed i) cl = Inr cl' \<and> health (length (pinned_shards p)) cl'"
proof -
  have "stream_inv opts k (requests opts v rid (pinned_shards p)) (emitted opts (cl_events cl)) (cl_query cl)"
    using inv by (auto simp: cluster_inv_def intro: collector_stream_inv [OF \<open>0 < k\<close>])
  moreover have "sq_completed (cl_query cl) ! i"
    using health i ended by (simp add: health_def healthy_node_def completion_ok_def sent_by_def)
  ultimately have "nth_opt (sq_completed (cl_query cl)) i = Some True"
    using i by (simp add: nth_opt_def stream_inv_def control_inv_def)
  then show ?thesis
    using health by (simp add: deliver_def health_def completion_ok_def sent_by_def)
qed


lemma forward_sel [simp]:
  "cl_query (forward i cl) = cl_query cl" "cl_nodes (forward i cl) = cl_nodes cl"
  "cl_taken (forward i cl) = cl_taken cl"
  by (simp_all add: forward_def Let_def)

lemma health_cong:
  "cl_query cl' = cl_query cl \<Longrightarrow> cl_nodes cl' = cl_nodes cl \<Longrightarrow> cl_taken cl' = cl_taken cl \<Longrightarrow>
     health n cl' = health n cl"
  by (simp add: health_def completion_ok_def sent_by_def)

lemma health_accept:
  assumes inv: "cluster_inv p opts k v rid shards cl" and shards: "shards_ok p opts shards"
    and health: "health (length (pinned_shards p)) cl" and i: "i < length (pinned_shards p)"
  shows "health (length (pinned_shards p)) (accept_request (snd (shards ! i)) i n cl)"
proof (cases "cl_wires cl ! i")
  case Nil
  with health show ?thesis by (simp add: accept_request_def)
next
  case (Cons m ms)
  have "request_ok (published_floor (cl_query cl)) m"
    using inv i Cons by (auto simp: cluster_inv_def link_ok_def Let_def)
  then have "\<exists>f. m = FloorUpdate f \<and> \<not> is_nan f"
    by (auto simp: request_ok_def f32_le_def split: stream_search_request.splits)
  then have "health (length (pinned_shards p))
      (update_node i (scan_or_fail (snd (shards ! i)) (Pump n (Message (Some m)))) cl)"
    by (intro health_node_moves [OF inv shards health i]) auto
  then show ?thesis
    by (simp add: accept_request_def Cons health_def completion_ok_def sent_by_def)
qed

lemma health_step:
  assumes inv: "cluster_inv p opts k v rid shards cl" and shards: "shards_ok p opts shards" and "0 < k"
    and stable: "stable_label_order opts \<longrightarrow> list_all (\<lambda>s. snd s \<noteq> None) shards"
    and health: "health (length (pinned_shards p)) cl" and "healthy e" and lawful: "cluster_lawful shards cl e"
  shows "\<exists>cl'. cluster_step p opts k (map snd shards) e cl = Inr cl' \<and> health (length (pinned_shards p)) cl'"
proof -
  have n: "length shards = length (pinned_shards p)"
    using shards by (simp add: shards_ok_def)
  show ?thesis
  proof (cases e)
    case (Forward i)
    have "health (length (pinned_shards p)) (forward i cl)"
      using health health_cong [of "forward i cl" cl] by simp
    with Forward health n show ?thesis by (simp add: cluster_step_def)
  next
    case (Accept i j)
    with health n show ?thesis by (simp add: cluster_step_def health_accept [OF inv shards])
  next
    case (Interrupt i msg)
    then have "health (length (pinned_shards p)) (update_node i (scan_or_fail (snd (shards ! i)) (Pump 0 msg)) cl)"
      if "i < length (pinned_shards p)"
      using that \<open>healthy e\<close> by (intro health_node_moves [OF inv shards health]) auto
    with Interrupt health n show ?thesis by (simp add: cluster_step_def)
  next
    case (Scan i ev)
    then have "\<And>n m. ev \<noteq> Pump n m" "i < length (pinned_shards p) \<Longrightarrow> lawful_event (fst (shards ! i)) (cl_nodes cl ! i) ev"
      using lawful n by (auto elim: cluster_lawful.elims)
    then have "health (length (pinned_shards p)) (update_node i (scan_or_fail (snd (shards ! i)) ev) cl)"
      if "i < length (pinned_shards p)"
      using that \<open>healthy e\<close> Scan by (intro health_node_moves [OF inv shards health]) auto
    with Scan health n show ?thesis by (simp add: cluster_step_def)
  next
    case (Respond i)
    with health n show ?thesis
      by (simp add: cluster_step_def health_respond [OF inv shards \<open>0 < k\<close> stable health])
  next
    case (CloseStream i)
    with health n show ?thesis
      by (simp add: cluster_step_def health_close [OF inv health _ \<open>0 < k\<close>])
  qed (use \<open>healthy e\<close> in simp)
qed

lemma health_start: "health (length (pinned_shards p)) (cluster_start p opts v rid)"
  by (simp add: health_def cluster_start_def Let_def healthy_node_def completion_ok_def sent_by_def scan_init_def
      initial_state_def)

lemma reach_health:
  assumes "cluster_reach healthy p opts k v rid shards cl" and shards: "shards_ok p opts shards" and "0 < k"
    and "stable_label_order opts \<longrightarrow> list_all (\<lambda>s. snd s \<noteq> None) shards"
  shows "health (length (pinned_shards p)) cl"
  using assms(1)
proof (induction rule: cluster_reach.induct)
  case start
  show ?case by (rule health_start)
next
  case (step cl e cl')
  show ?case
    using health_step [OF reach_inv [OF step.hyps(1) shards \<open>0 < k\<close>] shards \<open>0 < k\<close> assms(4) step.IH step.hyps(2,3)]
      step.hyps(4) by simp
qed

text \<open>Every scan has ended and every response has arrived.\<close>

definition all_delivered :: "cluster \<Rightarrow> bool" where
  "all_delivered cl \<longleftrightarrow>
     list_all (\<lambda>i. sn_done (cl_nodes cl ! i) \<and> cl_taken cl ! i = length (sent_by cl i)) [0..<length (cl_nodes cl)]"

lemma all_delivered_finished:
  assumes inv: "cluster_inv p opts k v rid shards cl" and health: "health (length (pinned_shards p)) cl"
    and "0 < k" and all: "all_delivered cl"
  shows "sq_remaining (cl_query cl) = 0"
proof -
  have len: "length (cl_nodes cl) = length (pinned_shards p)"
    using inv by (simp add: cluster_inv_def sized_def)
  have "sq_completed (cl_query cl) ! i" if "i < length (pinned_shards p)" for i
    using all health that len
    by (simp add: all_delivered_def list_all_iff health_def healthy_node_def completion_ok_def sent_by_def)
  moreover have "stream_inv opts k (requests opts v rid (pinned_shards p)) (emitted opts (cl_events cl)) (cl_query cl)"
    using inv by (auto simp: cluster_inv_def intro: collector_stream_inv [OF \<open>0 < k\<close>])
  ultimately show ?thesis
    by (auto simp: stream_inv_def control_inv_def count_list_zero_iff in_set_conv_nth)
qed

section \<open>A concrete run\<close>

text \<open>
  Two nodes hold three and two rows. The batches of both raise the floor to 2.0; the second node reads
  it, withholds its row of 0.5 and completes while the first still scans.
\<close>

definition example_shards :: "shard_rows list" where
  "example_shards =
     [([(0, F32 0x40400000), (1, F32 0x3F800000), (2, F32 0x40000000)], None),
      ([(0, F32 0x40000000), (1, F32 0x3F000000)], None)]"

definition scan_completes :: "nat \<Rightarrow> node_event" where
  "scan_completes n = ScanEnds (Inr \<lparr>sw_completed = True, sw_emitted = n, sw_blocks = 1\<rparr>)"

definition example_run :: "cluster_event list" where
  "example_run =
     [Scan 0 (Emit [F32 0x40400000, F32 0x3F800000] [0, 1]), Respond 0, Scan 1 (Emit [F32 0x40000000] [0]),
      Respond 1, Forward 1, Accept 1 1, Scan 1 Poll, Scan 1 (scan_completes 1), Respond 1, CloseStream 1,
      Scan 0 (Emit [F32 0x40000000] [2]), Forward 0, Scan 0 (scan_completes 3), Respond 0, Respond 0]"

definition example_start :: cluster where
  "example_start = cluster_start example_pinned (example_options False) [] ''r''"

definition example_end :: cluster where
  "example_end =
     projr (cluster_run example_pinned (example_options False) 2 (map snd example_shards) example_run example_start)"

lemma example_shards_ok: "shards_ok example_pinned (example_options False) example_shards"
  by (simp add: shards_ok_def rows_ok_def example_shards_def example_pinned_def start_floor_def example_options_def
      neg_infinity_def is_nan_def f32_le_def f32_key_def f32_negative_def f32_magnitude_def)

lemma example_run_ends:
  "cluster_run example_pinned (example_options False) 2 (map snd example_shards) example_run example_start =
     Inr example_end"
proof -
  have "isl (cluster_run example_pinned (example_options False) 2 (map snd example_shards) example_run example_start) = False"
    by code_simp
  then show ?thesis
    by (cases "cluster_run example_pinned (example_options False) 2 (map snd example_shards) example_run example_start")
      (simp_all add: example_end_def)
qed

lemma example_run_healthy:
  "cluster_run_ok healthy example_pinned (example_options False) 2 example_shards example_run example_start"
  by code_simp

lemma example_reached:
  "cluster_reach healthy example_pinned (example_options False) 2 [] ''r'' example_shards example_end"
  by (rule run_reaches [OF _ example_run_healthy example_run_ends])
    (simp add: example_start_def cluster_reach.start)

lemma example_finished: "sq_remaining (cl_query example_end) = 0" "all_delivered example_end"
  by code_simp+

lemma example_opens: "reachable_shards (\<lambda>_. Inr ()) (\<lambda>_. Inr ()) (pinned_shards example_pinned)"
  by (simp add: reachable_shards_def example_pinned_def)

section \<open>The properties\<close>

text \<open>
  C28. The distributed search refines one search over the rows of all shards together. Take any run
  of the collector and its scanning nodes, in any interleaving: floors forwarded late or skipped,
  batches in flight, streams that end, break or are abandoned, engines that fail. When the collector
  has finished, \<open>stream_query\<close> on the events it received returns exactly the central search: the
  first k rows of all shards in rank order, with the ties at the boundary when they are asked for.
\<close>

theorem cluster_refines_central_search:
  assumes "cluster_reach allowed p opts k v rid shards cl" and "shards_ok p opts shards" and "0 < k"
    and "sq_remaining (cl_query cl) = 0" and "reachable_shards connect start (pinned_shards p)"
  shows "fst (stream_query connect start p v k opts rid (cl_events cl)) =
    Inr (central_search p opts k (cluster_rows opts shards))"
  using assms by (rule reach_answer)

theorem cluster_refines_central_search_witness:
  "fst (stream_query (\<lambda>_. Inr ()) (\<lambda>_. Inr ()) example_pinned [] 2 (example_options False) ''r'' (cl_events example_end)) =
    Inr (central_search example_pinned (example_options False) 2
      (cluster_rows (example_options False) example_shards)) \<and> \<not> cl_events example_end = []"
proof
  show "fst (stream_query (\<lambda>_. Inr ()) (\<lambda>_. Inr ()) example_pinned [] 2 (example_options False) ''r'' (cl_events example_end)) =
      Inr (central_search example_pinned (example_options False) 2
        (cluster_rows (example_options False) example_shards))"
    by (rule cluster_refines_central_search
        [OF example_reached example_shards_ok _ example_finished(1) example_opens]) simp
  show "\<not> cl_events example_end = []"
    by code_simp
qed

text \<open>
  C29. Without faults the distributed search cannot fail: from every state reached without one, every
  further step is accepted by the collector, and once every scan has ended and its responses have
  arrived the search has finished, with the answer of the central search.
\<close>

theorem healthy_cluster_answers:
  assumes "cluster_reach healthy p opts k v rid shards cl" and "shards_ok p opts shards" and "0 < k"
    and "stable_label_order opts \<longrightarrow> list_all (\<lambda>s. snd s \<noteq> None) shards"
    and "reachable_shards connect start (pinned_shards p)"
  shows "(\<forall>e. healthy e \<and> cluster_lawful shards cl e \<longrightarrow>
      (\<exists>cl'. cluster_step p opts k (map snd shards) e cl = Inr cl')) \<and>
    (all_delivered cl \<longrightarrow> fst (stream_query connect start p v k opts rid (cl_events cl)) =
      Inr (central_search p opts k (cluster_rows opts shards)))"
proof -
  note inv = reach_inv [OF assms(1-3)] and health = reach_health [OF assms(1-4)]
  show ?thesis
    using health_step [OF inv assms(2-4) health] all_delivered_finished [OF inv health assms(3)]
      reach_answer [OF assms(1-3) _ assms(5)] by blast
qed

theorem healthy_cluster_answers_witness:
  "fst (stream_query (\<lambda>_. Inr ()) (\<lambda>_. Inr ()) example_pinned [] 2 (example_options False) ''r'' (cl_events example_end)) =
    Inr (central_search example_pinned (example_options False) 2
      (cluster_rows (example_options False) example_shards))"
proof -
  have "stable_label_order (example_options False) \<longrightarrow> list_all (\<lambda>s. snd s \<noteq> None) example_shards"
    by (simp add: example_options_def)
  from healthy_cluster_answers [OF example_reached example_shards_ok _ this example_opens] example_finished(2)
  show ?thesis by simp
qed

end
