(* ===== verification/Collection_Search.thy ===== *)
theory Collection_Search
  imports Topology Cluster_Properties Node_Index
begin

text \<open>
  The \<^verbatim>\<open>Search\<close> call of the coordinator (\<^verbatim>\<open>src/src/coordinator/mod.rs\<close>): its checks, the split of
  the query buffer, and the task set that runs one distributed search per query, at most
  \<open>max_concurrent_queries\<close> at a time. Which running task finishes next is a choice of the schedule,
  so a statement about every schedule is one about every timing.
\<close>

section \<open>The request\<close>

record collection_search_request =
  cs_queries :: "f32 list"
  cs_k :: u32
  cs_stable_label_order :: bool
  cs_allowed_labels :: "u64 list"
  cs_has_allowed_labels :: bool
  cs_initial_floor :: "f32 option"
  cs_tie_complete :: bool
  cs_allowed_label_bitmaps :: "label_bitmap list"

definition check_collection_search :: "limits \<Rightarrow> collection_search_request \<Rightarrow> status + nat" where
  "check_collection_search lims req =
     (let k = unat (cs_k req) in
      if k = 0 \<or> limits.max_k lims < k then
        Inl (invalid_argument [Lit ''k must be between 1 and '', num (limits.max_k lims)])
      else if \<not> cs_has_allowed_labels req \<and> (cs_allowed_labels req \<noteq> [] \<or> cs_allowed_label_bitmaps req \<noteq> []) then
        Inl (invalid_argument [Lit ''allowed label filters require has_allowed_labels=true''])
      else if cs_allowed_labels req \<noteq> [] \<and> cs_allowed_label_bitmaps req \<noteq> [] then
        Inl (invalid_argument [Lit ''allowed_labels and allowed_label_bitmaps are mutually exclusive''])
      else
        rbind (validate_label_bitmaps (cs_allowed_label_bitmaps req)) (\<lambda>_.
          if (case cs_initial_floor req of None \<Rightarrow> False | Some f \<Rightarrow> is_nan f) then
            Inl (invalid_argument [Lit ''initial_floor must not be NaN''])
          else Inr k))"

text \<open>Against the bound collection: the number of queries.\<close>

definition check_collection_queries ::
    "limits \<Rightarrow> collection_search_request \<Rightarrow> pinned \<Rightarrow> status + nat" where
  "check_collection_queries lims req p =
     (if (cs_stable_label_order req \<or> cs_has_allowed_labels req) \<and>
         list_ex (\<lambda>s. \<not> info_labelled (probe_info s)) (pinned_shards p) then
        Inl (failed_precondition
          [Lit ''stable label order and filtering require every collection shard to be labelled''])
      else if cs_queries req = [] \<or> \<not> is_multiple_of (length (cs_queries req)) (pinned_dim p) then
        Inl (invalid_argument
          [Lit ''query buffer length '', num (length (cs_queries req)),
           Lit '' is not a positive multiple of the collection dim '', num (pinned_dim p)])
      else
        (let nq = length (cs_queries req) div pinned_dim p in
         if limits.max_queries_per_request lims < nq then
           Inl (mk_status ResourceExhausted
             [Lit ''request has '', num nq, Lit '' queries; limit is '', num (limits.max_queries_per_request lims)])
         else Inr nq))"

definition query_options_of :: "collection_search_request \<Rightarrow> query_options" where
  "query_options_of req =
     \<lparr>stable_label_order = cs_stable_label_order req, allowed_labels = cs_allowed_labels req,
      allowed_label_bitmaps = cs_allowed_label_bitmaps req, has_allowed_labels = cs_has_allowed_labels req,
      initial_floor = cs_initial_floor req, tie_complete = cs_tie_complete req\<rparr>"

text \<open>\<open>chunks_exact(dim)\<close>: \<open>n\<close> chunks.\<close>

fun chunks :: "nat \<Rightarrow> nat \<Rightarrow> 'a list \<Rightarrow> 'a list list" where
  "chunks 0 dim xs = []"
| "chunks (Suc n) dim xs = take dim xs # chunks n dim (drop dim xs)"

section \<open>The task set\<close>

text \<open>One query: its distributed search, or its deadline (\<open>None\<close>).\<close>

definition query_task ::
    "(string \<Rightarrow> status + unit) \<Rightarrow> (string \<Rightarrow> status + unit) \<Rightarrow> pinned \<Rightarrow> nat \<Rightarrow> query_options
     \<Rightarrow> string \<Rightarrow> f32 list \<Rightarrow> stream_event list option \<Rightarrow> status failure + neighbour list" where
  "query_task connect start p k opts rid v events =
     (case events of
        None \<Rightarrow> Inl (Failed (mk_status DeadlineExceeded [Lit ''distributed search deadline exceeded'']))
      | Some es \<Rightarrow> fst (stream_query connect start p v k opts rid es))"

text \<open>A task that panics is an error of the join.\<close>

definition joined :: "status failure + 'a \<Rightarrow> status + 'a" where
  "joined r =
     (case r of
        Inr x \<Rightarrow> Inr x
      | Inl (Failed e) \<Rightarrow> Inl e
      | Inl Panic \<Rightarrow> Inl (internal [Lit ''query task failed'']))"

text \<open>Spawning: the queries from \<open>upcoming\<close> on, while the set has room.\<close>

definition spawned :: "nat \<Rightarrow> nat \<Rightarrow> nat \<Rightarrow> nat list \<Rightarrow> nat" where
  "spawned room nq upcoming tasks = min (nq - upcoming) (room - length tasks)"

text \<open>
  The loop. \<open>schedule\<close> picks the running task that finishes next (a position, taken modulo the
  number of running tasks); \<open>Panic\<close> is the \<open>expect\<close> on an empty set.
\<close>

function query_loop ::
    "nat \<Rightarrow> nat \<Rightarrow> (nat \<Rightarrow> status failure + 'a) \<Rightarrow> (nat \<Rightarrow> nat) \<Rightarrow> nat \<Rightarrow> nat list \<Rightarrow> 'a option list
     \<Rightarrow> status failure + 'a option list" where
  "query_loop room nq outcome schedule upcoming tasks results =
     (if upcoming < nq \<or> tasks \<noteq> [] then
        (let added = spawned room nq upcoming tasks;
             running = tasks @ [upcoming..<upcoming + added];
             i = schedule (upcoming + added + length running) mod length running in
         if running = [] then Inl Panic
         else
           (case joined (outcome (running ! i)) of
              Inl e \<Rightarrow> Inl (Failed e)
            | Inr r \<Rightarrow>
                query_loop room nq outcome schedule (upcoming + added) (take i running @ drop (Suc i) running)
                  (results[running ! i := Some r])))
      else Inr results)"
  by pat_completeness auto

termination
proof (relation "measure (\<lambda>(room, nq, outcome, schedule, upcoming, tasks, results). (nq - upcoming) + length tasks)")
  fix room nq outcome schedule upcoming and tasks :: "nat list" and results :: "'a option list" and added running i r
  assume "added = spawned room nq upcoming tasks" "running = tasks @ [upcoming..<upcoming + added]"
    "i = schedule (upcoming + added + length running) mod length running" "running \<noteq> []"
  then have "i < length running" "length running = length tasks + added" "added \<le> nq - upcoming"
    by (simp_all add: spawned_def)
  then show "((room, nq, outcome, schedule, upcoming + added, take i running @ drop (Suc i) running,
        results[running ! i := Some r]), room, nq, outcome, schedule, upcoming, tasks, results)
      \<in> measure (\<lambda>(room, nq, outcome, schedule, upcoming, tasks, results). (nq - upcoming) + length tasks)"
    by simp
qed simp

declare query_loop.simps [simp del]

text \<open>\<open>result.expect(...)\<close> over the slots.\<close>

fun filled :: "'a option list \<Rightarrow> status failure + 'a list" where
  "filled [] = Inr []"
| "filled (None # rs) = Inl Panic"
| "filled (Some r # rs) = rbind (filled rs) (\<lambda>xs. Inr (r # xs))"

text \<open>
  The call. \<open>run i\<close> is what the shards of query \<open>i\<close> send (\<open>None\<close> when its deadline passes first),
  \<open>rids i\<close> its request id.
\<close>

definition collection_search ::
    "node_rpc \<Rightarrow> (string \<Rightarrow> status + unit) \<Rightarrow> (string \<Rightarrow> status + unit) \<Rightarrow> (nat \<Rightarrow> string)
     \<Rightarrow> (nat \<Rightarrow> stream_event list option) \<Rightarrow> (nat \<Rightarrow> nat) \<Rightarrow> collection_search_request \<Rightarrow> coordinator
     \<Rightarrow> (status failure + (neighbour list list \<times> u64)) \<times> coordinator" where
  "collection_search rpc connect start rids run schedule req co =
     (case check_collection_search (co_limits co) req of
        Inl e \<Rightarrow> (Inl (Failed e), co)
      | Inr k \<Rightarrow>
          (case collection rpc co of
             (Inl e, co') \<Rightarrow> (Inl (Failed e), co')
           | (Inr p, co') \<Rightarrow>
               (rbind (checked (check_collection_queries (co_limits co) req p)) (\<lambda>nq.
                  let vectors = chunks nq (pinned_dim p) (cs_queries req);
                      outcome = (\<lambda>i. query_task connect start p k (query_options_of req) (rids i) (vectors ! i) (run i))
                  in rbind (query_loop (max_concurrent_queries (co_limits co)) nq outcome schedule 0 []
                              (replicate nq None)) (\<lambda>results.
                       rbind (filled results) (\<lambda>rs. Inr (rs, pinned_generation p)))), co')))"

section \<open>Every schedule\<close>

text \<open>What the loop has settled: every query that was spawned and has left the set.\<close>

definition settled :: "(nat \<Rightarrow> status failure + 'a) \<Rightarrow> nat set \<Rightarrow> 'a option list \<Rightarrow> bool" where
  "settled outcome done results \<longleftrightarrow>
     (\<forall>j \<in> done. \<exists>r. joined (outcome j) = Inr r \<and> j < length results \<and> results ! j = Some r)"

lemma settled_insert:
  "settled outcome done results \<Longrightarrow> joined (outcome i) = Inr r \<Longrightarrow> i < length results \<Longrightarrow>
     settled outcome (insert i done) (results[i := Some r])"
  by (auto simp: settled_def nth_list_update)

lemma nth_notin_rest:
  assumes "distinct xs" and "i < length xs"
  shows "set (take i xs @ drop (Suc i) xs) = set xs - {xs ! i}" and "distinct (take i xs @ drop (Suc i) xs)"
proof -
  have xs: "xs = take i xs @ xs ! i # drop (Suc i) xs"
    using assms(2) by (simp add: id_take_nth_drop)
  have d: "distinct (take i xs @ xs ! i # drop (Suc i) xs)"
    using assms(1) xs by simp
  then show "distinct (take i xs @ drop (Suc i) xs)" by simp
  have "set xs = insert (xs ! i) (set (take i xs @ drop (Suc i) xs))"
    by (subst xs) simp
  with d show "set (take i xs @ drop (Suc i) xs) = set xs - {xs ! i}"
    by auto
qed

text \<open>One round of the loop, its local values named.\<close>

lemma query_loop_round:
  assumes "upcoming < nq \<or> tasks \<noteq> []" and "added = spawned room nq upcoming tasks"
    and "running = tasks @ [upcoming..<upcoming + added]" and "running \<noteq> []"
    and "i = schedule (upcoming + added + length running) mod length running"
  shows "query_loop room nq outcome schedule upcoming tasks results =
    (case joined (outcome (running ! i)) of
       Inl e \<Rightarrow> Inl (Failed e)
     | Inr r \<Rightarrow> query_loop room nq outcome schedule (upcoming + added) (take i running @ drop (Suc i) running)
                  (results[running ! i := Some r]))"
  using assms(1,4) by (subst query_loop.simps) (simp only: Let_def assms(2,3,5) if_True if_False)

definition loop_inv :: "nat \<Rightarrow> (nat \<Rightarrow> status failure + 'a) \<Rightarrow> nat \<Rightarrow> nat list \<Rightarrow> 'a option list \<Rightarrow> bool" where
  "loop_inv nq outcome upcoming tasks results \<longleftrightarrow>
     upcoming \<le> nq \<and> distinct tasks \<and> set tasks \<subseteq> {..<upcoming} \<and> length results = nq \<and>
     settled outcome ({..<upcoming} - set tasks) results"

lemma loop_inv_round:
  assumes inv: "loop_inv nq outcome upcoming tasks results" and added: "added \<le> nq - upcoming"
    and running: "running = tasks @ [upcoming..<upcoming + added]" and i: "i < length running"
    and r: "joined (outcome (running ! i)) = Inr r"
  shows "loop_inv nq outcome (upcoming + added) (take i running @ drop (Suc i) running) (results[running ! i := Some r])"
proof -
  have d: "distinct running" "set running = set tasks \<union> {upcoming..<upcoming + added}"
    using inv by (auto simp: running loop_inv_def)
  have j: "running ! i \<in> set running" using i by simp
  have le: "upcoming + added \<le> nq" using inv added by (auto simp: loop_inv_def)
  have sub: "set running \<subseteq> {..<upcoming + added}"
    using inv by (auto simp: d(2) loop_inv_def)
  note rest = nth_notin_rest [OF d(1) i]
  have "settled outcome (insert (running ! i) ({..<upcoming} - set tasks)) (results[running ! i := Some r])"
    using settled_insert [of outcome _ results "running ! i" r, OF _ r] inv j sub le by (auto simp: loop_inv_def)
  moreover have "{..<upcoming + added} - set (take i running @ drop (Suc i) running) =
      insert (running ! i) ({..<upcoming} - set tasks)"
    unfolding rest(1) using j sub inv by (auto simp: d(2) loop_inv_def)
  ultimately show ?thesis
    unfolding loop_inv_def rest(1) using rest(2) sub le inv by (auto simp: loop_inv_def)
qed

lemma query_loop_ends:
  assumes "0 < room" and "loop_inv nq outcome upcoming tasks results"
  shows "case query_loop room nq outcome schedule upcoming tasks results of
      Inr rs \<Rightarrow> length rs = nq \<and> settled outcome {..<nq} rs
    | Inl (Failed e) \<Rightarrow> \<exists>j < nq. joined (outcome j) = Inl e
    | Inl Panic \<Rightarrow> False"
  using assms
proof (induction "(nq - upcoming) + length tasks" arbitrary: upcoming tasks results rule: less_induct)
  case less
  define added where "added = spawned room nq upcoming tasks"
  define running where "running = tasks @ [upcoming..<upcoming + added]"
  define i where "i = schedule (upcoming + added + length running) mod length running"
  show ?case
  proof (cases "upcoming < nq \<or> tasks \<noteq> []")
    case False
    then have "upcoming = nq" "tasks = []"
      using less.prems by (auto simp: loop_inv_def)
    then show ?thesis
      using less.prems by (subst query_loop.simps) (simp add: loop_inv_def)
  next
    case active: True
    have added: "added \<le> nq - upcoming" by (simp add: added_def spawned_def)
    have "running \<noteq> []"
      using active \<open>0 < room\<close> by (cases tasks) (auto simp: running_def added_def spawned_def)
    then have i: "i < length running" by (simp add: i_def)
    note round = query_loop_round [of upcoming nq tasks added room running i schedule outcome results,
        OF active added_def running_def \<open>running \<noteq> []\<close> i_def]
    show ?thesis
    proof (cases "joined (outcome (running ! i))")
      case (Inl e)
      have "running ! i \<in> set running" using i by simp
      then have "running ! i < nq"
        using less.prems(2) added by (auto simp: running_def loop_inv_def)
      then show ?thesis
        unfolding round by (auto simp: Inl)
    next
      case (Inr r)
      let ?rest = "take i running @ drop (Suc i) running"
      have smaller: "(nq - (upcoming + added)) + length ?rest < (nq - upcoming) + length tasks"
        using i added by (simp add: running_def)
      from less.hyps [OF smaller \<open>0 < room\<close> loop_inv_round [OF less.prems(2) added running_def i Inr]]
      show ?thesis
        unfolding round by (simp add: Inr)
    qed
  qed
qed

lemma loop_inv_start: "loop_inv nq outcome 0 [] (replicate nq None)"
  by (simp add: loop_inv_def settled_def)

lemma filled_settled:
  assumes "settled outcome {..<length rs} rs"
  shows "filled rs = Inr (map (\<lambda>i. projr (joined (outcome i))) [0..<length rs])"
proof -
  have "filled (map Some xs) = Inr xs" for xs :: "'a list"
    by (induction xs) simp_all
  moreover have "rs = map Some (map (\<lambda>i. projr (joined (outcome i))) [0..<length rs])"
    using assms by (intro nth_equalityI) (force simp: settled_def)+
  ultimately show ?thesis by metis
qed

text \<open>Of all the queries, whatever the schedule: every result in query order, or the failure of one.\<close>

lemma query_loop_every_schedule:
  assumes "0 < room"
  shows "case rbind (query_loop room nq outcome schedule 0 [] (replicate nq None)) filled of
      Inr rs \<Rightarrow> (\<forall>i < nq. is_ok (joined (outcome i))) \<and> rs = map (\<lambda>i. projr (joined (outcome i))) [0..<nq]
    | Inl (Failed e) \<Rightarrow> \<exists>i < nq. joined (outcome i) = Inl e
    | Inl Panic \<Rightarrow> False"
proof -
  note ends = query_loop_ends [OF assms loop_inv_start, of nq outcome schedule]
  show ?thesis
  proof (cases "query_loop room nq outcome schedule 0 [] (replicate nq None)")
    case (Inl f)
    with ends show ?thesis by simp
  next
    case (Inr rs)
    with ends have rs: "length rs = nq" "settled outcome {..<nq} rs" by simp_all
    then have "\<forall>i < nq. is_ok (joined (outcome i))"
      by (auto simp: settled_def)
    then show ?thesis
      using filled_settled [of outcome rs] rs Inr by simp
  qed
qed

section \<open>The properties\<close>

lemma query_task_answers:
  assumes "cluster_reach allowed p opts k v rid shards cl" and "shards_ok p opts shards" and "0 < k"
    and "sq_remaining (cl_query cl) = 0" and "reachable_shards connect start (pinned_shards p)"
  shows "query_task connect start p k opts rid v (Some (cl_events cl)) =
    Inr (central_search p opts k (cluster_rows opts shards))"
  using reach_answer [OF assms] by (simp add: query_task_def)

lemma check_collection_search_k: "check_collection_search lims req = Inr k \<Longrightarrow> 0 < k"
  by (auto simp: check_collection_search_def Let_def rbind_Inr_iff split: if_splits)

lemma query_loop_all_ok:
  assumes "0 < room" and "\<And>i. i < nq \<Longrightarrow> outcome i = Inr (f i)"
  shows "rbind (query_loop room nq outcome schedule 0 [] (replicate nq None)) filled = Inr (map f [0..<nq])"
proof -
  have ok: "joined (outcome i) = Inr (f i)" if "i < nq" for i
    using assms(2) [OF that] by (simp add: joined_def)
  show ?thesis
    using query_loop_every_schedule [OF assms(1), of nq outcome schedule] ok
    by (auto split: sum.splits failure.splits cong: map_cong)
qed

text \<open>
  C30. A whole \<open>Search\<close> call is exact. Let the request pass its checks and the collection be bound, and
  let the distributed search of each query finish, in any interleaving and with any faults it
  survives. Then whatever the order in which the concurrent queries finish, the call returns one
  result per query, in query order, each the answer of a single search over the rows of all shards,
  with the generation it searched.
\<close>

theorem collection_search_exact:
  assumes "check_collection_search (co_limits co) req = Inr k" and "collection rpc co = (Inr p, co')"
    and "check_collection_queries (co_limits co) req p = Inr nq" and "0 < max_concurrent_queries (co_limits co)"
    and "reachable_shards connect start (pinned_shards p)"
    and "\<And>i. i < nq \<Longrightarrow> cluster_reach allowed p (query_options_of req) k
      (chunks nq (pinned_dim p) (cs_queries req) ! i) (rids i) (shards i) (cl i)"
    and "\<And>i. i < nq \<Longrightarrow> shards_ok p (query_options_of req) (shards i) \<and> sq_remaining (cl_query (cl i)) = 0"
  shows "collection_search rpc connect start rids (\<lambda>i. Some (cl_events (cl i))) schedule req co =
    (Inr (map (\<lambda>i. central_search p (query_options_of req) k (cluster_rows (query_options_of req) (shards i))) [0..<nq],
          pinned_generation p), co')"
proof -
  let ?opts = "query_options_of req"
  let ?f = "\<lambda>i. central_search p ?opts k (cluster_rows ?opts (shards i))"
  let ?outcome = "\<lambda>i. query_task connect start p k ?opts (rids i)
    (chunks nq (pinned_dim p) (cs_queries req) ! i) (Some (cl_events (cl i)))"
  have "?outcome i = Inr (?f i)" if "i < nq" for i
    by (rule query_task_answers [OF assms(6) [OF that] _ check_collection_search_k [OF assms(1)] _ assms(5)])
      (use assms(7) [OF that] in simp_all)
  note loop = query_loop_all_ok [of "max_concurrent_queries (co_limits co)" nq ?outcome ?f schedule, OF assms(4) this]
  show ?thesis
    using loop by (auto simp: collection_search_def assms(1-3) Let_def rbind_Inr_iff)
qed

text \<open>
  C31. The loop over the concurrent queries ends for every schedule, and the schedule does not decide
  whether the call succeeds or what it returns: two schedules give the same results, or both fail,
  each with a status that one of the queries failed with. No schedule panics.
\<close>

theorem collection_search_returns:
  assumes "0 < max_concurrent_queries (co_limits co)"
  shows "fst (collection_search rpc connect start rids run schedule req co) \<noteq> Inl Panic \<and>
    (case (fst (collection_search rpc connect start rids run schedule req co),
           fst (collection_search rpc connect start rids run other req co)) of
       (Inr a, Inr b) \<Rightarrow> a = b
     | (Inl a, Inl b) \<Rightarrow> True
     | _ \<Rightarrow> False)"
proof (cases "check_collection_search (co_limits co) req")
  case (Inl e)
  then show ?thesis by (simp add: collection_search_def)
next
  case k: (Inr k)
  obtain bound co' where coll: "collection rpc co = (bound, co')" by fastforce
  show ?thesis
  proof (cases "rbind bound (check_collection_queries (co_limits co) req)")
    case (Inl e)
    with k coll show ?thesis
      by (cases bound) (simp_all add: collection_search_def)
  next
    case (Inr nq)
    then obtain p where p: "bound = Inr p" "check_collection_queries (co_limits co) req p = Inr nq"
      by (auto simp: rbind_Inr_iff)
    let ?outcome = "\<lambda>i. query_task connect start p k (query_options_of req) (rids i)
      (chunks nq (pinned_dim p) (cs_queries req) ! i) (run i)"
    let ?all = "\<lambda>schedule. rbind (query_loop (max_concurrent_queries (co_limits co)) nq ?outcome schedule 0 []
      (replicate nq None)) filled"
    have eq: "fst (collection_search rpc connect start rids run schedule req co) =
        rbind (?all schedule) (\<lambda>rs. Inr (rs, pinned_generation p))" for schedule
      using p k coll
      by (cases "query_loop (max_concurrent_queries (co_limits co)) nq ?outcome schedule 0 [] (replicate nq None)")
        (simp_all add: collection_search_def Let_def)
    note every = query_loop_every_schedule [OF assms, of nq ?outcome]
    show ?thesis
      using every [of schedule] every [of other] unfolding eq
      by (auto split: sum.splits failure.splits)
  qed
qed

text \<open>Two copies of one query over the two shards of the example, finishing in either order.\<close>

definition example_request :: collection_search_request where
  "example_request =
     \<lparr>cs_queries = replicate 4 (F32 0), cs_k = 2, cs_stable_label_order = False, cs_allowed_labels = [],
      cs_has_allowed_labels = False, cs_initial_floor = None, cs_tie_complete = False,
      cs_allowed_label_bitmaps = []\<rparr>"

definition example_coordinator :: coordinator where
  "example_coordinator =
     \<lparr>co_generation = 1, co_shards = [], co_path = None, co_spares = [], co_pinned = Some example_pinned,
      co_limits = Topology.default_limits, co_generation_gauge = 1\<rparr>"

definition query_end :: cluster where
  "query_end =
     projr (cluster_run example_pinned (example_options False) 2 (map snd example_shards) example_run
       (cluster_start example_pinned (example_options False) [F32 0, F32 0] ''q''))"

lemma query_end_ok:
  "isl (cluster_run example_pinned (example_options False) 2 (map snd example_shards) example_run
     (cluster_start example_pinned (example_options False) [F32 0, F32 0] ''q'')) = False"
  "cluster_run_ok (\<lambda>_. True) example_pinned (example_options False) 2 example_shards example_run
     (cluster_start example_pinned (example_options False) [F32 0, F32 0] ''q'')"
  "sq_remaining (cl_query query_end) = 0"
  by code_simp+

lemma Inr_projr: "isl x = False \<Longrightarrow> x = Inr (projr x)"
  by (cases x) simp_all

lemma query_end_reached:
  "cluster_reach (\<lambda>_. True) example_pinned (example_options False) 2 [F32 0, F32 0] ''q'' example_shards query_end"
proof (rule run_reaches [OF cluster_reach.start query_end_ok(2)])
  show "cluster_run example_pinned (example_options False) 2 (map snd example_shards) example_run
      (cluster_start example_pinned (example_options False) [F32 0, F32 0] ''q'') = Inr query_end"
    unfolding query_end_def by (rule Inr_projr [OF query_end_ok(1)])
qed

lemma example_options_of: "query_options_of example_request = example_options False"
  by (simp add: query_options_of_def example_request_def example_options_def)

theorem collection_search_exact_witness:
  "fst (collection_search example_rpc (\<lambda>_. Inr ()) (\<lambda>_. Inr ()) (\<lambda>_. ''q'') (\<lambda>_. Some (cl_events query_end))
      (\<lambda>n. n + 1) example_request example_coordinator) =
    Inr (replicate 2 (central_search example_pinned (example_options False) 2
      (cluster_rows (example_options False) example_shards)), 1)"
proof -
  have checks: "check_collection_search (co_limits example_coordinator) example_request = Inr 2"
      "check_collection_queries (co_limits example_coordinator) example_request example_pinned = Inr 2"
    by (simp_all add: check_collection_search_def check_collection_queries_def example_request_def example_coordinator_def
        Topology.default_limits_def validate_label_bitmaps_def example_pinned_def is_multiple_of_def)
  have chunk: "chunks 2 (pinned_dim example_pinned) (cs_queries example_request) ! i = [F32 0, F32 0]" if "i < 2" for i
    using that by (cases i) (simp_all add: example_pinned_def example_request_def numeral_2_eq_2)
  have coll: "collection example_rpc example_coordinator = (Inr example_pinned, example_coordinator)"
    by (simp add: collection_def collection_begin_def example_coordinator_def)
  have room: "0 < max_concurrent_queries (co_limits example_coordinator)"
    by (simp add: example_coordinator_def Topology.default_limits_def)
  have reach: "cluster_reach (\<lambda>_. True) example_pinned (query_options_of example_request) 2
      (chunks 2 (pinned_dim example_pinned) (cs_queries example_request) ! i) ''q'' example_shards query_end" if "i < 2" for i
    unfolding chunk [OF that] example_options_of by (rule query_end_reached)
  have ok: "shards_ok example_pinned (query_options_of example_request) example_shards \<and>
      sq_remaining (cl_query query_end) = 0"
    unfolding example_options_of using example_shards_ok query_end_ok(3) by blast
  have two: "map (\<lambda>i. x) [0..<2] = replicate 2 x" for x :: "neighbour list"
    by (simp add: numeral_2_eq_2)
  have gen: "pinned_generation example_pinned = 1"
    by (simp add: example_pinned_def)
  show ?thesis
    using collection_search_exact [OF checks(1) coll checks(2) room example_opens reach ok, of "\<lambda>n. n + 1"]
    unfolding two gen example_options_of by simp
qed

theorem collection_search_returns_witness:
  "fst (collection_search example_rpc (\<lambda>_. Inr ()) (\<lambda>_. Inr ()) (\<lambda>_. ''q'') (\<lambda>i. if i = 0 then None else Some [])
      (\<lambda>n. n) example_request example_coordinator) \<noteq> Inl Panic"
proof -
  have "0 < max_concurrent_queries (co_limits example_coordinator)"
    by (simp add: example_coordinator_def Topology.default_limits_def)
  from collection_search_returns [OF this] show ?thesis by blast
qed

end
