(* ===== verification/Observability.thy ===== *)
theory Observability
  imports Node_Table
begin

text \<open>
  The counters and the metrics endpoint of \<^verbatim>\<open>src/src/observability.rs\<close>. Every counter is an atomic of its
  own, so an operation is one step on the record. The endpoint reads at most 2048 bytes of a request and
  answers with the whole text; sockets are not modelled. The lemmas read the counters back from the text.
\<close>

record metrics =
  mt_node_searches :: u64
  mt_coordinator_searches :: u64
  mt_search_errors :: u64
  mt_active_scans :: u64
  mt_candidates_emitted :: u64
  mt_blocks_scanned :: u64
  mt_rows_ingested :: u64
  mt_topology_generation :: u64

definition no_metrics :: metrics where
  "no_metrics = \<lparr>mt_node_searches = 0, mt_coordinator_searches = 0, mt_search_errors = 0, mt_active_scans = 0,
     mt_candidates_emitted = 0, mt_blocks_scanned = 0, mt_rows_ingested = 0, mt_topology_generation = 0\<rparr>"

section \<open>Counting\<close>

text \<open>\<open>scan_started\<close> and the drop of the guard it returns; \<open>fetch_add\<close> and \<open>fetch_sub\<close> wrap.\<close>

definition scan_started :: "metrics \<Rightarrow> metrics" where
  "scan_started m = m\<lparr>mt_active_scans := mt_active_scans m + 1\<rparr>"

definition scan_dropped :: "metrics \<Rightarrow> metrics" where
  "scan_dropped m = m\<lparr>mt_active_scans := mt_active_scans m - 1\<rparr>"

definition node_search_finished :: "u64 \<Rightarrow> u64 \<Rightarrow> metrics \<Rightarrow> metrics" where
  "node_search_finished emitted blocks m =
     m\<lparr>mt_node_searches := mt_node_searches m + 1, mt_candidates_emitted := mt_candidates_emitted m + emitted,
       mt_blocks_scanned := mt_blocks_scanned m + blocks\<rparr>"

definition coordinator_search_finished :: "metrics \<Rightarrow> metrics" where
  "coordinator_search_finished m = m\<lparr>mt_coordinator_searches := mt_coordinator_searches m + 1\<rparr>"

definition search_failed :: "metrics \<Rightarrow> metrics" where
  "search_failed m = m\<lparr>mt_search_errors := mt_search_errors m + 1\<rparr>"

definition count_rows_ingested :: "u64 \<Rightarrow> metrics \<Rightarrow> metrics" where
  "count_rows_ingested rows m = m\<lparr>mt_rows_ingested := mt_rows_ingested m + rows\<rparr>"

definition set_topology_generation :: "u64 \<Rightarrow> metrics \<Rightarrow> metrics" where
  "set_topology_generation generation m = m\<lparr>mt_topology_generation := generation\<rparr>"

section \<open>The text\<close>

definition newline :: string where
  "newline = [CHR 0x0A]"

definition exposed :: "metrics \<Rightarrow> (string \<times> string \<times> string \<times> u64) list" where
  "exposed m =
     [(''turbovec_node_searches_total'', ''Completed node search scans.'', ''counter'', mt_node_searches m),
      (''turbovec_coordinator_searches_total'', ''Completed distributed searches.'', ''counter'', mt_coordinator_searches m),
      (''turbovec_search_errors_total'', ''Searches that ended with an error.'', ''counter'', mt_search_errors m),
      (''turbovec_active_scans'', ''Node scans currently consuming an admission slot.'', ''gauge'', mt_active_scans m),
      (''turbovec_candidates_emitted_total'', ''Candidates emitted by node streaming scans.'', ''counter'',
        mt_candidates_emitted m),
      (''turbovec_blocks_scanned_total'', ''Chunks scored by node streaming scans.'', ''counter'', mt_blocks_scanned m),
      (''turbovec_rows_ingested_total'', ''Rows accepted by node ingest streams.'', ''counter'', mt_rows_ingested m),
      (''turbovec_topology_generation'', ''Active coordinator topology generation.'', ''gauge'', mt_topology_generation m)]"

fun metric_text :: "string \<times> string \<times> string \<times> u64 \<Rightarrow> string" where
  "metric_text (name, help, kind, value) =
     ''# HELP '' @ name @ '' '' @ help @ newline @ ''# TYPE '' @ name @ '' '' @ kind @ newline @
     name @ '' '' @ show_nat (unat value) @ newline"

definition render_metrics :: "metrics \<Rightarrow> string" where
  "render_metrics m = concat (map metric_text (exposed m)) @ ''# EOF'' @ newline"

section \<open>The endpoint\<close>

definition starts_with :: "string \<Rightarrow> string \<Rightarrow> bool" where
  "starts_with start s \<longleftrightarrow> strip_prefix start s \<noteq> None"

definition crlf :: string where
  "crlf = [CHR 0x0D, CHR 0x0A]"

text \<open>\<open>sent\<close> is what the first read delivers. The body is ASCII, so its length is its byte count.\<close>

definition metrics_response :: "string \<Rightarrow> metrics \<Rightarrow> string" where
  "metrics_response sent m =
     (let (status, content_type, body) =
        (if starts_with ''GET /metrics '' (take 2048 sent)
         then (''200 OK'', ''application/openmetrics-text; version=1.0.0; charset=utf-8'', render_metrics m)
         else (''404 Not Found'', ''text/plain; charset=utf-8'', ''not found'' @ newline))
      in ''HTTP/1.1 '' @ status @ crlf @ ''Content-Type: '' @ content_type @ crlf @
         ''Content-Length: '' @ show_nat (length body) @ crlf @ ''Connection: close'' @ crlf @ crlf @ body)"

section \<open>Reading the counters back\<close>

text \<open>A scraper: the value on the line that starts with the name.\<close>

definition sample_line :: "string \<Rightarrow> string \<Rightarrow> u64 option" where
  "sample_line name line =
     (case strip_prefix (name @ '' '') line of
        None \<Rightarrow> None
      | Some value \<Rightarrow> (case parse_u64 value of Inl _ \<Rightarrow> None | Inr v \<Rightarrow> Some v))"

fun lines_of :: "string \<Rightarrow> string \<Rightarrow> string list" where
  "lines_of acc [] = (if acc = [] then [] else [rev acc])"
| "lines_of acc (c # cs) = (if c = CHR 0x0A then rev acc # lines_of [] cs else lines_of (c # acc) cs)"

fun samples :: "string \<Rightarrow> string list \<Rightarrow> u64 list" where
  "samples name [] = []"
| "samples name (l # ls) =
     (case sample_line name l of None \<Rightarrow> samples name ls | Some v \<Rightarrow> v # samples name ls)"

definition scrape :: "string \<Rightarrow> string \<Rightarrow> u64 list" where
  "scrape name body = samples name (lines_of [] body)"

text \<open>The body of a response: what follows the first empty line.\<close>

fun response_body :: "string \<Rightarrow> string" where
  "response_body [] = []"
| "response_body (c # cs) =
     (case strip_prefix (crlf @ crlf) (c # cs) of Some body \<Rightarrow> body | None \<Rightarrow> response_body cs)"

lemma lines_of_line: "CHR 0x0A \<notin> set l \<Longrightarrow> lines_of acc (l @ newline @ s) = (rev acc @ l) # lines_of [] s"
  by (induction l arbitrary: acc) (auto simp: newline_def)

lemma show_nat_one_line: "CHR 0x0A \<notin> set (show_nat n)"
  using show_nat_digits [of n] by (auto simp: list_all_iff is_digit_def)

fun metric_lines :: "string \<times> string \<times> string \<times> u64 \<Rightarrow> string list" where
  "metric_lines (name, help, kind, value) =
     [''# HELP '' @ name @ '' '' @ help, ''# TYPE '' @ name @ '' '' @ kind, name @ '' '' @ show_nat (unat value)]"

definition one_line :: "string \<times> string \<times> string \<times> u64 \<Rightarrow> bool" where
  "one_line = (\<lambda>(name, help, kind, _). CHR 0x0A \<notin> set (name @ help @ kind))"

lemma lines_of_metric: "one_line x \<Longrightarrow> lines_of [] (metric_text x @ s) = metric_lines x @ lines_of [] s"
  using lines_of_line [of "''# HELP '' @ fst x @ '' '' @ fst (snd x)" "[]"]
    lines_of_line [of "''# TYPE '' @ fst x @ '' '' @ fst (snd (snd x))" "[]"]
    lines_of_line [of "fst x @ '' '' @ show_nat (unat (snd (snd (snd x))))" "[]"]
  by (cases x) (simp add: one_line_def show_nat_one_line)

lemma lines_of_metrics:
  "list_all one_line xs \<Longrightarrow> lines_of [] (concat (map metric_text xs) @ s) = concat (map metric_lines xs) @ lines_of [] s"
  by (induction xs) (simp_all add: lines_of_metric del: metric_text.simps metric_lines.simps)

lemma lines_of_render: "lines_of [] (render_metrics m) = concat (map metric_lines (exposed m)) @ [''# EOF'']"
proof -
  have "list_all one_line (exposed m)"
    by (simp add: exposed_def one_line_def)
  then show ?thesis
    using lines_of_line [of "''# EOF''" "[]" "[]"] by (simp add: render_metrics_def lines_of_metrics del: metric_text.simps)
qed

text \<open>A metric name has no space and is no comment.\<close>

definition metric_name :: "string \<Rightarrow> bool" where
  "metric_name name \<longleftrightarrow> name \<noteq> [] \<and> CHR '' '' \<notin> set name \<and> hd name \<noteq> CHR ''#''"

lemma strip_other_name:
  "CHR '' '' \<notin> set a \<Longrightarrow> CHR '' '' \<notin> set b \<Longrightarrow> a \<noteq> b \<Longrightarrow> strip_prefix (a @ '' '') (b @ '' '' @ s) = None"
proof (induction a arbitrary: b)
  case Nil
  then show ?case by (cases b) auto
next
  case (Cons c a)
  then show ?case by (cases b) auto
qed

lemma sample_lines:
  assumes "metric_name name" and "metric_name name'"
  shows "samples name (metric_lines (name', doc, kind, v) @ ls) = (if name = name' then [v] else []) @ samples name ls"
proof -
  obtain c cs where name: "name = c # cs" "c \<noteq> CHR ''#''"
    using assms(1) by (cases name) (auto simp: metric_name_def)
  have "sample_line name (''# HELP '' @ s) = None" "sample_line name (''# TYPE '' @ s) = None" for s
    using name by (simp_all add: sample_line_def)
  moreover have "sample_line name (name' @ '' '' @ show_nat (unat v)) = (if name = name' then Some v else None)"
  proof (cases "name = name'")
    case True
    then show ?thesis
      using strip_prefix_append [of "name' @ '' ''" "show_nat (unat v)"] parse_u64_show_word [of v]
      by (simp add: sample_line_def)
  next
    case False
    then show ?thesis
      using strip_other_name [of name name' "show_nat (unat v)"] assms by (simp add: sample_line_def metric_name_def)
  qed
  ultimately show ?thesis
    by simp
qed

lemma scrape_lines:
  assumes "metric_name name" and "list_all (\<lambda>x. metric_name (fst x)) xs"
  shows "samples name (concat (map metric_lines xs) @ ls) =
    map (\<lambda>x. snd (snd (snd x))) (filter (\<lambda>x. fst x = name) xs) @ samples name ls"
  using assms(2)
proof (induction xs)
  case (Cons x xs)
  obtain name' doc kind v where "x = (name', doc, kind, v)" by (cases x)
  then show ?case
    using Cons sample_lines [OF assms(1), of name' doc kind v]
    by (auto simp del: metric_lines.simps)
qed simp

text \<open>The header lines of a response.\<close>

lemma response_body_line:
  "CHR 0x0D \<notin> set l \<Longrightarrow> rest \<noteq> [] \<Longrightarrow> hd rest \<noteq> CHR 0x0D \<Longrightarrow> response_body (l @ crlf @ rest) = response_body rest"
  by (induction l; cases rest) (auto simp: crlf_def)

lemma response_body_end: "CHR 0x0D \<notin> set l \<Longrightarrow> response_body (l @ crlf @ crlf @ body) = body"
  by (induction l) (auto simp: crlf_def)

lemma show_nat_no_cr: "CHR 0x0D \<notin> set (show_nat n)"
  using show_nat_digits [of n] by (auto simp: list_all_iff is_digit_def)

lemma response_body_response:
  "response_body (metrics_response sent m) =
     (if starts_with ''GET /metrics '' (take 2048 sent) then render_metrics m else ''not found'' @ newline)"
proof -
  have header: "response_body (''HTTP/1.1 '' @ status @ crlf @ ''Content-Type: '' @ content_type @ crlf @
      ''Content-Length: '' @ show_nat n @ crlf @ ''Connection: close'' @ crlf @ crlf @ body) = body"
    if "CHR 0x0D \<notin> set status" "CHR 0x0D \<notin> set content_type" for status content_type n body
    using that response_body_line [of "''HTTP/1.1 '' @ status"] response_body_line [of "''Content-Type: '' @ content_type"]
      response_body_line [of "''Content-Length: '' @ show_nat n"] response_body_end [of "''Connection: close''"]
      show_nat_no_cr [of n] by simp
  show ?thesis
  proof (cases "starts_with ''GET /metrics '' (take 2048 sent)")
    case True
    show ?thesis
      unfolding metrics_response_def by (simp only: True if_True Let_def prod.case) (rule header; simp)
  next
    case False
    show ?thesis
      unfolding metrics_response_def by (simp only: False if_False Let_def prod.case) (rule header; simp)
  qed
qed

text \<open>
  The endpoint tells the truth: a scraper that asks for \<open>/metrics\<close> finds, for every counter, exactly one
  sample, and it is the counter's value, all 64 bits of it; any other request gets a 404 without a sample.
\<close>

theorem scrape_reads_counters:
  assumes "(name, doc, kind, v) \<in> set (exposed m)"
  shows "scrape name (response_body (metrics_response sent m)) =
    (if starts_with ''GET /metrics '' (take 2048 sent) then [v] else [])"
proof -
  have names: "list_all (\<lambda>x. metric_name (fst x)) (exposed m)"
    by (simp add: exposed_def metric_name_def)
  with assms have name: "metric_name name"
    by (auto simp: list_all_iff)
  have "map (\<lambda>x. snd (snd (snd x))) (filter (\<lambda>x. fst x = name) (exposed m)) = [v]"
    using assms by (auto simp: exposed_def)
  moreover have "samples name [''# EOF''] = []"
    using name by (cases name) (auto simp: metric_name_def sample_line_def)
  moreover have "scrape name (''not found'' @ newline) = []"
    using assms by (auto simp: exposed_def scrape_def newline_def sample_line_def)
  ultimately show ?thesis
    using scrape_lines [OF name names, of "[''# EOF'']"]
    by (simp add: response_body_response scrape_def lines_of_render)
qed

theorem scrape_reads_counters_witness:
  "scrape ''turbovec_active_scans'' (response_body (metrics_response ''GET /metrics HTTP/1.1''
     (scan_started (scan_dropped (scan_started no_metrics))))) = [1]"
proof -
  let ?m = "scan_started (scan_dropped (scan_started no_metrics))"
  have "starts_with ''GET /metrics '' (take 2048 ''GET /metrics HTTP/1.1'')"
    by (simp add: starts_with_def)
  moreover have "(''turbovec_active_scans'', ''Node scans currently consuming an admission slot.'', ''gauge'', 1) \<in> set (exposed ?m)"
    by (simp add: exposed_def scan_started_def scan_dropped_def no_metrics_def)
  ultimately show ?thesis
    using scrape_reads_counters by simp
qed

end
