(* ===== verification/Candidate_Stream.thy ===== *)
theory Candidate_Stream
  imports Stream_Query Topology Label_Filter Observability
begin

text \<open>
  The collection-level candidate stream of the coordinator: \<^verbatim>\<open>run_candidate_stream\<close> and its helpers in
  \<^verbatim>\<open>src/src/coordinator/mod.rs\<close>. A caller sends one start and then raises the floor or stops; the
  coordinator forwards the candidates of every shard in packed batches and ends with one completion. The
  \<open>select!\<close> loop is a step function on the event it takes, so a statement about every list of events is
  one about every timing. \<open>reader\<close> is the number of messages the caller takes before it goes away
  (\<open>None\<close>: it stays); a send after that fails.
\<close>

definition CANDIDATE_BATCH_BYTES :: nat where
  "CANDIDATE_BATCH_BYTES = 64 * 1024"

section \<open>Messages\<close>

record candidate_start =
  ca_request_id :: string
  ca_vector :: "f32 list"
  ca_initial_floor :: "f32 option"
  ca_allowed_labels :: "u64 list"
  ca_has_allowed_labels :: bool
  ca_allowed_label_bitmaps :: "label_bitmap list"

datatype candidate_request = StartCandidates candidate_start | RaiseFloor f32 | StopCandidates

definition EXHAUSTIVE_QUANTIZED :: int where
  "EXHAUSTIVE_QUANTIZED = 1"

record candidate_completion =
  cc_completed :: bool
  cc_emitted :: u64
  cc_blocks_scanned :: u64
  cc_floor_raises_applied :: u64
  cc_scoring_fingerprint :: string
  cc_quality_contract :: int
  cc_topology_generation :: u64
  cc_shards_total :: u32
  cc_shards_completed :: u32
  cc_error :: message

datatype candidate_response = CandidateBatch bytes | CandidateCompletion candidate_completion

type_synonym outbox = "(status + candidate_response) list"

definition send :: "nat option \<Rightarrow> status + candidate_response \<Rightarrow> outbox \<Rightarrow> bool \<times> outbox" where
  "send reader x out =
     (if (case reader of None \<Rightarrow> True | Some n \<Rightarrow> length out < n) then (True, out @ [x]) else (False, out))"

definition default_completion :: candidate_completion where
  "default_completion = \<lparr>cc_completed = False, cc_emitted = 0, cc_blocks_scanned = 0, cc_floor_raises_applied = 0,
     cc_scoring_fingerprint = [], cc_quality_contract = 0, cc_topology_generation = 0, cc_shards_total = 0,
     cc_shards_completed = 0, cc_error = []\<rparr>"

definition send_completion :: "nat option \<Rightarrow> candidate_completion \<Rightarrow> outbox \<Rightarrow> outbox" where
  "send_completion reader c out = snd (send reader (Inr (CandidateCompletion c)) out)"

definition send_error :: "nat option \<Rightarrow> status \<Rightarrow> outbox \<Rightarrow> outbox" where
  "send_error reader e out = snd (send reader (Inl e) out)"

text \<open>\<open>u32::try_from(n).unwrap_or(u32::MAX)\<close> and the saturating counter of the shards.\<close>

definition saturating_u32 :: "nat \<Rightarrow> u32" where
  "saturating_u32 n = (if n < 2 ^ 32 then word_of_nat n else - 1)"

definition saturating_add_u32 :: "u32 \<Rightarrow> u32 \<Rightarrow> u32" where
  "saturating_add_u32 a b = (if uint a + uint b < 2 ^ 32 then a + b else - 1)"

section \<open>The score space\<close>

text \<open>What \<open>collection_scoring_fingerprint\<close> hashes, and the hash in hexadecimal; \<open>sha256\<close> is the crate's.\<close>

definition domain_tag :: bytes where
  "domain_tag = map of_char ''turbovec-grpc-score-v1'' @ [0]"

definition i32_to_le_bytes :: "int \<Rightarrow> bytes" where
  "i32_to_le_bytes i = u32_to_le_bytes (word_of_int i)"

definition coordinate_bytes :: "f32 list \<Rightarrow> bytes" where
  "coordinate_bytes xs = u64_to_le_bytes (as_u64 (length xs)) @ concat (map (\<lambda>x. u32_to_le_bytes (to_bits x)) xs)"

definition score_encoding :: "pinned \<Rightarrow> bytes" where
  "score_encoding p =
     domain_tag @ u64_to_le_bytes (as_u64 (pinned_dim p)) @
     u32_to_le_bytes (case pinned_shards p of [] \<Rightarrow> 0 | shard # _ \<Rightarrow> info_bit_width (probe_info shard)) @
     i32_to_le_bytes (cal_state (pinned_calibration p)) @
     coordinate_bytes (tqplus_shift (pinned_calibration p)) @ coordinate_bytes (tqplus_scale (pinned_calibration p))"

definition nibble_char :: "nat \<Rightarrow> char" where
  "nibble_char d = (if d < 10 then digit_char d else char_of (87 + d))"

definition hex_byte :: "u8 \<Rightarrow> string" where
  "hex_byte b = [nibble_char (unat b div 16), nibble_char (unat b mod 16)]"

definition collection_scoring_fingerprint :: "(bytes \<Rightarrow> bytes) \<Rightarrow> pinned \<Rightarrow> string" where
  "collection_scoring_fingerprint sha256 p = concat (map hex_byte (sha256 (score_encoding p)))"

section \<open>The state of a stream\<close>

record candidate_state =
  cd_completion :: candidate_completion
  cd_completed :: "bool list"
  cd_remaining :: nat
  cd_floor :: f32
  cd_pending :: bytes
  cd_inbound_open :: bool
  cd_outbound :: "shard_control list"
  cd_watches :: "stream_search_request list"
  cd_out :: outbox
  cd_metrics :: metrics

text \<open>After an event: the loop goes on, the function returned, or a panic unwinds it.\<close>

datatype flow = Continue candidate_state | Return candidate_state | Unwind candidate_state

definition flush_candidate_bytes :: "nat option \<Rightarrow> candidate_state \<Rightarrow> bool \<times> candidate_state" where
  "flush_candidate_bytes reader st =
     (if cd_pending st = [] then (True, st)
      else
        (let emitted = as_u64 (length (cd_pending st) div 12);
             st' = st\<lparr>cd_pending := [],
                      cd_out := snd (send reader (Inr (CandidateBatch (cd_pending st))) (cd_out st))\<rparr> in
         if fst (send reader (Inr (CandidateBatch (cd_pending st))) (cd_out st)) then
           (True, st'\<lparr>cd_completion := (cd_completion st)
              \<lparr>cc_emitted := saturating_add_u64 (cc_emitted (cd_completion st)) emitted\<rparr>\<rparr>)
         else (False, st')))"

definition flushed :: "nat option \<Rightarrow> candidate_state \<Rightarrow> flow" where
  "flushed reader st =
     (case flush_candidate_bytes reader st of (True, st') \<Rightarrow> Continue st' | (False, st') \<Rightarrow> Return st')"

text \<open>An incomplete completion with this error, then \<open>return\<close>.\<close>

definition end_with :: "nat option \<Rightarrow> message \<Rightarrow> candidate_state \<Rightarrow> candidate_state" where
  "end_with reader e st =
     st\<lparr>cd_completion := (cd_completion st)\<lparr>cc_error := e\<rparr>,
        cd_out := send_completion reader ((cd_completion st)\<lparr>cc_error := e\<rparr>) (cd_out st)\<rparr>"

definition give_up :: "nat option \<Rightarrow> message \<Rightarrow> candidate_state \<Rightarrow> flow" where
  "give_up reader e st = Return ((end_with reader e st)\<lparr>cd_metrics := search_failed (cd_metrics st)\<rparr>)"

definition stop_all :: "candidate_state \<Rightarrow> candidate_state" where
  "stop_all st = st\<lparr>cd_watches := map2 (\<lambda>c w. if c \<noteq> None then StopStreamSearch else w) (cd_outbound st) (cd_watches st)\<rparr>"

definition shard_address :: "pinned \<Rightarrow> nat \<Rightarrow> string option" where
  "shard_address p srank = map_option probe_address (nth_opt (pinned_shards p) srank)"

text \<open>Give up with a message that names the shard; the index may panic.\<close>

definition give_up_shard ::
    "nat option \<Rightarrow> pinned \<Rightarrow> nat \<Rightarrow> (string \<Rightarrow> message) \<Rightarrow> candidate_state \<Rightarrow> flow" where
  "give_up_shard reader p srank f st =
     (case shard_address p srank of None \<Rightarrow> Unwind st | Some a \<Rightarrow> give_up reader (f a) st)"

section \<open>The caller's messages\<close>

fun on_caller ::
    "nat option \<Rightarrow> (status + candidate_request option) option \<Rightarrow> candidate_state \<Rightarrow> flow" where
  "on_caller reader None st = Continue (st\<lparr>cd_inbound_open := False\<rparr>)"
| "on_caller reader (Some (Inl e)) st =
     give_up reader (Lit ''candidate request stream failed: '' # st_message e) st"
| "on_caller reader (Some (Inr (Some (RaiseFloor floor)))) st =
     (if is_nan floor then give_up reader [Lit ''candidate floor must not be NaN''] st
      else if f32_gt floor (cd_floor st) then
        (case broadcast_floor floor (cd_completed st) 0 (cd_outbound st) (cd_watches st) of
           Inl _ \<Rightarrow> Unwind (st\<lparr>cd_floor := floor\<rparr>)
         | Inr ws \<Rightarrow> Continue (st\<lparr>cd_floor := floor, cd_watches := ws\<rparr>))
      else Continue st)"
| "on_caller reader (Some (Inr (Some StopCandidates))) st =
     Return (end_with reader [Lit ''candidate stream cancelled by caller''] (stop_all st))"
| "on_caller reader (Some (Inr _)) st =
     give_up reader [Lit ''candidate stream received a second or empty start''] st"

section \<open>The shards' messages\<close>

definition record_bytes :: "u64 \<times> f32 \<Rightarrow> bytes" where
  "record_bytes = (\<lambda>(lbl, sc). u64_to_le_bytes lbl @ u32_to_le_bytes (to_bits sc))"

text \<open>The loop over one batch: \<open>False\<close> at the first score that is NaN.\<close>

fun pack_candidates :: "(u64 \<times> f32) list \<Rightarrow> bytes \<Rightarrow> bool \<times> bytes" where
  "pack_candidates [] pending = (True, pending)"
| "pack_candidates ((lbl, sc) # rest) pending =
     (if is_nan sc then (False, pending)
      else pack_candidates rest (pending @ record_bytes (lbl, sc)))"

definition on_candidates ::
    "nat option \<Rightarrow> pinned \<Rightarrow> nat \<Rightarrow> stream_search_batch \<Rightarrow> candidate_state \<Rightarrow> flow" where
  "on_candidates reader p srank batch st =
     (case nth_opt (cd_completed st) srank of
        None \<Rightarrow> Unwind st
      | Some True \<Rightarrow>
          give_up_shard reader p srank (\<lambda>a. [Lit ''shard '', Lit a, Lit '' emitted candidates after completion'']) st
      | Some False \<Rightarrow>
          if length (batch_scores batch) \<noteq> length (batch_slots batch)
             \<or> length (batch_labels batch) \<noteq> length (batch_scores batch) then
            give_up_shard reader p srank (\<lambda>a. [Lit ''shard '', Lit a, Lit '' returned unlabelled or misaligned candidates'']) st
          else
            (case pack_candidates (zip (batch_labels batch) (batch_scores batch)) (cd_pending st) of
               (False, pending) \<Rightarrow>
                 give_up_shard reader p srank (\<lambda>a. [Lit ''shard '', Lit a, Lit '' returned a NaN score''])
                   (st\<lparr>cd_pending := pending\<rparr>)
             | (True, pending) \<Rightarrow>
                 (let st' = st\<lparr>cd_pending := pending\<rparr> in
                  if CANDIDATE_BATCH_BYTES \<le> length pending then flushed reader st' else Continue st')))"

definition on_completed ::
    "nat option \<Rightarrow> pinned \<Rightarrow> nat \<Rightarrow> stream_search_summary \<Rightarrow> candidate_state \<Rightarrow> flow" where
  "on_completed reader p srank summary st =
     (case nth_opt (cd_completed st) srank of
        None \<Rightarrow> Unwind st
      | Some True \<Rightarrow>
          give_up_shard reader p srank (\<lambda>a. [Lit ''shard '', Lit a, Lit '' sent more than one completion'']) st
      | Some False \<Rightarrow>
          (let c = cd_completion st;
               st' = st\<lparr>cd_completion := c
                 \<lparr>cc_blocks_scanned := saturating_add_u64 (cc_blocks_scanned c) (summary_blocks_scanned summary),
                  cc_floor_raises_applied :=
                    saturating_add_u64 (cc_floor_raises_applied c) (summary_floor_raises_applied summary)\<rparr>\<rparr> in
           if \<not> summary_completed summary then
             give_up_shard reader p srank (\<lambda>a. [Lit ''shard '', Lit a, Lit '' did not complete its candidate scan'']) st'
           else
             (case nth_opt (cd_outbound st) srank of
                Some (Some _) \<Rightarrow>
                  Continue (st'\<lparr>cd_completed := (cd_completed st)[srank := True],
                     cd_completion := (cd_completion st')
                       \<lparr>cc_shards_completed := saturating_add_u32 (cc_shards_completed c) 1\<rparr>,
                     cd_remaining := cd_remaining st - 1,
                     cd_outbound := (cd_outbound st)[srank := None]\<rparr>)
              | _ \<Rightarrow> Unwind st')))"

fun on_shard :: "nat option \<Rightarrow> pinned \<Rightarrow> stream_event \<Rightarrow> candidate_state \<Rightarrow> flow" where
  "on_shard reader p (EvMessage srank (Some (Batch batch))) st = on_candidates reader p srank batch st"
| "on_shard reader p (EvMessage srank (Some (Summary summary))) st = on_completed reader p srank summary st"
| "on_shard reader p (EvMessage srank None) st =
     give_up_shard reader p srank (\<lambda>a. [Lit ''shard '', Lit a, Lit '' returned an empty candidate response'']) st"
| "on_shard reader p (EvError srank e) st =
     give_up_shard reader p srank (\<lambda>a. st_message (node_error a e)) st"
| "on_shard reader p (EvClosed srank) st =
     (case nth_opt (cd_completed st) srank of
        None \<Rightarrow> Unwind st
      | Some True \<Rightarrow> Continue st
      | Some False \<Rightarrow>
          give_up_shard reader p srank (\<lambda>a. [Lit a, Lit '' closed its candidate scan without completion'']) st)"

section \<open>The loop\<close>

datatype candidate_event =
    CallerGone
  | QueryDeadline
  | FlushTick
  | FromCaller "(status + candidate_request option) option"
  | FromShard stream_event
  | ShardsGone

text \<open>One turn of \<open>select!\<close>; an arm whose guard is false is not taken.\<close>

fun candidate_step :: "nat option \<Rightarrow> pinned \<Rightarrow> candidate_event \<Rightarrow> candidate_state \<Rightarrow> flow" where
  "candidate_step reader p CallerGone st = Return st"
| "candidate_step reader p QueryDeadline st =
     give_up reader [Lit ''distributed candidate stream deadline exceeded''] (stop_all st)"
| "candidate_step reader p FlushTick st = flushed reader st"
| "candidate_step reader p (FromCaller m) st = (if cd_inbound_open st then on_caller reader m st else Continue st)"
| "candidate_step reader p (FromShard e) st = on_shard reader p e st"
| "candidate_step reader p ShardsGone st =
     give_up reader [Lit ''all shard streams closed before completion''] st"

datatype stream_end = Waiting | Returned | Unwound | Certified

text \<open>After the last completion: flush, certify, count.\<close>

definition certify :: "nat option \<Rightarrow> candidate_state \<Rightarrow> stream_end \<times> candidate_state" where
  "certify reader st =
     (case flush_candidate_bytes reader st of
        (False, st') \<Rightarrow> (Returned, st')
      | (True, st') \<Rightarrow>
          (let c = (cd_completion st')\<lparr>cc_completed := True\<rparr> in
           (Certified, st'\<lparr>cd_completion := c, cd_out := send_completion reader c (cd_out st'),
              cd_metrics := coordinator_search_finished (cd_metrics st')\<rparr>)))"

fun candidate_loop ::
    "nat option \<Rightarrow> pinned \<Rightarrow> candidate_event list \<Rightarrow> candidate_state \<Rightarrow> stream_end \<times> candidate_state" where
  "candidate_loop reader p events st =
     (if cd_remaining st = 0 then certify reader st
      else
        (case events of
           [] \<Rightarrow> (Waiting, st)
         | e # es \<Rightarrow>
             (case candidate_step reader p e st of
                Continue st' \<Rightarrow> candidate_loop reader p es st'
              | Return st' \<Rightarrow> (Returned, st')
              | Unwind st' \<Rightarrow> (Unwound, st'))))"

declare candidate_loop.simps [simp del]

section \<open>Opening the stream\<close>

definition check_candidate_start :: "pinned \<Rightarrow> candidate_start \<Rightarrow> status + unit" where
  "check_candidate_start p start =
     (if list_ex (\<lambda>s. \<not> info_labelled (probe_info s)) (pinned_shards p) then
        Inl (failed_precondition [Lit ''candidate streaming requires stable labels on every collection shard''])
      else if length (ca_vector start) \<noteq> pinned_dim p then
        Inl (invalid_argument [Lit ''candidate query has dim '', num (length (ca_vector start)),
          Lit '', collection expects '', num (pinned_dim p)])
      else
        (case find (\<lambda>(_, x). \<not> is_finite x) (List.enumerate 0 (ca_vector start)) of
           Some (i, x) \<Rightarrow>
             Inl (invalid_argument [Lit ''candidate query coordinate '', num i, Lit '' is not finite: '', Flt x])
         | None \<Rightarrow>
             if \<not> ca_has_allowed_labels start \<and> (ca_allowed_labels start \<noteq> [] \<or> ca_allowed_label_bitmaps start \<noteq> []) then
               Inl (invalid_argument [Lit ''allowed label filters require has_allowed_labels=true''])
             else if ca_allowed_labels start \<noteq> [] \<and> ca_allowed_label_bitmaps start \<noteq> [] then
               Inl (invalid_argument [Lit ''allowed_labels and allowed_label_bitmaps are mutually exclusive''])
             else
               rbind (validate_label_bitmaps (ca_allowed_label_bitmaps start)) (\<lambda>_.
                 if (case ca_initial_floor start of None \<Rightarrow> False | Some f \<Rightarrow> is_nan f) then
                   Inl (invalid_argument [Lit ''initial_floor must not be NaN''])
                 else Inr ())))"

definition candidate_search_request :: "candidate_start \<Rightarrow> string \<Rightarrow> probe \<Rightarrow> stream_search_request" where
  "candidate_search_request start request_id shard =
     StartSearch
       \<lparr>start_index_id = probe_index_id shard, start_vector = ca_vector start,
        start_initial_floor = ca_initial_floor start, start_request_id = request_id,
        start_allowed_labels = ca_allowed_labels start, start_has_allowed_labels = ca_has_allowed_labels start,
        start_allowed_label_bitmaps = ca_allowed_label_bitmaps start\<rparr>"

text \<open>The answer to \<open>stream_search\<close> within the query's timeout, or the timeout.\<close>

datatype open_answer = Opened | OpenTimedOut | OpenFailed status

fun mentions :: "string \<Rightarrow> frag \<Rightarrow> bool" where
  "mentions s (Lit t) = contains_sub s t"
| "mentions s (Dbg t) = contains_sub s t"
| "mentions s (Flt _) = False"

definition open_deadline :: message where
  "open_deadline = [Lit ''distributed candidate stream deadline exceeded'']"

fun open_candidate_streams ::
    "(string \<Rightarrow> status + unit) \<Rightarrow> (string \<Rightarrow> open_answer) \<Rightarrow> candidate_start \<Rightarrow> string
     \<Rightarrow> probe list \<Rightarrow> stream_search_request list
     \<Rightarrow> (message \<times> stream_search_request list) + stream_search_request list" where
  "open_candidate_streams connect answer start request_id [] opened = Inr opened"
| "open_candidate_streams connect answer start request_id (shard # shards) opened =
     (let dropped = drop_controls (replicate (length opened) (Some False)) opened in
      case connect (probe_address shard) of
        Inl e \<Rightarrow> Inl (st_message e, dropped)
      | Inr _ \<Rightarrow>
          (case answer (probe_address shard) of
             OpenTimedOut \<Rightarrow> Inl (open_deadline, dropped)
           | OpenFailed e \<Rightarrow>
               if st_code e = DeadlineExceeded \<or> st_code e = Cancelled \<and> list_ex (mentions ''Timeout'') (st_message e)
               then Inl (open_deadline, dropped)
               else Inl (st_message (node_error (probe_address shard) e), dropped)
           | Opened \<Rightarrow>
               open_candidate_streams connect answer start request_id shards
                 (opened @ [candidate_search_request start request_id shard])))"

definition opening_completion :: "string \<Rightarrow> pinned \<Rightarrow> candidate_completion" where
  "opening_completion fingerprint p =
     default_completion
       \<lparr>cc_scoring_fingerprint := fingerprint, cc_quality_contract := EXHAUSTIVE_QUANTIZED,
        cc_topology_generation := pinned_generation p,
        cc_shards_total := saturating_u32 (length (pinned_shards p))\<rparr>"

definition candidate_initial ::
    "string \<Rightarrow> pinned \<Rightarrow> candidate_start \<Rightarrow> stream_search_request list \<Rightarrow> metrics \<Rightarrow> candidate_state" where
  "candidate_initial fingerprint p start opened m =
     \<lparr>cd_completion = opening_completion fingerprint p,
      cd_completed = replicate (length (pinned_shards p)) False, cd_remaining = length (pinned_shards p),
      cd_floor = (case ca_initial_floor start of None \<Rightarrow> neg_infinity | Some f \<Rightarrow> f), cd_pending = [],
      cd_inbound_open = True, cd_outbound = replicate (length (pinned_shards p)) (Some False),
      cd_watches = opened, cd_out = [], cd_metrics = m\<rparr>"

text \<open>What is left when the task ends: the messages sent, what the shards see, the counters.\<close>

record candidate_result =
  cr_end :: stream_end
  cr_out :: outbox
  cr_watches :: "stream_search_request list"
  cr_metrics :: metrics

definition left_by :: "stream_end \<times> candidate_state \<Rightarrow> candidate_result" where
  "left_by = (\<lambda>(how, st).
     \<lparr>cr_end = how, cr_out = cd_out st,
      cr_watches = (if how = Waiting then cd_watches st else drop_controls (cd_outbound st) (cd_watches st)),
      cr_metrics = cd_metrics st\<rparr>)"

definition refuse_stream :: "nat option \<Rightarrow> status \<Rightarrow> metrics \<Rightarrow> candidate_result" where
  "refuse_stream reader e m = \<lparr>cr_end = Returned, cr_out = send_error reader e [], cr_watches = [], cr_metrics = m\<rparr>"

definition incomplete_stream ::
    "nat option \<Rightarrow> candidate_completion \<Rightarrow> stream_search_request list \<Rightarrow> metrics \<Rightarrow> candidate_result" where
  "incomplete_stream reader c ws m =
     \<lparr>cr_end = Returned, cr_out = send_completion reader c [], cr_watches = ws, cr_metrics = search_failed m\<rparr>"

text \<open>
  \<open>opening\<close> is the first message of the caller, \<open>bound\<close> the answer of \<open>collection\<close>, \<open>uuid\<close> a fresh name.
\<close>

definition run_candidate_stream ::
    "nat option \<Rightarrow> (bytes \<Rightarrow> bytes) \<Rightarrow> string \<Rightarrow> (status + candidate_request option) option \<Rightarrow> status + pinned
     \<Rightarrow> (string \<Rightarrow> status + unit) \<Rightarrow> (string \<Rightarrow> open_answer) \<Rightarrow> candidate_event list \<Rightarrow> metrics \<Rightarrow> candidate_result" where
  "run_candidate_stream reader sha256 uuid opening bound connect answer events m =
     (case opening of
        None \<Rightarrow> refuse_stream reader (invalid_argument [Lit ''candidate stream closed before StartCollectionCandidates'']) m
      | Some (Inl e) \<Rightarrow> refuse_stream reader e m
      | Some (Inr (Some (StartCandidates start))) \<Rightarrow>
          (case bound of
             Inl e \<Rightarrow> incomplete_stream reader (default_completion\<lparr>cc_error := st_message e\<rparr>) [] m
           | Inr p \<Rightarrow>
               (case check_candidate_start p start of
                  Inl e \<Rightarrow> refuse_stream reader e m
                | Inr _ \<Rightarrow>
                    (let fingerprint = collection_scoring_fingerprint sha256 p;
                         request_id = (if ca_request_id start = [] then uuid else ca_request_id start) in
                     case open_candidate_streams connect answer start request_id (pinned_shards p) [] of
                       Inl (e, ws) \<Rightarrow>
                         incomplete_stream reader ((opening_completion fingerprint p)\<lparr>cc_error := e\<rparr>) ws m
                     | Inr opened \<Rightarrow>
                         left_by (candidate_loop reader p events (candidate_initial fingerprint p start opened m)))))
      | Some (Inr _) \<Rightarrow>
          refuse_stream reader (invalid_argument [Lit ''first CollectionCandidateRequest must be StartCollectionCandidates'']) m)"

end
