(* ===== verification/Fixed_Width.thy ===== *)
theory Fixed_Width
  imports F32
begin

text \<open>
  Arrays of fixed-width little-endian values, as the code writes them: stable labels on disk, calibration
  coordinates in the score encoding and the packed candidate records of a stream. The contract of one value
  is the locale \<open>fixed_width\<close>; what it gives for arrays is proved once.
\<close>

text \<open>Read values of this width from the front while enough bytes are left.\<close>

function decode_all :: "nat \<Rightarrow> ('b list \<Rightarrow> 'a) \<Rightarrow> 'b list \<Rightarrow> 'a list" where
  "decode_all width from_bytes bs =
     (if width = 0 \<or> length bs < width then []
      else from_bytes (take width bs) # decode_all width from_bytes (drop width bs))"
  by pat_completeness auto

termination
  by (relation "measure (\<lambda>(_, _, bs). length bs)") auto

declare decode_all.simps [simp del]

locale fixed_width =
  fixes to_bytes :: "'a \<Rightarrow> 'b list" and from_bytes :: "'b list \<Rightarrow> 'a" and width :: nat
  assumes width_pos: "0 < width"
    and length_to_bytes: "length (to_bytes x) = width"
    and from_to_bytes: "from_bytes (to_bytes x) = x"
begin

lemma length_encoded: "length (concat (map to_bytes xs)) = width * length xs"
  by (induction xs) (simp_all add: length_to_bytes)

lemma encoded_empty: "concat (map to_bytes xs) = [] \<longleftrightarrow> xs = []"
  using length_encoded [of xs] width_pos by (metis length_0_conv mult_eq_0_iff not_gr_zero)

lemma decode_cons: "decode_all width from_bytes (to_bytes x @ bs) = x # decode_all width from_bytes bs"
  using width_pos by (simp add: decode_all.simps [of width from_bytes "to_bytes x @ bs"] length_to_bytes from_to_bytes)

lemma decode_encoded: "decode_all width from_bytes (concat (map to_bytes xs)) = xs"
  using width_pos by (induction xs) (simp_all add: decode_cons decode_all.simps [of width from_bytes "[]"])

lemma to_bytes_inject: "to_bytes x = to_bytes y \<longleftrightarrow> x = y"
  using from_to_bytes by metis

text \<open>Arrays of one length are read back whatever follows them.\<close>

lemma encoded_prefix:
  "length xs = length ys \<Longrightarrow> concat (map to_bytes xs) @ r = concat (map to_bytes ys) @ s \<longleftrightarrow> xs = ys \<and> r = s"
  by (induction xs ys rule: list_induct2) (simp_all add: length_to_bytes to_bytes_inject)

end

interpretation u64_bytes: fixed_width u64_to_le_bytes u64_from_le_bytes 8
  by unfold_locales simp_all

interpretation u32_bytes: fixed_width u32_to_le_bytes u32_from_le_bytes 4
  by unfold_locales simp_all

definition f32_to_le_bytes :: "f32 \<Rightarrow> bytes" where
  "f32_to_le_bytes x = u32_to_le_bytes (to_bits x)"

definition f32_from_le_bytes :: "bytes \<Rightarrow> f32" where
  "f32_from_le_bytes bs = F32 (u32_from_le_bytes bs)"

interpretation f32_bytes: fixed_width f32_to_le_bytes f32_from_le_bytes 4
  by unfold_locales (simp_all add: f32_to_le_bytes_def f32_from_le_bytes_def)

end
