(* ===== verification/Candidate_Properties.thy ===== *)
theory Candidate_Properties
  imports Candidate_Stream Stream_Properties Fixed_Width
begin

text \<open>
  What a candidate stream guarantees. \<open>continues\<close> is the loop as a transition relation over the events it
  took; its invariant ties the packed batches to the candidates the shards offered (\<open>offered\<close>), the control
  handles to the completions (\<open>finishes\<close> of the exact search) and the counters of the completion to both.
  Packed records are an instance of \<open>fixed_width\<close>, which gives the caller's reading of a batch.
\<close>

section \<open>What the caller reads and the shards sent\<close>

definition read_record :: "bytes \<Rightarrow> u64 \<times> f32" where
  "read_record bs = (u64_from_le_bytes (take 8 bs), f32_from_le_bytes (drop 8 bs))"

interpretation packed: fixed_width record_bytes read_record 12
  by unfold_locales
    (auto simp: record_bytes_def read_record_def f32_bytes.from_to_bytes [unfolded f32_to_le_bytes_def]
      u64_bytes.length_to_bytes u32_bytes.length_to_bytes u64_bytes.from_to_bytes split: prod.splits)

lemma record_bytes_nonempty [simp]: "record_bytes x \<noteq> []"
  using packed.encoded_empty [of "[x]"] by simp

fun read_message :: "status + candidate_response \<Rightarrow> (u64 \<times> f32) list" where
  "read_message (Inr (CandidateBatch bs)) = decode_all 12 read_record bs"
| "read_message _ = []"

definition packed_batch :: "(u64 \<times> f32) list \<Rightarrow> status + candidate_response" where
  "packed_batch rs = Inr (CandidateBatch (concat (map record_bytes rs)))"

lemma read_batch [simp]: "read_message (packed_batch rs) = rs"
  by (simp add: packed_batch_def packed.decode_encoded)

fun offered_by :: "candidate_event \<Rightarrow> (u64 \<times> f32) list" where
  "offered_by (FromShard (EvMessage _ (Some (Batch b)))) = zip (batch_labels b) (batch_scores b)"
| "offered_by _ = []"

definition offered :: "candidate_event list \<Rightarrow> (u64 \<times> f32) list" where
  "offered es = concat (map offered_by es)"

fun summaries_of :: "candidate_event \<Rightarrow> stream_search_summary list" where
  "summaries_of (FromShard (EvMessage _ (Some (Summary s)))) = [s]"
| "summaries_of _ = []"

definition summaries :: "candidate_event list \<Rightarrow> stream_search_summary list" where
  "summaries es = concat (map summaries_of es)"

fun shard_finishes :: "nat \<Rightarrow> candidate_event \<Rightarrow> bool" where
  "shard_finishes i (FromShard e) = finishes i e"
| "shard_finishes i _ = False"

fun offers_from :: "nat \<Rightarrow> candidate_event \<Rightarrow> bool" where
  "offers_from i (FromShard (EvMessage j (Some (Batch b)))) = (i = j)"
| "offers_from i _ = False"

text \<open>No shard offers after its completion.\<close>

definition offers_before_completion :: "candidate_event list \<Rightarrow> bool" where
  "offers_before_completion es \<longleftrightarrow>
     (\<forall>i k. k < length es \<longrightarrow> offers_from i (es ! k) \<longrightarrow> \<not> list_ex (shard_finishes i) (take k es))"

lemma event_lists [simp]:
  "offered [] = []" "offered (es @ fs) = offered es @ offered fs" "offered [e] = offered_by e"
  "summaries [] = []" "summaries (es @ fs) = summaries es @ summaries fs" "summaries [e] = summaries_of e"
  by (simp_all add: offered_def summaries_def)

lemma offers_before_completion_nil [simp]: "offers_before_completion []"
  by (simp add: offers_before_completion_def)

lemma offers_before_completion_snoc:
  "offers_before_completion (es @ [e]) \<longleftrightarrow>
     offers_before_completion es \<and> (\<forall>i. offers_from i e \<longrightarrow> \<not> list_ex (shard_finishes i) es)"
  by (auto simp: offers_before_completion_def nth_append less_Suc_eq)

section \<open>The loop as a transition relation\<close>

inductive continues ::
    "nat option \<Rightarrow> pinned \<Rightarrow> candidate_state \<Rightarrow> candidate_event list \<Rightarrow> candidate_state \<Rightarrow> bool"
  for reader p start_state where
  started: "continues reader p start_state [] start_state"
| went_on: "continues reader p start_state es st \<Longrightarrow> 0 < cd_remaining st \<Longrightarrow>
    candidate_step reader p e st = Continue st' \<Longrightarrow> continues reader p start_state (es @ [e]) st'"

text \<open>How the loop ends after the events it took.\<close>

definition ends ::
    "nat option \<Rightarrow> pinned \<Rightarrow> candidate_event list \<Rightarrow> candidate_state \<Rightarrow> stream_end \<Rightarrow> candidate_state \<Rightarrow> bool" where
  "ends reader p rest st how st' \<longleftrightarrow>
     (if cd_remaining st = 0 then certify reader st = (how, st')
      else
        (case rest of
           [] \<Rightarrow> how = Waiting \<and> st' = st
         | e # _ \<Rightarrow>
             how = Returned \<and> candidate_step reader p e st = Return st' \<or>
             how = Unwound \<and> candidate_step reader p e st = Unwind st'))"

lemma candidate_loop_continues:
  assumes "continues reader p st0 es st" and "candidate_loop reader p events st = (how, st')"
  shows "\<exists>consumed rest st1. events = consumed @ rest \<and> continues reader p st0 (es @ consumed) st1 \<and>
    ends reader p rest st1 how st'"
  using assms
proof (induction events arbitrary: es st)
  case Nil
  then show ?case
    by (auto simp: candidate_loop.simps [of reader p "[]" st] ends_def split: if_splits)
next
  case (Cons e events)
  show ?case
  proof (cases "0 < cd_remaining st \<and> (\<exists>st2. candidate_step reader p e st = Continue st2)")
    case True
    then obtain st2 where st2: "candidate_step reader p e st = Continue st2" by blast
    have "continues reader p st0 (es @ [e]) st2" using Cons.prems(1) True st2 by (blast intro: went_on)
    moreover have "candidate_loop reader p events st2 = (how, st')"
      using Cons.prems(2) True st2 by (simp add: candidate_loop.simps [of reader p "e # events" st])
    ultimately obtain consumed rest st1 where "events = consumed @ rest"
      "continues reader p st0 ((es @ [e]) @ consumed) st1" "ends reader p rest st1 how st'"
      using Cons.IH by blast
    then show ?thesis by (intro exI [of _ "e # consumed"] exI [of _ rest] exI [of _ st1]) simp
  next
    case False
    then have "ends reader p (e # events) st how st'"
      using Cons.prems(2)
      by (auto simp: candidate_loop.simps [of reader p "e # events" st] ends_def split: if_splits flow.splits)
    then show ?thesis
      using Cons.prems(1) by (intro exI [of _ "[]"] exI [of _ "e # events"] exI [of _ st]) simp
  qed
qed

section \<open>The invariant\<close>

lemma saturating_add_as_u64: "a + b < 2 ^ 64 \<Longrightarrow> saturating_add_u64 (as_u64 a) (as_u64 b) = as_u64 (a + b)"
proof -
  assume bound: "a + b < 2 ^ 64"
  have "unat (as_u64 a) = a" and "unat (as_u64 b) = b"
    by (rule unat_as_u64, use bound in linarith)+
  with bound show ?thesis
    by (simp only: saturating_add_u64_def checked_add_u64_def of_nat_add if_True option.case)
qed

lemma saturating_u32_Suc: "saturating_add_u32 (saturating_u32 n) 1 = saturating_u32 (Suc n)"
proof (cases "n < 2 ^ 32")
  case True
  then have "uint (word_of_nat n :: u32) + uint (1 :: u32) = int (Suc n)"
    by (simp add: unsigned_of_nat take_bit_nat_eq_self)
  moreover have "int (Suc n) < 2 ^ 32 \<longleftrightarrow> Suc n < 2 ^ 32" by simp
  ultimately show ?thesis
    using True unfolding saturating_add_u32_def saturating_u32_def by (simp only: if_True) simp
next
  case False
  then have "\<not> Suc n < 2 ^ 32" by linarith
  with False show ?thesis
    by (simp only: saturating_add_u32_def saturating_u32_def if_False)
      (simp add: unsigned_minus_1_eq_mask mask_eq_exp_minus_1)
qed

text \<open>\<open>sent\<close> is the content of the batches sent, \<open>pend\<close> of the batch being packed.\<close>

definition forwards ::
    "(u64 \<times> f32) list \<Rightarrow> (u64 \<times> f32) list list \<Rightarrow> (u64 \<times> f32) list \<Rightarrow> candidate_state \<Rightarrow> bool" where
  "forwards offers sent pend st \<longleftrightarrow>
     cd_out st = map packed_batch sent \<and> [] \<notin> set sent \<and> cd_pending st = concat (map record_bytes pend) \<and>
     offers = concat sent @ pend \<and>
     (length offers < 2 ^ 64 \<longrightarrow> cc_emitted (cd_completion st) = as_u64 (length (concat sent)))"

definition handles :: "nat \<Rightarrow> candidate_event list \<Rightarrow> candidate_state \<Rightarrow> bool" where
  "handles n es st \<longleftrightarrow>
     length (cd_completed st) = n \<and> length (cd_watches st) = n \<and> cd_outbound st = controls (cd_completed st) \<and>
     cd_remaining st = count_list (cd_completed st) False \<and> length (summaries es) + cd_remaining st = n \<and>
     (\<forall>i. length (filter (shard_finishes i) es) = (if i < n \<and> cd_completed st ! i then 1 else 0))"

definition report_of :: "string \<Rightarrow> pinned \<Rightarrow> stream_search_summary list \<Rightarrow> u64 \<Rightarrow> candidate_completion" where
  "report_of fingerprint p ss sent_count =
     (opening_completion fingerprint p)
       \<lparr>cc_emitted := sent_count,
        cc_blocks_scanned := fold (\<lambda>s a. saturating_add_u64 a (summary_blocks_scanned s)) ss 0,
        cc_floor_raises_applied := fold (\<lambda>s a. saturating_add_u64 a (summary_floor_raises_applied s)) ss 0,
        cc_shards_completed := saturating_u32 (length ss)\<rparr>"

definition reports :: "string \<Rightarrow> pinned \<Rightarrow> candidate_event list \<Rightarrow> candidate_state \<Rightarrow> bool" where
  "reports fingerprint p es st \<longleftrightarrow>
     (\<exists>a. cd_completion st = report_of fingerprint p (summaries es) a)"

lemma report_emitted:
  "(report_of fp p ss a)\<lparr>cc_emitted := b\<rparr> = report_of fp p ss b" "cc_emitted (report_of fp p ss a) = a"
  by (simp_all add: report_of_def)

lemma report_snoc:
  "report_of fp p (ss @ [s]) a = (let c = report_of fp p ss a in c
     \<lparr>cc_blocks_scanned := saturating_add_u64 (cc_blocks_scanned c) (summary_blocks_scanned s),
      cc_floor_raises_applied := saturating_add_u64 (cc_floor_raises_applied c) (summary_floor_raises_applied s),
      cc_shards_completed := saturating_add_u32 (cc_shards_completed c) 1\<rparr>)"
  by (simp add: report_of_def Let_def saturating_u32_Suc)

definition tidy :: "candidate_event list \<Rightarrow> bool" where
  "tidy es \<longleftrightarrow> offers_before_completion es \<and> (\<forall>(lbl, sc) \<in> set (offered es). \<not> is_nan sc)"

definition candidate_inv :: "string \<Rightarrow> pinned \<Rightarrow> candidate_event list \<Rightarrow> candidate_state \<Rightarrow> bool" where
  "candidate_inv fingerprint p es st \<longleftrightarrow>
     (\<exists>sent pend. forwards (offered es) sent pend st) \<and> handles (length (pinned_shards p)) es st \<and>
     reports fingerprint p es st \<and> tidy es"

text \<open>Flushing moves the pending records into a batch and touches nothing but the count.\<close>

definition only_flushed :: "candidate_state \<Rightarrow> candidate_state \<Rightarrow> bool" where
  "only_flushed st st' \<longleftrightarrow>
     st' = st\<lparr>cd_pending := cd_pending st', cd_out := cd_out st',
       cd_completion := (cd_completion st)\<lparr>cc_emitted := cc_emitted (cd_completion st')\<rparr>\<rparr>"

lemma flush_forwards:
  assumes "flush_candidate_bytes reader st = (True, st')" and "forwards offers sent pend st"
  shows "only_flushed st st' \<and> forwards offers (if pend = [] then sent else sent @ [pend]) [] st'"
proof -
  have empty: "cd_pending st = [] \<longleftrightarrow> pend = []"
    using assms(2) packed.encoded_empty [of pend] by (simp add: forwards_def)
  have "length (cd_pending st) div 12 = length pend"
    using assms(2) by (simp add: forwards_def packed.length_encoded)
  then show ?thesis
    using assms empty
    by (auto simp: flush_candidate_bytes_def forwards_def only_flushed_def send_def Let_def packed_batch_def
        saturating_add_as_u64 split: if_splits option.splits)
qed

lemma flushed_sel:
  assumes "only_flushed st st'"
  shows "cd_completed st' = cd_completed st" and "cd_watches st' = cd_watches st"
    and "cd_outbound st' = cd_outbound st" and "cd_remaining st' = cd_remaining st"
    and "cd_completion st' = (cd_completion st)\<lparr>cc_emitted := cc_emitted (cd_completion st')\<rparr>"
proof -
  obtain pending out a where
    "st' = st\<lparr>cd_pending := pending, cd_out := out, cd_completion := (cd_completion st)\<lparr>cc_emitted := a\<rparr>\<rparr>"
    using assms unfolding only_flushed_def by blast
  then show "cd_completed st' = cd_completed st" "cd_watches st' = cd_watches st"
    "cd_outbound st' = cd_outbound st" "cd_remaining st' = cd_remaining st"
    "cd_completion st' = (cd_completion st)\<lparr>cc_emitted := cc_emitted (cd_completion st')\<rparr>"
    by simp_all
qed

lemma reports_flushed:
  assumes "only_flushed st st'" and "reports fp p es st"
  shows "reports fp p es st'"
  using flushed_sel(5) [OF assms(1)] assms(2) unfolding reports_def by (metis report_emitted(1))

text \<open>Packing appends the records up to the first NaN.\<close>

lemma pack_candidates_True:
  "pack_candidates xs pending = (True, pending') \<longleftrightarrow>
     (\<forall>(lbl, sc) \<in> set xs. \<not> is_nan sc) \<and> pending' = pending @ concat (map record_bytes xs)"
  by (induction xs pending rule: pack_candidates.induct) auto

lemma pack_candidates_False:
  "fst (pack_candidates xs pending) \<longleftrightarrow> (\<forall>(lbl, sc) \<in> set xs. \<not> is_nan sc)"
  by (induction xs pending rule: pack_candidates.induct) auto

lemma flushed_flow:
  "flushed reader st = Continue st' \<longleftrightarrow> flush_candidate_bytes reader st = (True, st')"
  "flushed reader st = Return st' \<longleftrightarrow> flush_candidate_bytes reader st = (False, st')"
  "flushed reader st \<noteq> Unwind st'"
  by (auto simp: flushed_def split: prod.splits bool.splits)

lemma give_up_shard_flow:
  "give_up_shard reader p i f st \<noteq> Continue st'"
  by (auto simp: give_up_shard_def give_up_def split: option.splits)

section \<open>Every turn keeps the invariant\<close>

lemma handles_finished:
  assumes "handles n es st"
  shows "list_ex (shard_finishes i) es \<longleftrightarrow> i < n \<and> cd_completed st ! i"
proof -
  have "list_ex (shard_finishes i) es \<longleftrightarrow> 0 < length (filter (shard_finishes i) es)"
    by (auto simp: list_ex_iff filter_empty_conv)
  with assms show ?thesis by (simp add: handles_def)
qed

lemma handles_quiet:
  assumes "handles n es st" and "cd_completed st' = cd_completed st" and "cd_outbound st' = cd_outbound st"
    and "cd_remaining st' = cd_remaining st" and "length (cd_watches st') = length (cd_watches st)"
    and "summaries_of e = []"
  shows "handles n (es @ [e]) st'"
proof -
  have "\<not> shard_finishes i e" for i
    using assms(6) by (cases e rule: summaries_of.cases) (auto simp: finishes_def split: stream_event.splits option.splits)
  with assms show ?thesis by (simp add: handles_def)
qed

lemma quiet_flush:
  assumes "only_flushed st st'" and "summaries_of e = []"
  shows "handles n es st \<Longrightarrow> handles n (es @ [e]) st'" and "reports fp p es st \<Longrightarrow> reports fp p (es @ [e]) st'"
  using handles_quiet [of n es st st' e] reports_flushed [OF assms(1)] flushed_sel [OF assms(1)] assms(2)
  by (simp_all add: reports_def)

lemma on_candidates_Continue:
  assumes "on_candidates reader p i b st = Continue st'"
  obtains pending where "nth_opt (cd_completed st) i = Some False"
    and "\<forall>(lbl, sc) \<in> set (zip (batch_labels b) (batch_scores b)). \<not> is_nan sc"
    and "pending = cd_pending st @ concat (map record_bytes (zip (batch_labels b) (batch_scores b)))"
    and "flush_candidate_bytes reader (st\<lparr>cd_pending := pending\<rparr>) = (True, st') \<or> st' = st\<lparr>cd_pending := pending\<rparr>"
  using assms
  by (auto simp: on_candidates_def give_up_shard_flow flushed_flow pack_candidates_True Let_def
      split: option.splits bool.splits if_splits prod.splits)

lemma on_candidates_inv:
  assumes inv: "candidate_inv fp p es st" and step: "on_candidates reader p i b st = Continue st'"
  shows "candidate_inv fp p (es @ [FromShard (EvMessage i (Some (Batch b)))]) st'"
proof -
  let ?e = "FromShard (EvMessage i (Some (Batch b)))"
  let ?xs = "zip (batch_labels b) (batch_scores b)"
  obtain pending where step': "nth_opt (cd_completed st) i = Some False" "\<forall>(lbl, sc) \<in> set ?xs. \<not> is_nan sc"
    "pending = cd_pending st @ concat (map record_bytes ?xs)"
    "flush_candidate_bytes reader (st\<lparr>cd_pending := pending\<rparr>) = (True, st') \<or> st' = st\<lparr>cd_pending := pending\<rparr>"
    using step by (rule on_candidates_Continue)
  obtain sent pend where fwd: "forwards (offered es) sent pend st"
    using inv by (auto simp: candidate_inv_def)
  then have fwd': "forwards (offered (es @ [?e])) sent (pend @ ?xs) (st\<lparr>cd_pending := pending\<rparr>)"
    using step'(3) by (auto simp: forwards_def)
  have only: "only_flushed st st' \<and> (\<exists>sent pend. forwards (offered (es @ [?e])) sent pend st')"
    using step'(4) flush_forwards [OF _ fwd'] fwd' by (auto simp: only_flushed_def)
  have "handles (length (pinned_shards p)) es st"
    using inv by (simp add: candidate_inv_def)
  from handles_finished [OF this, of i] have "\<not> list_ex (shard_finishes i) es"
    using step'(1) by (simp add: nth_opt_Some)
  then have "tidy (es @ [?e])"
    using inv step'(2) by (auto simp: candidate_inv_def tidy_def offers_before_completion_snoc)
  moreover have "handles (length (pinned_shards p)) (es @ [?e]) st'" "reports fp p (es @ [?e]) st'"
    using inv only quiet_flush [of st st' ?e] by (simp_all add: candidate_inv_def)
  ultimately show ?thesis
    using only by (simp add: candidate_inv_def)
qed

lemma on_completed_Continue:
  assumes "on_completed reader p i s st = Continue st'"
  obtains "nth_opt (cd_completed st) i = Some False" and "summary_completed s"
    and "st' = st\<lparr>cd_completed := (cd_completed st)[i := True], cd_remaining := cd_remaining st - 1,
      cd_outbound := (cd_outbound st)[i := None],
      cd_completion := (cd_completion st)
        \<lparr>cc_blocks_scanned := saturating_add_u64 (cc_blocks_scanned (cd_completion st)) (summary_blocks_scanned s),
         cc_floor_raises_applied :=
           saturating_add_u64 (cc_floor_raises_applied (cd_completion st)) (summary_floor_raises_applied s),
         cc_shards_completed := saturating_add_u32 (cc_shards_completed (cd_completion st)) 1\<rparr>\<rparr>"
  using assms
  by (auto simp: on_completed_def give_up_shard_flow Let_def split: option.splits bool.splits if_splits)

lemma on_completed_inv:
  assumes inv: "candidate_inv fp p es st" and step: "on_completed reader p i s st = Continue st'"
  shows "candidate_inv fp p (es @ [FromShard (EvMessage i (Some (Summary s)))]) st'"
proof -
  let ?n = "length (pinned_shards p)"
  from step obtain step': "nth_opt (cd_completed st) i = Some False" "summary_completed s"
    "st' = st\<lparr>cd_completed := (cd_completed st)[i := True], cd_remaining := cd_remaining st - 1,
      cd_outbound := (cd_outbound st)[i := None],
      cd_completion := (cd_completion st)
        \<lparr>cc_blocks_scanned := saturating_add_u64 (cc_blocks_scanned (cd_completion st)) (summary_blocks_scanned s),
         cc_floor_raises_applied :=
           saturating_add_u64 (cc_floor_raises_applied (cd_completion st)) (summary_floor_raises_applied s),
         cc_shards_completed := saturating_add_u32 (cc_shards_completed (cd_completion st)) 1\<rparr>\<rparr>"
    by (rule on_completed_Continue)
  have H: "handles ?n es st" using inv by (simp add: candidate_inv_def)
  have i: "i < ?n" "\<not> cd_completed st ! i"
    using H step' by (auto simp: handles_def nth_opt_Some)
  have count: "0 < cd_remaining st" "count_list ((cd_completed st)[i := True]) False = cd_remaining st - 1"
    using H i count_list_update_False [of i "cd_completed st"]
    by (auto simp: handles_def count_list_zero_iff in_set_conv_nth intro!: gr0I)
  have fin: "shard_finishes j (FromShard (EvMessage i (Some (Summary s)))) \<longleftrightarrow> j = i" for j
    using step' by (auto simp: finishes_def)
  have "length (filter (shard_finishes j) (es @ [FromShard (EvMessage i (Some (Summary s)))])) =
      (if j < ?n \<and> (cd_completed st)[i := True] ! j then 1 else 0)" for j
    using H i fin [of j] by (cases "j = i") (simp_all add: handles_def)
  then have "handles ?n (es @ [FromShard (EvMessage i (Some (Summary s)))]) st'"
    using H count step'(3) by (simp add: handles_def)
  moreover have "reports fp p (es @ [FromShard (EvMessage i (Some (Summary s)))]) st'"
  proof -
    obtain a where "cd_completion st = report_of fp p (summaries es) a"
      using inv by (auto simp: candidate_inv_def reports_def)
    then show ?thesis
      unfolding reports_def step'(3) by (intro exI [of _ a]) (simp add: report_snoc Let_def)
  qed
  ultimately show ?thesis
    using inv step' by (auto simp: candidate_inv_def forwards_def tidy_def offers_before_completion_snoc)
qed

lemma on_caller_inv:
  assumes inv: "candidate_inv fp p es st" and step: "on_caller reader m st = Continue st'"
  shows "candidate_inv fp p (es @ [FromCaller m]) st'"
proof -
  have H: "handles (length (pinned_shards p)) es st" using inv by (simp add: candidate_inv_def)
  then have "broadcast_floor f (cd_completed st) 0 (cd_outbound st) (cd_watches st) =
      Inr (broadcast f (cd_completed st) (cd_watches st))" for f
    by (simp add: handles_def broadcast_floor_controls)
  then have same: "cd_completed st' = cd_completed st \<and> cd_outbound st' = cd_outbound st \<and>
      cd_remaining st' = cd_remaining st \<and> length (cd_watches st') = length (cd_watches st) \<and>
      cd_completion st' = cd_completion st \<and> cd_out st' = cd_out st \<and> cd_pending st' = cd_pending st"
    using step H by (cases "(reader, m, st)" rule: on_caller.cases)
      (auto simp: give_up_def handles_def split: if_splits)
  then have "handles (length (pinned_shards p)) (es @ [FromCaller m]) st'"
    using H by (auto intro: handles_quiet)
  then show ?thesis
    using inv same by (auto simp: candidate_inv_def forwards_def reports_def tidy_def offers_before_completion_snoc)
qed

lemma candidate_inv_skip:
  assumes "candidate_inv fp p es st" and "offered_by e = []" and "summaries_of e = []" and "\<And>i. \<not> offers_from i e"
  shows "candidate_inv fp p (es @ [e]) st"
  using assms handles_quiet [of _ es st st e]
  by (simp add: candidate_inv_def reports_def tidy_def offers_before_completion_snoc)

lemma candidate_step_inv:
  assumes inv: "candidate_inv fp p es st" and step: "candidate_step reader p e st = Continue st'"
  shows "candidate_inv fp p (es @ [e]) st'"
proof -
  have flush: ?thesis if "flush_candidate_bytes reader st = (True, st')" "e = FlushTick"
  proof -
    obtain sent pend where fwd: "forwards (offered es) sent pend st" using inv by (auto simp: candidate_inv_def)
    note F = flush_forwards [OF that(1) fwd]
    then have "handles (length (pinned_shards p)) (es @ [e]) st'" "reports fp p (es @ [e]) st'"
      using inv that(2) quiet_flush [of st st' e] by (simp_all add: candidate_inv_def)
    with F inv that(2) show ?thesis
      by (auto simp: candidate_inv_def tidy_def offers_before_completion_snoc)
  qed
  show ?thesis
  proof (cases e)
    case (FromCaller m)
    show ?thesis
    proof (cases "cd_inbound_open st")
      case True
      then have "on_caller reader m st = Continue st'" using step FromCaller by simp
      then show ?thesis unfolding FromCaller by (rule on_caller_inv [OF inv])
    next
      case False
      then show ?thesis using step candidate_inv_skip [OF inv] FromCaller by simp
    qed
  next
    case (FromShard x)
    with step have "on_shard reader p x st = Continue st'" by simp
    then show ?thesis unfolding FromShard
      using candidate_inv_skip [OF inv, of "FromShard x"] on_candidates_inv [OF inv] on_completed_inv [OF inv]
      by (cases "(reader, p, x, st)" rule: on_shard.cases)
        (auto simp: give_up_shard_flow split: option.splits bool.splits)
  qed (use step flush in \<open>simp_all add: flushed_flow give_up_def\<close>)
qed

section \<open>Whole runs\<close>

lemma open_candidate_streams_Inr:
  "open_candidate_streams connect answer start rid shards opened = Inr ws \<Longrightarrow>
     ws = opened @ map (candidate_search_request start rid) shards"
  by (induction connect answer start rid shards opened rule: open_candidate_streams.induct)
    (auto simp: Let_def split: sum.splits open_answer.splits if_splits)

lemma open_candidate_streams_Inl:
  "open_candidate_streams connect answer start rid shards opened = Inl (e, ws) \<Longrightarrow> set ws \<subseteq> {StopStreamSearch}"
  by (induction connect answer start rid shards opened rule: open_candidate_streams.induct)
    (auto simp: Let_def drop_controls_def in_set_conv_nth split: sum.splits open_answer.splits if_splits)

lemma candidate_initial_inv:
  assumes "length opened = length (pinned_shards p)"
  shows "candidate_inv fp p [] (candidate_initial fp p start opened m)"
proof -
  have "forwards [] [] [] (candidate_initial fp p start opened m)"
    by (simp add: forwards_def candidate_initial_def opening_completion_def default_completion_def)
  moreover have "handles (length (pinned_shards p)) [] (candidate_initial fp p start opened m)"
    using assms by (simp add: handles_def candidate_initial_def controls_def)
  moreover have "opening_completion fp p = report_of fp p [] 0"
    by (simp add: report_of_def opening_completion_def default_completion_def saturating_u32_def)
  ultimately show ?thesis
    by (auto simp: candidate_inv_def reports_def candidate_initial_def tidy_def)
qed

lemma continues_inv:
  assumes "continues reader p st0 es st" and "candidate_inv fp p [] st0"
  shows "candidate_inv fp p es st"
  using assms(1)
proof induction
  case started
  show ?case by (rule assms(2))
next
  case (went_on es st e st')
  then show ?case by (blast intro: candidate_step_inv)
qed

lemma inv_not_completed: "candidate_inv fp p es st \<Longrightarrow> \<not> cc_completed (cd_completion st)"
  by (auto simp: candidate_inv_def reports_def report_of_def opening_completion_def default_completion_def)

text \<open>What the turn that ends the function does: at most one completion, never a certified one.\<close>

definition leaves :: "bool \<Rightarrow> candidate_state \<Rightarrow> candidate_state \<Rightarrow> bool" where
  "leaves answered st st' \<longleftrightarrow>
     cd_outbound st' = cd_outbound st \<and> length (cd_watches st') = length (cd_watches st) \<and>
     (\<not> answered \<and> cd_out st' = cd_out st \<or>
      (\<exists>c. \<not> cc_completed c \<and> cd_out st' = cd_out st @ [Inr (CandidateCompletion c)]))"

lemma end_with_leaves:
  "\<not> cc_completed (cd_completion st) \<Longrightarrow> leaves (reader = None) st (end_with reader e st)"
  by (auto simp: leaves_def end_with_def send_completion_def send_def split: option.splits)

lemma give_up_leaves:
  "\<not> cc_completed (cd_completion st) \<Longrightarrow> give_up reader e st = Return st' \<Longrightarrow> leaves (reader = None) st st'"
  using end_with_leaves [of st reader e] by (auto simp: give_up_def leaves_def)

text \<open>The same from a state that differs only in the counters or the pending records.\<close>

definition alike :: "candidate_state \<Rightarrow> candidate_state \<Rightarrow> bool" where
  "alike st st1 \<longleftrightarrow>
     cd_outbound st1 = cd_outbound st \<and> cd_watches st1 = cd_watches st \<and> cd_out st1 = cd_out st \<and>
     cc_completed (cd_completion st1) = cc_completed (cd_completion st)"

lemma alike_leaves: "leaves answered st1 st' \<Longrightarrow> alike st st1 \<Longrightarrow> leaves answered st st'"
  by (simp add: leaves_def alike_def)

lemma alike_simps [simp]: "alike st st" "alike st (st\<lparr>cd_pending := pending\<rparr>)" "leaves False st st"
  by (simp_all add: alike_def leaves_def)

lemma give_up_shard_leaves:
  assumes "\<not> cc_completed (cd_completion st)"
  shows "give_up_shard reader p i f st1 = Return st' \<Longrightarrow> alike st st1 \<Longrightarrow> leaves (reader = None) st st'"
    and "give_up_shard reader p i f st1 = Unwind st' \<Longrightarrow> alike st st1 \<Longrightarrow> leaves False st st'"
  using assms give_up_leaves [of st1] alike_leaves [of _ st1 _ st] alike_leaves [of False st1 st1 st]
  by (auto simp: give_up_shard_def give_up_def alike_def split: option.splits)

lemma stop_all_leaves:
  "length (cd_watches st) = length (cd_outbound st) \<Longrightarrow> leaves answered (stop_all st) st' \<Longrightarrow> leaves answered st st'"
  by (auto simp: leaves_def stop_all_def)

lemma flushed_leaves:
  "flushed reader st = Return st' \<Longrightarrow> leaves (reader = None) st st'"
  by (auto simp: flushed_flow flush_candidate_bytes_def leaves_def send_def Let_def split: if_splits option.splits)

lemma on_caller_leaves:
  assumes "\<not> cc_completed (cd_completion st)" and "length (cd_watches st) = length (cd_outbound st)"
  shows "on_caller reader m st = Return st' \<Longrightarrow> leaves (reader = None) st st'"
    and "on_caller reader m st = Unwind st' \<Longrightarrow> leaves False st st'"
proof -
  show "on_caller reader m st = Return st' \<Longrightarrow> leaves (reader = None) st st'"
    using assms give_up_leaves [OF assms(1)]
      stop_all_leaves [OF assms(2) end_with_leaves, of reader "[Lit ''candidate stream cancelled by caller'']"]
    by (cases "(reader, m, st)" rule: on_caller.cases) (auto simp: stop_all_def split: if_splits sum.splits)
  show "on_caller reader m st = Unwind st' \<Longrightarrow> leaves False st st'"
    by (cases "(reader, m, st)" rule: on_caller.cases)
      (auto simp: give_up_def leaves_def split: if_splits sum.splits)
qed

lemma on_candidates_leaves:
  assumes "\<not> cc_completed (cd_completion st)"
  shows "on_candidates reader p i b st = Return st' \<Longrightarrow> leaves (reader = None) st st'"
    and "on_candidates reader p i b st = Unwind st' \<Longrightarrow> leaves False st st'"
  using flushed_leaves [THEN alike_leaves, of reader "st\<lparr>cd_pending := _\<rparr>" st' st]
  by (auto simp: on_candidates_def Let_def flushed_flow(3) split: option.splits bool.splits if_splits prod.splits
      dest: give_up_shard_leaves [OF assms])

lemma on_completed_leaves:
  assumes "\<not> cc_completed (cd_completion st)"
  shows "on_completed reader p i s st = Return st' \<Longrightarrow> leaves (reader = None) st st'"
    and "on_completed reader p i s st = Unwind st' \<Longrightarrow> leaves False st st'"
  by (auto simp: on_completed_def Let_def split: option.splits bool.splits if_splits
      dest!: give_up_shard_leaves [OF assms]) (simp_all add: alike_def leaves_def)

lemma candidate_step_leaves:
  assumes "\<not> cc_completed (cd_completion st)" and "length (cd_watches st) = length (cd_outbound st)"
  shows "candidate_step reader p e st = Return st' \<Longrightarrow> leaves (reader = None \<and> e \<noteq> CallerGone) st st'"
    and "candidate_step reader p e st = Unwind st' \<Longrightarrow> leaves False st st'"
proof -
  have shard: "on_shard reader p x st = Return st' \<Longrightarrow> leaves (reader = None) st st'"
    "on_shard reader p x st = Unwind st' \<Longrightarrow> leaves False st st'" for x
    by (cases "(reader, p, x, st)" rule: on_shard.cases;
        auto split: option.splits bool.splits dest: on_candidates_leaves [OF assms(1)]
          on_completed_leaves [OF assms(1)] give_up_shard_leaves [OF assms(1)])+
  have deadline: "give_up reader m (stop_all st) = Return st' \<Longrightarrow> leaves (reader = None) st st'" for m
    using stop_all_leaves [OF assms(2)] give_up_leaves [of "stop_all st"] assms(1) by (simp add: stop_all_def)
  show "candidate_step reader p e st = Return st' \<Longrightarrow> leaves (reader = None \<and> e \<noteq> CallerGone) st st'"
    using shard(1) deadline on_caller_leaves(1) [OF assms] give_up_leaves [OF assms(1)] flushed_leaves
    by (cases e) (auto simp: leaves_def [of False] split: if_splits)
  show "candidate_step reader p e st = Unwind st' \<Longrightarrow> leaves False st st'"
    using shard(2) on_caller_leaves(2) [OF assms]
    by (cases e) (auto simp: give_up_def flushed_flow split: if_splits)
qed

lemma candidate_loop_ends:
  assumes "candidate_loop reader p events (candidate_initial fp p start opened m) = (how, st')"
    and "length opened = length (pinned_shards p)"
  obtains consumed rest st where "events = consumed @ rest" and "candidate_inv fp p consumed st"
    and "ends reader p rest st how st'"
  using candidate_loop_continues [OF started assms(1)] continues_inv [OF _ candidate_initial_inv [OF assms(2)]]
  by (metis append_Nil)

text \<open>A run is refused with one message, or it reaches the loop.\<close>

definition refused_run :: "nat option \<Rightarrow> candidate_result \<Rightarrow> bool" where
  "refused_run reader r \<longleftrightarrow>
     cr_end r = Returned \<and> set (cr_watches r) \<subseteq> {StopStreamSearch} \<and>
     (\<exists>x. cr_out r = snd (send reader x []) \<and>
        (x \<in> range Inl \<or> (\<exists>c. x = Inr (CandidateCompletion c) \<and> \<not> cc_completed c)))"

definition loop_run ::
    "nat option \<Rightarrow> (bytes \<Rightarrow> bytes) \<Rightarrow> pinned \<Rightarrow> candidate_start \<Rightarrow> candidate_event list \<Rightarrow> metrics \<Rightarrow> candidate_result \<Rightarrow> bool" where
  "loop_run reader sha256 p start events m r \<longleftrightarrow>
     (\<exists>opened. length opened = length (pinned_shards p) \<and>
        r = left_by (candidate_loop reader p events
          (candidate_initial (collection_scoring_fingerprint sha256 p) p start opened m)))"

lemma refuse_refused: "refused_run reader (refuse_stream reader e m)"
  by (auto simp: refused_run_def refuse_stream_def send_error_def)

lemma incomplete_refused:
  "\<not> cc_completed c \<Longrightarrow> set ws \<subseteq> {StopStreamSearch} \<Longrightarrow> refused_run reader (incomplete_stream reader c ws m)"
  by (auto simp: refused_run_def incomplete_stream_def send_completion_def)

lemma open_candidate_streams_run:
  assumes "r = (case open_candidate_streams connect answer start rid (pinned_shards p) [] of
      Inl (e, ws) \<Rightarrow>
        incomplete_stream reader ((opening_completion (collection_scoring_fingerprint sha256 p) p)\<lparr>cc_error := e\<rparr>) ws m
    | Inr opened \<Rightarrow> left_by (candidate_loop reader p events
        (candidate_initial (collection_scoring_fingerprint sha256 p) p start opened m)))"
  shows "refused_run reader r \<or> loop_run reader sha256 p start events m r"
proof (cases "open_candidate_streams connect answer start rid (pinned_shards p) []")
  case (Inl failed)
  obtain e ws where failed: "failed = (e, ws)" by fastforce
  with Inl have "set ws \<subseteq> {StopStreamSearch}" by (simp add: open_candidate_streams_Inl)
  then show ?thesis
    using assms Inl failed by (simp add: incomplete_refused opening_completion_def default_completion_def)
next
  case (Inr opened)
  then have "r = left_by (candidate_loop reader p events
      (candidate_initial (collection_scoring_fingerprint sha256 p) p start opened m))"
    using assms by simp
  moreover have "length opened = length (pinned_shards p)"
    using open_candidate_streams_Inr [OF Inr] by simp
  ultimately show ?thesis unfolding loop_run_def by blast
qed

lemma run_candidate_stream_cases:
  assumes "r = run_candidate_stream reader sha256 uuid opening bound connect answer events m"
  shows "refused_run reader r \<or>
    (\<exists>start p. opening = Some (Inr (Some (StartCandidates start))) \<and> bound = Inr p \<and>
       loop_run reader sha256 p start events m r)"
proof (cases "\<exists>start p. opening = Some (Inr (Some (StartCandidates start))) \<and> bound = Inr p \<and>
    check_candidate_start p start = Inr ()")
  case True
  then obtain start p where started: "opening = Some (Inr (Some (StartCandidates start)))" "bound = Inr p"
    "check_candidate_start p start = Inr ()" by blast
  have "refused_run reader r \<or> loop_run reader sha256 p start events m r"
    by (rule open_candidate_streams_run) (simp add: assms started run_candidate_stream_def Let_def)
  with started show ?thesis by blast
next
  case False
  have "\<not> cc_completed (default_completion\<lparr>cc_error := e\<rparr>)" for e
    by (simp add: default_completion_def)
  with False assms have "refused_run reader r"
    by (auto simp: run_candidate_stream_def refuse_refused incomplete_refused
        split: option.splits sum.splits candidate_request.splits)
  then show ?thesis ..
qed

section \<open>A concrete run\<close>

text \<open>Two labelled shards; the first batch is flushed by the timer and the caller raises the floor once.\<close>

definition labelled_pinned :: pinned where
  "labelled_pinned = example_pinned\<lparr>pinned_shards :=
     map (\<lambda>s. s\<lparr>probe_info := (probe_info s)\<lparr>info_labelled := True\<rparr>\<rparr>) (pinned_shards example_pinned)\<rparr>"

definition start_example :: candidate_start where
  "start_example =
     \<lparr>ca_request_id = ''q'', ca_vector = [F32 0, F32 0x3F800000], ca_initial_floor = None, ca_allowed_labels = [],
      ca_has_allowed_labels = False, ca_allowed_label_bitmaps = []\<rparr>"

definition example_summary :: "nat \<Rightarrow> candidate_event" where
  "example_summary i = FromShard (EvMessage i (Some (Summary
     \<lparr>summary_completed = True, summary_emitted = 1, summary_blocks_scanned = 1, summary_floor_raises_applied = 0\<rparr>)))"

definition example_offer :: "nat \<Rightarrow> u64 \<Rightarrow> u32 \<Rightarrow> candidate_event" where
  "example_offer i lbl sc = FromShard (EvMessage i (Some (Batch
     \<lparr>batch_scores = [F32 sc], batch_slots = [0], batch_labels = [lbl]\<rparr>)))"

definition example_stream :: "candidate_event list" where
  "example_stream =
     [example_offer 0 7 0x40400000, FlushTick, FromCaller (Some (Inr (Some (RaiseFloor (F32 0x3F800000))))),
      example_summary 0, FromShard (EvClosed 0), example_offer 1 9 0x40000000, example_summary 1]"

definition run_example :: "candidate_event list \<Rightarrow> candidate_result" where
  "run_example events =
     run_candidate_stream None (\<lambda>_. []) ''u'' (Some (Inr (Some (StartCandidates start_example))))
       (Inr labelled_pinned) (\<lambda>_. Inr ()) (\<lambda>_. Opened) events no_metrics"

section \<open>A certified stream\<close>

definition terminal :: "status + candidate_response \<Rightarrow> bool" where
  "terminal x \<longleftrightarrow> x \<in> range Inl \<or> x \<in> range (Inr \<circ> CandidateCompletion)"

definition certifying :: "candidate_completion \<Rightarrow> status + candidate_response \<Rightarrow> bool" where
  "certifying c x \<longleftrightarrow> x = Inr (CandidateCompletion c) \<and> cc_completed c"

lemma refused_not_certifying: "refused_run reader r \<Longrightarrow> x \<in> set (cr_out r) \<Longrightarrow> \<not> certifying c x"
  by (auto simp: refused_run_def certifying_def send_def split: if_splits)

lemma certify_done:
  assumes inv: "candidate_inv fp p es st" and "certify reader st = (how, st')" and "cd_remaining st = 0"
  obtains (failed) sent where "how = Returned" and "reader \<noteq> None" and "cd_out st' = map packed_batch sent"
      and "[] \<notin> set sent" and "cd_outbound st' = cd_outbound st" and "cd_watches st' = cd_watches st"
    | (certified) sent a c where "how = Certified" and "[] \<notin> set sent" and "concat sent = offered es"
      and "c = (report_of fp p (summaries es) a)\<lparr>cc_completed := True\<rparr>"
      and "length (offered es) < 2 ^ 64 \<Longrightarrow> a = as_u64 (length (offered es))"
      and "cd_out st' = send_completion reader c (map packed_batch sent)"
      and "cd_outbound st' = cd_outbound st" and "cd_watches st' = cd_watches st"
proof (cases "flush_candidate_bytes reader st")
  case (Pair ok st1)
  obtain sent pend where fwd: "forwards (offered es) sent pend st"
    using inv by (auto simp: candidate_inv_def)
  show ?thesis
  proof (cases ok)
    case True
    with Pair have flush: "flush_candidate_bytes reader st = (True, st1)" by simp
    note F = flush_forwards [OF flush fwd]
    obtain a where a: "cd_completion st1 = report_of fp p (summaries es) a"
      using inv reports_flushed [of st st1 fp p es] F by (auto simp: candidate_inv_def reports_def)
    define batches where "batches = (if pend = [] then sent else sent @ [pend])"
    have fwd1: "cd_out st1 = map packed_batch batches" "[] \<notin> set batches" "concat batches = offered es"
      "length (offered es) < 2 ^ 64 \<Longrightarrow> a = as_u64 (length (offered es))"
      using F a report_emitted(2) [of fp p "summaries es" a] by (auto simp: forwards_def batches_def)
    have st': "how = Certified"
      "st' = st1\<lparr>cd_completion := (cd_completion st1)\<lparr>cc_completed := True\<rparr>,
         cd_out := send_completion reader ((cd_completion st1)\<lparr>cc_completed := True\<rparr>) (cd_out st1),
         cd_metrics := coordinator_search_finished (cd_metrics st1)\<rparr>"
      using assms(2) flush by (simp_all add: certify_def Let_def)
    have "cd_outbound st1 = cd_outbound st" "cd_watches st1 = cd_watches st"
      using F flushed_sel [of st st1] by simp_all
    then show ?thesis
      by (intro certified [OF st'(1) fwd1(2,3) refl fwd1(4)]) (simp_all add: st'(2) fwd1(1) a)
  next
    case False
    with Pair show ?thesis
      using assms(2) fwd
      by (intro failed [of sent])
        (auto simp: certify_def forwards_def flush_candidate_bytes_def send_def Let_def split: if_splits option.splits)
  qed
qed

lemma batch_not_certifying [simp]: "\<not> certifying c (packed_batch rs)"
  by (simp add: certifying_def packed_batch_def)

lemma inv_out: "candidate_inv fp p es st \<Longrightarrow> \<exists>sent. cd_out st = map packed_batch sent \<and> [] \<notin> set sent"
  by (auto simp: candidate_inv_def forwards_def)

lemma inv_watches: "candidate_inv fp p es st \<Longrightarrow> length (cd_watches st) = length (cd_outbound st)"
  by (simp add: candidate_inv_def handles_def)

text \<open>How a loop can have ended, with what it left.\<close>

lemma ends_cases:
  assumes inv: "candidate_inv fp p es st" and ends: "ends reader p rest st how st'"
  obtains (waiting) "how = Waiting" and "st' = st"
    | (left) answered where "how = Returned \<or> how = Unwound" and "leaves answered st st'"
      and "how = Returned \<Longrightarrow> answered \<longleftrightarrow> reader = None \<and> hd rest \<noteq> CallerGone" and "rest \<noteq> []"
    | (done_all) "certify reader st = (how, st')" and "cd_remaining st = 0"
proof (cases "cd_remaining st = 0 \<or> rest = []")
  case True
  then show ?thesis using ends waiting done_all by (auto simp: ends_def split: if_splits)
next
  case False
  then obtain e es' where rest: "rest = e # es'" by (auto simp: neq_Nil_conv)
  note L = candidate_step_leaves [OF inv_not_completed [OF inv] inv_watches [OF inv], of reader p e st']
  show ?thesis
    using ends False rest L(1) left [of "reader = None \<and> e \<noteq> CallerGone"] L(2) left [of False]
    by (auto simp: ends_def)
qed

lemma left_by_sel [simp]:
  "cr_end (left_by (how, st)) = how" "cr_out (left_by (how, st)) = cd_out st"
  by (simp_all add: left_by_def)

lemma certified_loop:
  assumes run: "loop_run reader sha256 p start events m r" and x: "x \<in> set (cr_out r)" "certifying c x"
  obtains consumed rest sent a st where "events = consumed @ rest" and "cr_end r = Certified"
    and "cr_out r = map packed_batch sent @ [Inr (CandidateCompletion c)]" and "concat sent = offered consumed"
    and "[] \<notin> set sent"
    and "c = (report_of (collection_scoring_fingerprint sha256 p) p (summaries consumed) a)\<lparr>cc_completed := True\<rparr>"
    and "length (offered consumed) < 2 ^ 64 \<Longrightarrow> a = as_u64 (length (offered consumed))"
    and "handles (length (pinned_shards p)) consumed st" and "cd_remaining st = 0" and "tidy consumed"
proof -
  let ?fp = "collection_scoring_fingerprint sha256 p"
  obtain opened how st' where loop: "length opened = length (pinned_shards p)"
    "candidate_loop reader p events (candidate_initial ?fp p start opened m) = (how, st')" "r = left_by (how, st')"
    using run by (metis loop_run_def surj_pair)
  obtain consumed rest st where E: "events = consumed @ rest" "candidate_inv ?fp p consumed st"
    "ends reader p rest st how st'"
    by (rule candidate_loop_ends [OF loop(2,1)])
  obtain sent where out: "cd_out st = map packed_batch sent" using inv_out [OF E(2)] by blast
  from E(2,3) show ?thesis
  proof (cases rule: ends_cases)
    case waiting
    with out loop(3) x show ?thesis by auto
  next
    case (left answered)
    with out loop(3) x show ?thesis by (auto simp: leaves_def certifying_def packed_batch_def)
  next
    case done_all
    from done_all show ?thesis
    proof (cases rule: certify_done [OF E(2), consumes 2, case_names failed certified])
      case (failed sent')
      with loop(3) x show ?thesis by auto
    next
      case (certified sent' a c')
      have "cr_out r = map packed_batch sent' @ [Inr (CandidateCompletion c)]" "c' = c"
        using certified(6) loop(3) x
        by (auto simp: send_completion_def send_def certifying_def packed_batch_def split: if_splits)
      with E(1,2) certified loop(3) done_all that show ?thesis
        by (metis candidate_inv_def left_by_sel(1))
    qed
  qed
qed

lemma certified_counts:
  assumes "handles n es st" and "cd_remaining st = 0"
  shows "length (summaries es) = n" and "\<And>i. i < n \<Longrightarrow> length (filter (shard_finishes i) es) = 1"
proof -
  show "length (summaries es) = n" using assms by (simp add: handles_def)
  show "length (filter (shard_finishes i) es) = 1" if "i < n" for i
    using assms that by (auto simp: handles_def count_list_zero_iff in_set_conv_nth)
qed

text \<open>
  C36. Exactness of the candidate stream: a completion that says \<open>completed\<close> is the last message, and then a
  prefix of the events was consumed in which every shard completed exactly once and offered nothing
  afterwards; the records the caller decodes from the batches are exactly the candidates offered in that
  prefix, in their order, no score is NaN, and the completion names their number, every shard, the pinned
  generation, the score space and no error.
\<close>

theorem candidate_stream_exact:
  assumes "r = run_candidate_stream reader sha256 uuid (Some (Inr (Some (StartCandidates start)))) (Inr p)
      connect answer events m"
    and "Inr (CandidateCompletion c) \<in> set (cr_out r)" and "cc_completed c"
  shows "\<exists>consumed rest sent. events = consumed @ rest \<and>
    cr_out r = map packed_batch sent @ [Inr (CandidateCompletion c)] \<and>
    concat (map read_message (cr_out r)) = offered consumed \<and>
    (\<forall>i < length (pinned_shards p). length (filter (shard_finishes i) consumed) = 1) \<and>
    offers_before_completion consumed \<and> (\<forall>(lbl, sc) \<in> set (offered consumed). \<not> is_nan sc) \<and>
    (length (offered consumed) < 2 ^ 64 \<longrightarrow> cc_emitted c = as_u64 (length (offered consumed))) \<and>
    cc_shards_completed c = cc_shards_total c \<and>
    cc_shards_total c = saturating_u32 (length (pinned_shards p)) \<and>
    cc_topology_generation c = pinned_generation p \<and>
    cc_scoring_fingerprint c = collection_scoring_fingerprint sha256 p \<and> cc_error c = []"
proof -
  have x: "certifying c (Inr (CandidateCompletion c))" using assms(3) by (simp add: certifying_def)
  with assms(2) have "\<not> refused_run reader r" by (blast dest: refused_not_certifying)
  with run_candidate_stream_cases [OF assms(1)] have run: "loop_run reader sha256 p start events m r" by simp
  from certified_loop [OF run assms(2) x] obtain consumed rest sent a st where
    C: "events = consumed @ rest" "cr_out r = map packed_batch sent @ [Inr (CandidateCompletion c)]"
      "concat sent = offered consumed"
    and c: "c = (report_of (collection_scoring_fingerprint sha256 p) p (summaries consumed) a)\<lparr>cc_completed := True\<rparr>"
    and a: "length (offered consumed) < 2 ^ 64 \<Longrightarrow> a = as_u64 (length (offered consumed))"
    and st: "handles (length (pinned_shards p)) consumed st" "cd_remaining st = 0" "tidy consumed"
    by metis
  have "concat (map read_message (cr_out r)) = offered consumed"
    by (simp add: C(2,3) comp_def)
  moreover note certified_counts [OF st(1,2)]
  ultimately show ?thesis
    using C(1,2) st(3) a
    by (intro exI [of _ consumed] exI [of _ rest] exI [of _ sent])
      (simp add: c report_of_def opening_completion_def default_completion_def tidy_def)
qed

lemmas example_stream_defs =
  run_example_def run_candidate_stream_def start_example_def labelled_pinned_def example_pinned_def example_probe_def
  check_candidate_start_def validate_label_bitmaps_def collection_scoring_fingerprint_def

lemma example_scores:
  "is_finite (F32 0)" "is_finite (F32 0x3F800000)" "\<not> is_nan (F32 0x40400000)" "\<not> is_nan (F32 0x40000000)"
  "\<not> is_nan (F32 0x3F800000)" "f32_lt neg_infinity (F32 0x3F800000)"
  by code_simp+

lemma example_loop:
  "run_example events = left_by (candidate_loop None labelled_pinned events
     (candidate_initial [] labelled_pinned start_example
       (map (candidate_search_request start_example ''q'') (pinned_shards labelled_pinned)) no_metrics))"
  by (simp add: example_stream_defs example_scores Let_def)

lemma example_out:
  "cr_end (run_example example_stream) = Certified \<and> (\<exists>c. cc_completed c \<and>
     cr_out (run_example example_stream) =
       [packed_batch [(7, F32 0x40400000)], packed_batch [(9, F32 0x40000000)], Inr (CandidateCompletion c)])"
  by (simp add: example_loop example_stream_def example_offer_def example_summary_def candidate_loop.simps
      candidate_initial_def labelled_pinned_def example_pinned_def start_example_def on_candidates_def
      on_completed_def flushed_def flush_candidate_bytes_def send_def certify_def left_by_def CANDIDATE_BATCH_BYTES_def
      example_scores nth_opt_def packed.length_to_bytes send_completion_def packed_batch_def Let_def)

theorem candidate_stream_exact_witness:
  "\<exists>consumed rest. example_stream = consumed @ rest \<and>
     offered consumed = [(7, F32 0x40400000), (9, F32 0x40000000)] \<and>
     (\<forall>i < 2. length (filter (shard_finishes i) consumed) = 1)"
proof -
  obtain c where c: "cc_completed c" and out: "cr_out (run_example example_stream) =
      [packed_batch [(7, F32 0x40400000)], packed_batch [(9, F32 0x40000000)], Inr (CandidateCompletion c)]"
    using example_out by blast
  then have "Inr (CandidateCompletion c) \<in> set (cr_out (run_example example_stream))" by simp
  from candidate_stream_exact [OF run_example_def this c] obtain consumed rest where
    "example_stream = consumed @ rest"
    "concat (map read_message (cr_out (run_example example_stream))) = offered consumed"
    "\<forall>i < length (pinned_shards labelled_pinned). length (filter (shard_finishes i) consumed) = 1"
    by metis
  with out show ?thesis
    by (intro exI [of _ consumed] exI [of _ rest]) (simp add: labelled_pinned_def example_pinned_def)
qed

section \<open>The messages of a run\<close>

text \<open>The shape of the messages, given how the run ended and whether a terminal message is due.\<close>

definition well_ended :: "bool \<Rightarrow> stream_end \<Rightarrow> outbox \<Rightarrow> bool" where
  "well_ended due how out \<longleftrightarrow>
     (\<exists>sent final. out = map packed_batch sent @ final \<and> [] \<notin> set sent \<and> length final \<le> 1 \<and>
        (\<forall>x \<in> set final. terminal x) \<and> (due \<longrightarrow> final \<noteq> []) \<and>
        (\<forall>c. \<forall>x \<in> set final. certifying c x \<longrightarrow> how = Certified))"

lemma terminal_simps [simp]: "terminal (Inl e)" "terminal (Inr (CandidateCompletion c))" "\<not> terminal (packed_batch rs)"
  by (auto simp: terminal_def packed_batch_def)

lemma well_ended_none: "[] \<notin> set sent \<Longrightarrow> \<not> due \<Longrightarrow> well_ended due how (map packed_batch sent)"
  unfolding well_ended_def by (intro exI [of _ sent] exI [of _ "[]"]) simp

lemma well_ended_one:
  "[] \<notin> set sent \<Longrightarrow> terminal x \<Longrightarrow> (\<And>c. certifying c x \<Longrightarrow> how = Certified) \<Longrightarrow> well_ended due how (map packed_batch sent @ [x])"
  unfolding well_ended_def by (intro exI [of _ sent] exI [of _ "[x]"]) auto

lemma refused_well_ended:
  assumes "refused_run reader r" and "due \<longrightarrow> reader = None"
  shows "well_ended due (cr_end r) (cr_out r)"
proof -
  obtain x where out: "cr_out r = snd (send reader x [])"
    and "x \<in> range Inl \<or> (\<exists>c. x = Inr (CandidateCompletion c) \<and> \<not> cc_completed c)"
    using assms(1) unfolding refused_run_def by blast
  then have x: "cr_out r = snd (send reader x [])" "terminal x" "\<And>c. \<not> certifying c x"
    by (auto simp: certifying_def)
  with assms(2) show ?thesis
    using well_ended_none [of "[]" due "cr_end r"] well_ended_one [of "[]" x "cr_end r" due]
    by (auto simp: send_def split: if_splits)
qed

lemma loop_well_ended:
  assumes "loop_run reader sha256 p start events m r"
  shows "well_ended (reader = None \<and> CallerGone \<notin> set events \<and> cr_end r \<in> {Returned, Certified}) (cr_end r) (cr_out r)"
proof -
  let ?fp = "collection_scoring_fingerprint sha256 p"
  obtain opened how st' where loop: "length opened = length (pinned_shards p)"
    "candidate_loop reader p events (candidate_initial ?fp p start opened m) = (how, st')" "r = left_by (how, st')"
    using assms by (metis loop_run_def surj_pair)
  obtain consumed rest st where E: "events = consumed @ rest" "candidate_inv ?fp p consumed st"
    "ends reader p rest st how st'"
    by (rule candidate_loop_ends [OF loop(2,1)])
  obtain sent where out: "cd_out st = map packed_batch sent" "[] \<notin> set sent" using inv_out [OF E(2)] by blast
  from E(2,3) show ?thesis
  proof (cases rule: ends_cases)
    case waiting
    with out loop(3) show ?thesis by (simp add: well_ended_none)
  next
    case (left answered)
    have due: "answered" if "reader = None" "CallerGone \<notin> set events" "how = Returned"
      using left(3,4) that E(1) by (cases rest) auto
    from left(2) consider "\<not> answered" "cd_out st' = cd_out st"
      | c where "\<not> cc_completed c" "cd_out st' = cd_out st @ [Inr (CandidateCompletion c)]"
      by (auto simp: leaves_def)
    then show ?thesis
      using due left(1) loop(3) out by cases (auto simp: certifying_def intro!: well_ended_none well_ended_one)
  next
    case done_all
    then show ?thesis
    proof (cases rule: certify_done [OF E(2), consumes 2, case_names failed certified])
      case (failed sent')
      with loop(3) show ?thesis by (simp add: well_ended_none)
    next
      case (certified sent' a c)
      with loop(3) show ?thesis
        by (auto simp: send_completion_def send_def split: option.splits intro!: well_ended_none well_ended_one)
    qed
  qed
qed

lemma loop_stops:
  assumes "loop_run reader sha256 p start events m r" and "cr_end r \<noteq> Waiting" and "i < length (cr_watches r)"
  shows "cr_watches r ! i = StopStreamSearch \<or> list_ex (shard_finishes i) events"
proof -
  let ?fp = "collection_scoring_fingerprint sha256 p"
  obtain opened how st' where loop: "length opened = length (pinned_shards p)"
    "candidate_loop reader p events (candidate_initial ?fp p start opened m) = (how, st')" "r = left_by (how, st')"
    using assms(1) by (metis loop_run_def surj_pair)
  obtain consumed rest st where E: "events = consumed @ rest" "candidate_inv ?fp p consumed st"
    "ends reader p rest st how st'"
    by (rule candidate_loop_ends [OF loop(2,1)])
  have H: "handles (length (pinned_shards p)) consumed st" using E(2) by (simp add: candidate_inv_def)
  from E(2,3) have same: "cd_outbound st' = cd_outbound st \<and> length (cd_watches st') = length (cd_watches st)"
  proof (cases rule: ends_cases)
    case done_all
    then show ?thesis by (cases rule: certify_done [OF E(2), consumes 2]) auto
  qed (simp_all add: leaves_def)
  with H loop(3) assms(2,3) have "cr_watches r = drop_controls (controls (cd_completed st)) (cd_watches st')"
    "i < length (cd_completed st)" "length (cd_completed st) = length (cd_watches st')"
    by (auto simp: left_by_def handles_def drop_controls_def)
  then have "cr_watches r ! i = StopStreamSearch \<or> cd_completed st ! i"
    by (auto simp: drop_controls_def)
  with handles_finished [OF H, of i] H \<open>i < length (cd_completed st)\<close> E(1) show ?thesis
    by (auto simp: handles_def)
qed

text \<open>
  C38. Protocol of the candidate stream: whatever the caller, the shards and the timing do, the caller reads
  nonempty batches of whole records and then at most one terminal message (a status or a completion) and
  nothing after it; a completion that says \<open>completed\<close> appears only when the loop certified the scan. If the
  caller stays and the run is over, the terminal message is there, and every shard still scanning is stopped.
\<close>

theorem candidate_stream_protocol:
  assumes "r = run_candidate_stream reader sha256 uuid opening bound connect answer events m"
  shows "(\<exists>sent final. cr_out r = map packed_batch sent @ final \<and> [] \<notin> set sent \<and>
      length final \<le> 1 \<and> (\<forall>x \<in> set final. terminal x) \<and>
      (reader = None \<and> CallerGone \<notin> set events \<and> cr_end r \<in> {Returned, Certified} \<longrightarrow> final \<noteq> []) \<and>
      (\<forall>c. \<forall>x \<in> set final. certifying c x \<longrightarrow> cr_end r = Certified)) \<and>
    (cr_end r \<noteq> Waiting \<longrightarrow>
      (\<forall>i < length (cr_watches r). cr_watches r ! i = StopStreamSearch \<or> list_ex (shard_finishes i) events))"
proof -
  let ?due = "reader = None \<and> CallerGone \<notin> set events \<and> cr_end r \<in> {Returned, Certified}"
  have "well_ended ?due (cr_end r) (cr_out r) \<and> (cr_end r \<noteq> Waiting \<longrightarrow>
      (\<forall>i < length (cr_watches r). cr_watches r ! i = StopStreamSearch \<or> list_ex (shard_finishes i) events))"
    using run_candidate_stream_cases [OF assms]
  proof
    assume R: "refused_run reader r"
    then have "\<forall>i < length (cr_watches r). cr_watches r ! i = StopStreamSearch"
      using nth_mem by (fastforce simp: refused_run_def)
    with refused_well_ended [OF R, of ?due] show ?thesis by simp
  qed (use loop_well_ended loop_stops in blast)
  then show ?thesis unfolding well_ended_def .
qed

text \<open>The deadline passes when the first shard has completed.\<close>

definition late_stream :: "candidate_event list" where
  "late_stream = [example_offer 0 7 0x40400000, example_summary 0, QueryDeadline]"

lemma late_end: "cr_end (run_example late_stream) = Returned \<and> length (cr_watches (run_example late_stream)) = 2"
  by (simp add: example_loop late_stream_def example_offer_def example_summary_def candidate_loop.simps
      candidate_initial_def labelled_pinned_def example_pinned_def start_example_def on_candidates_def
      on_completed_def left_by_def CANDIDATE_BATCH_BYTES_def give_up_def end_with_def stop_all_def drop_controls_def
      example_scores nth_opt_def packed.length_to_bytes Let_def)

theorem candidate_stream_protocol_witness:
  "cr_watches (run_example late_stream) ! 1 = StopStreamSearch \<and> terminal (last (cr_out (run_example late_stream)))"
proof -
  have quiet: "\<not> list_ex (shard_finishes 1) late_stream" "CallerGone \<notin> set late_stream"
    by (simp_all add: late_stream_def example_offer_def example_summary_def finishes_def)
  note P = candidate_stream_protocol [OF run_example_def [of late_stream]]
  have "\<forall>i < 2. cr_watches (run_example late_stream) ! i = StopStreamSearch \<or> list_ex (shard_finishes i) late_stream"
    using P late_end by simp
  then have "cr_watches (run_example late_stream) ! 1 = StopStreamSearch"
    using quiet(1) by (metis one_less_numeral_iff semiring_norm(76))
  moreover have "\<exists>sent final. cr_out (run_example late_stream) = map packed_batch sent @ final \<and> final \<noteq> [] \<and>
      (\<forall>x \<in> set final. terminal x)"
    using P late_end quiet by auto
  ultimately show ?thesis by fastforce
qed

section \<open>No panic\<close>

text \<open>The reader task of a shard puts its own rank into every event.\<close>

fun ranked :: "nat \<Rightarrow> candidate_event \<Rightarrow> bool" where
  "ranked n (FromShard (EvMessage i _)) = (i < n)"
| "ranked n (FromShard (EvError i _)) = (i < n)"
| "ranked n (FromShard (EvClosed i)) = (i < n)"
| "ranked n _ = True"

lemma give_up_shard_ranked: "i < length (pinned_shards p) \<Longrightarrow> give_up_shard reader p i f st \<noteq> Unwind st'"
  by (simp add: give_up_shard_def give_up_def shard_address_def)

lemma candidate_step_ranked:
  assumes inv: "candidate_inv fp p es st" and e: "ranked (length (pinned_shards p)) e"
  shows "candidate_step reader p e st \<noteq> Unwind st'"
proof -
  have H: "length (cd_completed st) = length (pinned_shards p)" "cd_outbound st = controls (cd_completed st)"
      "length (cd_watches st) = length (pinned_shards p)"
    using inv by (simp_all add: candidate_inv_def handles_def)
  have caller: "on_caller reader m st \<noteq> Unwind st'" for m
    using H by (cases "(reader, m, st)" rule: on_caller.cases) (auto simp: give_up_def broadcast_floor_controls)
  have completed: "on_completed reader p i s st \<noteq> Unwind st'" if "i < length (pinned_shards p)" for i s
    using that H give_up_shard_ranked [OF that]
    by (cases "cd_completed st ! i") (simp_all add: on_completed_def Let_def)
  have candidates: "on_candidates reader p i b st \<noteq> Unwind st'" if "i < length (pinned_shards p)" for i b
    using that H give_up_shard_ranked [OF that] flushed_flow(3)
    by (auto simp: on_candidates_def Let_def split: prod.splits bool.splits)
  have shard: "on_shard reader p x st \<noteq> Unwind st'" if "ranked (length (pinned_shards p)) (FromShard x)" for x
    using that H completed candidates give_up_shard_ranked
    by (cases "(reader, p, x, st)" rule: on_shard.cases) (auto split: bool.splits)
  show ?thesis
    using e shard caller by (cases e) (auto simp: flushed_flow(3) give_up_def)
qed

text \<open>
  Panic freedom of the candidate stream: with events that carry ranks of opened shards, none of the
  indexed accesses and \<open>expect\<close> calls of the loop fails, so the task ends by returning or by certifying the
  scan, or still waits for an event.
\<close>

theorem candidate_stream_no_panic:
  assumes "list_all (ranked (length (pinned_shards p))) events"
  shows "cr_end (run_candidate_stream reader sha256 uuid opening (Inr p) connect answer events m) \<noteq> Unwound"
proof -
  let ?r = "run_candidate_stream reader sha256 uuid opening (Inr p) connect answer events m"
  have "cr_end ?r \<noteq> Unwound" if run: "loop_run reader sha256 p start events m ?r" for start
  proof -
    obtain opened how st' where loop: "length opened = length (pinned_shards p)"
      "candidate_loop reader p events (candidate_initial (collection_scoring_fingerprint sha256 p) p start opened m) =
        (how, st')" "?r = left_by (how, st')"
      using run by (metis loop_run_def surj_pair)
    obtain consumed rest st where E: "events = consumed @ rest"
      "candidate_inv (collection_scoring_fingerprint sha256 p) p consumed st" "ends reader p rest st how st'"
      by (rule candidate_loop_ends [OF loop(2,1)])
    have "how \<noteq> Unwound"
      using E(1,3) assms candidate_step_ranked [OF E(2)]
      by (auto simp: ends_def certify_def Let_def split: if_splits list.splits prod.splits bool.splits)
    with loop(3) show ?thesis by simp
  qed
  with run_candidate_stream_cases [OF refl] show ?thesis
    unfolding refused_run_def by (metis stream_end.distinct(7) sum.inject(2))
qed

theorem candidate_stream_no_panic_witness: "cr_end (run_example late_stream) \<noteq> Unwound"
proof -
  have "list_all (ranked (length (pinned_shards labelled_pinned))) late_stream"
    by (simp add: late_stream_def example_offer_def example_summary_def labelled_pinned_def example_pinned_def)
  then show ?thesis unfolding run_example_def by (rule candidate_stream_no_panic)
qed

end
