(* ===== verification/Candidate_Floors.thy ===== *)
theory Candidate_Floors
  imports Candidate_Properties
begin

text \<open>
  The rising floor of a candidate stream: what the caller has asked for is what the coordinator holds and
  every unfinished shard sees, and a certified stream holds every row at or above it.
\<close>

section \<open>The floor the caller asked for\<close>

text \<open>Whether the caller may still speak, and the greatest floor it has sent.\<close>

fun note_caller :: "candidate_event \<Rightarrow> bool \<times> f32 \<Rightarrow> bool \<times> f32" where
  "note_caller (FromCaller None) (speaks, floor) = (False, floor)"
| "note_caller (FromCaller (Some (Inr (Some (RaiseFloor f))))) (speaks, floor) =
     (speaks, if speaks \<and> f32_gt f floor then f else floor)"
| "note_caller _ s = s"

definition caller_floor :: "f32 \<Rightarrow> candidate_event list \<Rightarrow> f32" where
  "caller_floor f0 es = snd (fold note_caller es (True, f0))"

definition first_floor :: "candidate_start \<Rightarrow> f32" where
  "first_floor start = (case ca_initial_floor start of None \<Rightarrow> neg_infinity | Some f \<Rightarrow> f)"

lemma note_caller_floor: "snd (note_caller e s) = snd s \<or> f32_lt (snd s) (snd (note_caller e s))"
  by (cases "(e, s)" rule: note_caller.cases) auto

lemma floor_trans: "f32_lt a b \<Longrightarrow> f32_lt b c \<Longrightarrow> f32_lt a c"
  by (simp add: f32_lt_def)

lemma fold_caller_floor:
  "snd (fold note_caller es s) = snd s \<or> f32_lt (snd s) (snd (fold note_caller es s))"
proof (induction es arbitrary: s)
  case Nil
  then show ?case by simp
next
  case (Cons e es)
  show ?case
    unfolding fold_simps using note_caller_floor [of e s] Cons.IH [of "note_caller e s"]
      floor_trans [of "snd s" "snd (note_caller e s)" "snd (fold note_caller es (note_caller e s))"]
    by metis
qed

lemma caller_floor_rises: "caller_floor f0 (es @ fs) = caller_floor f0 es \<or> f32_lt (caller_floor f0 es) (caller_floor f0 (es @ fs))"
  using fold_caller_floor [of fs "fold note_caller es (True, f0)"] by (simp add: caller_floor_def)

lemma above_earlier_floor: "f32_ge sc (caller_floor f0 (es @ fs)) \<Longrightarrow> f32_ge sc (caller_floor f0 es)"
  using caller_floor_rises [of f0 es fs] by (auto simp: f32_le_def f32_lt_def)

section \<open>The floor every shard sees\<close>

lemma flush_floor:
  "flush_candidate_bytes reader st = (True, st') \<Longrightarrow> cd_inbound_open st' = cd_inbound_open st \<and>
     cd_floor st' = cd_floor st \<and> cd_watches st' = cd_watches st \<and> cd_completed st' = cd_completed st"
  by (auto simp: flush_candidate_bytes_def Let_def split: if_splits)

lemma on_candidates_floor:
  assumes "on_candidates reader p i b st = Continue st'"
  shows "cd_inbound_open st' = cd_inbound_open st \<and> cd_floor st' = cd_floor st \<and> cd_watches st' = cd_watches st \<and>
    cd_completed st' = cd_completed st"
  using assms
proof (rule on_candidates_Continue)
  fix pending
  assume "flush_candidate_bytes reader (st\<lparr>cd_pending := pending\<rparr>) = (True, st') \<or> st' = st\<lparr>cd_pending := pending\<rparr>"
  then show ?thesis using flush_floor [of reader "st\<lparr>cd_pending := pending\<rparr>" st'] by auto
qed

text \<open>One turn: the floor and the caller follow \<open>note_caller\<close>, a raise is broadcast, completions stay.\<close>

definition floor_step :: "candidate_event \<Rightarrow> candidate_state \<Rightarrow> candidate_state \<Rightarrow> bool" where
  "floor_step e st st' \<longleftrightarrow>
     (cd_inbound_open st', cd_floor st') = note_caller e (cd_inbound_open st, cd_floor st) \<and>
     cd_watches st' = (if cd_floor st' = cd_floor st then cd_watches st
       else broadcast (cd_floor st') (cd_completed st) (cd_watches st)) \<and>
     (\<forall>i < length (cd_completed st). cd_completed st ! i \<longrightarrow> cd_completed st' ! i)"

lemma floor_step_same:
  "note_caller e (cd_inbound_open st, cd_floor st) = (cd_inbound_open st, cd_floor st) \<Longrightarrow>
   cd_inbound_open st' = cd_inbound_open st \<and> cd_floor st' = cd_floor st \<and> cd_watches st' = cd_watches st \<and>
     cd_completed st' = cd_completed st \<Longrightarrow> floor_step e st st'"
  by (simp add: floor_step_def)

lemma candidate_step_floor:
  assumes "candidate_step reader p e st = Continue st'" and "cd_outbound st = controls (cd_completed st)"
    and "length (cd_watches st) = length (cd_completed st)"
  shows "floor_step e st st'"
proof (cases e)
  case FlushTick
  with assms(1) show ?thesis by (intro floor_step_same) (simp_all add: flushed_flow flush_floor)
next
  case (FromCaller m)
  show ?thesis
  proof (cases "cd_inbound_open st")
    case True
    then have "on_caller reader m st = Continue st'" using assms(1) FromCaller by simp
    then show ?thesis
      using assms(2,3) True unfolding FromCaller
      by (cases "(reader, m, st)" rule: on_caller.cases)
        (auto simp: give_up_def floor_step_def broadcast_floor_controls split: if_splits)
  next
    case False
    then show ?thesis using assms(1) FromCaller
      by (cases "(e, cd_inbound_open st, cd_floor st)" rule: note_caller.cases) (auto simp: floor_step_def)
  qed
next
  case (FromShard x)
  have quiet: "note_caller e s = s" for s unfolding FromShard by (cases s) simp
  from assms(1) FromShard have "on_shard reader p x st = Continue st'" by simp
  then show ?thesis
  proof (cases "(reader, p, x, st)" rule: on_shard.cases)
    case (1 reader' p' i b st'')
    with \<open>on_shard reader p x st = Continue st'\<close> show ?thesis
      by (intro floor_step_same) (auto simp: quiet on_candidates_floor)
  next
    case (2 reader' p' i s st'')
    then have "on_completed reader p i s st = Continue st'" using \<open>on_shard reader p x st = Continue st'\<close> by simp
    then show ?thesis
      by (rule on_completed_Continue) (auto simp: floor_step_def quiet nth_list_update nth_opt_Some)
  qed (auto simp: give_up_shard_flow floor_step_def quiet split: option.splits bool.splits)
qed (use assms(1) in \<open>simp_all add: give_up_def\<close>)

definition floor_held :: "f32 \<Rightarrow> stream_search_request list \<Rightarrow> candidate_event list \<Rightarrow> candidate_state \<Rightarrow> bool" where
  "floor_held f0 opened es st \<longleftrightarrow>
     (cd_inbound_open st, cd_floor st) = fold note_caller es (True, f0) \<and>
     (\<forall>i < length opened. \<not> cd_completed st ! i \<longrightarrow>
        cd_watches st ! i = (if cd_floor st = f0 then opened ! i else FloorUpdate (cd_floor st)))"

lemma floor_held_step:
  assumes held: "floor_held f0 opened es st" and inv: "candidate_inv fp p es st"
    and len: "length opened = length (pinned_shards p)" and step: "candidate_step reader p e st = Continue st'"
  shows "floor_held f0 opened (es @ [e]) st'"
proof -
  have H: "length (cd_completed st) = length opened" "length (cd_watches st) = length opened"
      "cd_outbound st = controls (cd_completed st)"
    using inv len by (simp_all add: candidate_inv_def handles_def)
  then have S: "floor_step e st st'" by (intro candidate_step_floor [OF step]) simp_all
  have now: "(cd_inbound_open st', cd_floor st') = fold note_caller (es @ [e]) (True, f0)"
    using S held by (simp add: floor_step_def floor_held_def)
  have raised: "cd_floor st' = cd_floor st \<or> cd_floor st' \<noteq> f0"
  proof -
    have "cd_floor st' = cd_floor st \<or> f32_lt (cd_floor st) (cd_floor st')"
      using S note_caller_floor [of e "(cd_inbound_open st, cd_floor st)"] by (metis floor_step_def snd_conv)
    moreover have "cd_floor st = f0 \<or> f32_lt f0 (cd_floor st)"
      using held fold_caller_floor [of es "(True, f0)"] by (metis floor_held_def snd_conv)
    ultimately show ?thesis by (metis f32_lt_irrefl floor_trans)
  qed
  have "cd_watches st' ! i = (if cd_floor st' = f0 then opened ! i else FloorUpdate (cd_floor st'))"
    if "i < length opened" "\<not> cd_completed st' ! i" for i
  proof -
    have i: "\<not> cd_completed st ! i" using S H(1) that by (auto simp: floor_step_def)
    show ?thesis
    proof (cases "cd_floor st' = cd_floor st")
      case True
      then have "cd_watches st' = cd_watches st" using S by (simp add: floor_step_def)
      with True held i that(1) show ?thesis by (simp add: floor_held_def)
    next
      case False
      then have "cd_watches st' = broadcast (cd_floor st') (cd_completed st) (cd_watches st)"
        using S by (simp add: floor_step_def)
      with False raised i that(1) H(1,2) show ?thesis by (simp add: broadcast_def)
    qed
  qed
  with now show ?thesis unfolding floor_held_def by blast
qed

text \<open>
  As long as the stream runs, the coordinator holds the greatest floor the caller has sent, and the newest
  request of every shard that has not completed is that floor, or its start request when none was raised.
\<close>

lemma floor_forwarded:
  assumes "continues reader p (candidate_initial fp p start opened m) es st"
    and "length opened = length (pinned_shards p)"
  shows "floor_held (first_floor start) opened es st \<and> candidate_inv fp p es st"
  using assms(1)
proof induction
  case started
  show ?case
    using candidate_initial_inv [OF assms(2)]
    by (simp add: floor_held_def candidate_initial_def first_floor_def)
next
  case (went_on es st e st')
  then show ?case
    using floor_held_step [OF _ _ assms(2)] candidate_step_inv by blast
qed

section \<open>Exhaustiveness\<close>

definition offers_of :: "nat \<Rightarrow> candidate_event list \<Rightarrow> (u64 \<times> f32) list" where
  "offers_of i es = offered (filter (offers_from i) es)"

text \<open>
  A shard with these rows is honest: it offers only rows of its own, and when it completes it has withheld
  only rows below the floor the coordinator shows it by then.
\<close>

definition honest_shard :: "(u64 \<times> f32) list \<Rightarrow> f32 \<Rightarrow> nat \<Rightarrow> candidate_event list \<Rightarrow> bool" where
  "honest_shard rows f0 i es \<longleftrightarrow>
     set (offers_of i es) \<subseteq> set rows \<and>
     (\<forall>k < length es. shard_finishes i (es ! k) \<longrightarrow>
        list_all (\<lambda>row. f32_ge (snd row) (caller_floor f0 (take k es)) \<longrightarrow> row \<in> set (offers_of i (take k es))) rows)"

lemma offered_from:
  assumes "row \<in> set (offered es)" and "list_all (ranked n) es"
  shows "\<exists>i < n. row \<in> set (offers_of i es)"
proof -
  obtain e where e: "e \<in> set es" "row \<in> set (offered_by e)" using assms(1) by (auto simp: offered_def)
  then obtain i b where shard: "e = FromShard (EvMessage i (Some (Batch b)))"
    by (cases e rule: offered_by.cases) auto
  then have "row \<in> set (offers_of i es)" using e by (auto simp: offers_of_def offered_def intro!: bexI [of _ e])
  moreover have "i < n" using assms(2) e(1) shard by (auto simp: list_all_iff)
  ultimately show ?thesis by blast
qed

lemma offers_of_offered: "set (offers_of i es) \<subseteq> set (offered es)"
  by (auto simp: offers_of_def offered_def)

lemma offers_of_append: "offers_of i (es @ fs) = offers_of i es @ offers_of i fs"
  by (simp add: offers_of_def)

lemma honest_complete:
  assumes honest: "honest_shard rows f0 i (consumed @ rest)"
    and once: "length (filter (shard_finishes i) consumed) = 1"
    and row: "row \<in> set rows" "f32_ge (snd row) (caller_floor f0 consumed)"
  shows "row \<in> set (offered consumed)"
proof -
  have "filter (shard_finishes i) consumed \<noteq> []" using once by auto
  then obtain k where k: "k < length consumed" "shard_finishes i (consumed ! k)"
    by (auto simp: filter_empty_conv in_set_conv_nth)
  have split: "take k consumed @ drop k consumed = consumed" by simp
  have "f32_ge (snd row) (caller_floor f0 (take k consumed))"
    using above_earlier_floor [of f0 "take k consumed" "drop k consumed" "snd row"] row(2) split by simp
  moreover have "\<forall>row \<in> set rows. f32_ge (snd row) (caller_floor f0 (take k consumed)) \<longrightarrow>
      row \<in> set (offers_of i (take k consumed))"
  proof -
    have at: "(consumed @ rest) ! k = consumed ! k" "take k (consumed @ rest) = take k consumed"
        "k < length (consumed @ rest)"
      using k(1) by (simp_all add: nth_append)
    have "\<forall>j < length (consumed @ rest). shard_finishes i ((consumed @ rest) ! j) \<longrightarrow>
        (\<forall>row \<in> set rows. f32_ge (snd row) (caller_floor f0 (take j (consumed @ rest))) \<longrightarrow>
           row \<in> set (offers_of i (take j (consumed @ rest))))"
      using honest unfolding honest_shard_def list_all_iff by (rule conjunct2)
    from this [rule_format, OF at(3)] k(2) show ?thesis unfolding at(1,2) by blast
  qed
  ultimately have "row \<in> set (offers_of i (take k consumed))"
    using row(1) by blast
  then have "row \<in> set (offered (take k consumed @ drop k consumed))"
    using offers_of_offered [of i "take k consumed"] by (auto simp del: append_take_drop_id)
  then show ?thesis unfolding split .
qed


section \<open>A concrete run\<close>

text \<open>The first shard withholds its row of 0.5 after the caller has asked for 1.0.\<close>

fun example_shard_rows :: "nat \<Rightarrow> (u64 \<times> f32) list" where
  "example_shard_rows 0 = [(7, F32 0x40400000), (8, F32 0x3F000000)]"
| "example_shard_rows _ = [(9, F32 0x40000000)]"

lemma example_floors:
  "f32_ge (F32 0x40400000) (F32 0x3F800000)" "f32_ge (F32 0x40000000) (F32 0x3F800000)"
  "\<not> f32_ge (F32 0x3F000000) (F32 0x3F800000)"
  by code_simp+

lemma example_honest:
  "i < 2 \<Longrightarrow> honest_shard (example_shard_rows i) (first_floor start_example) i example_stream"
  by (auto simp: honest_shard_def example_stream_def example_offer_def example_summary_def numeral_eq_Suc less_Suc_eq
      offers_of_def finishes_def caller_floor_def first_floor_def start_example_def example_floors example_scores)

lemma example_asked: "caller_floor (first_floor start_example) example_stream = F32 0x3F800000"
  by (simp add: example_stream_def example_offer_def example_summary_def caller_floor_def first_floor_def
      start_example_def example_floors example_scores)


end
