(* ===== verification/Score_Space.thy ===== *)
theory Score_Space
  imports Candidate_Stream Fixed_Width
begin

text \<open>
  The score-space fingerprint of a collection: the encoding \<open>collection_scoring_fingerprint\<close> hashes is
  injective in the dimension, the bit width and the calibration, and its hexadecimal form in the digest, so
  that two collections carry one fingerprint exactly when their scores are comparable, hash collisions apart.
\<close>

section \<open>The hexadecimal digest\<close>

definition unhex_digit :: "char \<Rightarrow> nat" where
  "unhex_digit c = (if of_char c < (58 :: nat) then of_char c - 48 else of_char c - 87)"

definition unhex_byte :: "string \<Rightarrow> u8" where
  "unhex_byte cs = word_of_nat (16 * unhex_digit (cs ! 0) + unhex_digit (cs ! 1))"

lemma unhex_nibble_char: "d < 16 \<Longrightarrow> unhex_digit (nibble_char d) = d"
  by (simp add: unhex_digit_def nibble_char_def of_char_digit_char)

interpretation hex_bytes: fixed_width hex_byte unhex_byte 2
proof
  show "length (hex_byte b) = 2" for b by (simp add: hex_byte_def)
  show "unhex_byte (hex_byte b) = b" for b
  proof -
    have "unat b < 256" using unsigned_less [of b, where 'a = nat] by simp
    then have "unat b div 16 < 16" by (simp add: div_less_iff_less_mult)
    then show ?thesis
      by (simp add: unhex_byte_def hex_byte_def unhex_nibble_char)
  qed
qed simp

section \<open>The encoding\<close>

text \<open>What scores depend on: dimension, bit width (of the first shard; the shards agree) and calibration.\<close>

definition score_space :: "pinned \<Rightarrow> nat \<times> u32 \<times> calibration" where
  "score_space p =
     (pinned_dim p, case pinned_shards p of [] \<Rightarrow> 0 | shard # _ \<Rightarrow> info_bit_width (probe_info shard),
      pinned_calibration p)"

text \<open>Sizes are \<open>usize\<close> and the calibration state an \<open>i32\<close>.\<close>

definition in_machine_range :: "pinned \<Rightarrow> bool" where
  "in_machine_range p \<longleftrightarrow>
     pinned_dim p < 2 ^ 64 \<and> - (2 ^ 31) \<le> cal_state (pinned_calibration p) \<and>
     cal_state (pinned_calibration p) < 2 ^ 31 \<and>
     length (tqplus_shift (pinned_calibration p)) < 2 ^ 64 \<and> length (tqplus_scale (pinned_calibration p)) < 2 ^ 64"

lemma as_u64_inject: "a < 2 ^ 64 \<Longrightarrow> b < 2 ^ 64 \<Longrightarrow> as_u64 a = as_u64 b \<longleftrightarrow> a = b"
  using unat_as_u64 by metis

lemma i32_bytes_inject:
  assumes "- (2 ^ 31) \<le> i" "i < 2 ^ 31" "- (2 ^ 31) \<le> j" "j < 2 ^ 31"
  shows "i32_to_le_bytes i = i32_to_le_bytes j \<longleftrightarrow> i = j"
proof -
  have signed: "sint (word_of_int k :: u32) = k" if "- (2 ^ 31) \<le> k \<and> k < 2 ^ 31" for k
    using that by (simp add: signed_of_int signed_take_bit_int_eq_self)
  have "(word_of_int i :: u32) = word_of_int j \<longleftrightarrow> i = j"
    using assms signed [of i] signed [of j] by metis
  then show ?thesis by (simp add: i32_to_le_bytes_def u32_bytes.to_bytes_inject)
qed

lemma coordinate_prefix:
  assumes "length xs < 2 ^ 64" and "length ys < 2 ^ 64"
  shows "coordinate_bytes xs @ r = coordinate_bytes ys @ s \<longleftrightarrow> xs = ys \<and> r = s"
proof -
  have eq: "coordinate_bytes zs = u64_to_le_bytes (as_u64 (length zs)) @ concat (map f32_to_le_bytes zs)" for zs
    by (simp add: coordinate_bytes_def f32_to_le_bytes_def [abs_def])
  have "coordinate_bytes xs @ r = coordinate_bytes ys @ s \<longleftrightarrow>
      length xs = length ys \<and>
      concat (map f32_to_le_bytes xs) @ r = concat (map f32_to_le_bytes ys) @ s"
    using as_u64_inject [OF assms] by (simp add: eq u64_bytes.length_to_bytes u64_bytes.to_bytes_inject)
  then show ?thesis
    using f32_bytes.encoded_prefix [of xs ys r s] by blast
qed

lemma score_encoding_inject:
  assumes "in_machine_range p" and "in_machine_range q"
  shows "score_encoding p = score_encoding q \<longleftrightarrow> score_space p = score_space q"
proof -
  let ?c = "pinned_calibration p" and ?d = "pinned_calibration q"
  have dim: "as_u64 (pinned_dim p) = as_u64 (pinned_dim q) \<longleftrightarrow> pinned_dim p = pinned_dim q"
    using assms by (intro as_u64_inject) (simp_all add: in_machine_range_def)
  have state: "i32_to_le_bytes (cal_state ?c) = i32_to_le_bytes (cal_state ?d) \<longleftrightarrow> cal_state ?c = cal_state ?d"
    using assms by (intro i32_bytes_inject) (simp_all add: in_machine_range_def)
  have len: "length (i32_to_le_bytes i) = 4" for i
    by (simp add: i32_to_le_bytes_def u32_bytes.length_to_bytes)
  have coords: "coordinate_bytes (tqplus_shift ?c) @ coordinate_bytes (tqplus_scale ?c) =
      coordinate_bytes (tqplus_shift ?d) @ coordinate_bytes (tqplus_scale ?d) \<longleftrightarrow>
      tqplus_shift ?c = tqplus_shift ?d \<and> tqplus_scale ?c = tqplus_scale ?d"
    using assms coordinate_prefix [of "tqplus_shift ?c" "tqplus_shift ?d"]
      coordinate_prefix [of "tqplus_scale ?c" "tqplus_scale ?d" "[]" "[]"]
    by (simp add: in_machine_range_def)
  have "?c = ?d \<longleftrightarrow> cal_state ?c = cal_state ?d \<and> tqplus_shift ?c = tqplus_shift ?d \<and> tqplus_scale ?c = tqplus_scale ?d"
    by (cases ?c; cases ?d) simp
  then show ?thesis
    by (simp add: score_encoding_def score_space_def u64_bytes.length_to_bytes u64_bytes.to_bytes_inject
        u32_bytes.length_to_bytes u32_bytes.to_bytes_inject len dim state coords)
qed

text \<open>
  C39. The scoring fingerprint names the score space: two pinned collections whose encodings the hash does not
  confuse have one fingerprint exactly when they agree on the dimension, the bit width and every bit of the
  calibration. The length before each coordinate array keeps shift and scale apart.
\<close>

theorem fingerprint_names_score_space:
  assumes "in_machine_range p" and "in_machine_range q"
    and "sha256 (score_encoding p) = sha256 (score_encoding q) \<Longrightarrow> score_encoding p = score_encoding q"
  shows "collection_scoring_fingerprint sha256 p = collection_scoring_fingerprint sha256 q \<longleftrightarrow>
    score_space p = score_space q"
proof -
  have "collection_scoring_fingerprint sha256 p = collection_scoring_fingerprint sha256 q \<longleftrightarrow>
      sha256 (score_encoding p) = sha256 (score_encoding q)"
    unfolding collection_scoring_fingerprint_def by (metis hex_bytes.decode_encoded)
  with assms(3) score_encoding_inject [OF assms(1,2)] show ?thesis by metis
qed

text \<open>One coordinate moved from the shift to the scale is another score space.\<close>

definition calibrated :: "f32 list \<Rightarrow> f32 list \<Rightarrow> pinned" where
  "calibrated shift scale =
     \<lparr>pinned_generation = 1, pinned_shards = [], pinned_dim = 2, pinned_rows = 0,
      pinned_calibration = \<lparr>cal_state = 1, tqplus_shift = shift, tqplus_scale = scale\<rparr>\<rparr>"

theorem fingerprint_names_score_space_witness:
  "collection_scoring_fingerprint (\<lambda>bs. bs) (calibrated [F32 1, F32 2] []) \<noteq>
     collection_scoring_fingerprint (\<lambda>bs. bs) (calibrated [F32 1] [F32 2])"
proof -
  have range: "in_machine_range (calibrated [F32 1, F32 2] [])" "in_machine_range (calibrated [F32 1] [F32 2])"
    by (simp_all add: in_machine_range_def calibrated_def)
  show ?thesis
    using fingerprint_names_score_space [OF range, of "\<lambda>bs. bs"] by (simp add: score_space_def calibrated_def)
qed

end
