(* ===== verification/Channels.thy ===== *)
theory Channels
  imports Node_Table
begin

text \<open>
  The coordinator's channel cache: \<^verbatim>\<open>channel\<close> in \<^verbatim>\<open>src/src/coordinator/mod.rs\<close>. A channel is made lazily and
  kept per address, so dialing an address answers the same at every call; the models of the calls to nodes
  take that answer as a function of the address.
\<close>

text \<open>\<open>endpoint\<close> is \<open>Endpoint::from_shared\<close> with its options and \<open>connect_lazy\<close>.\<close>

definition channel ::
    "(string \<Rightarrow> string + 'c) \<Rightarrow> string \<Rightarrow> (string \<rightharpoonup> 'c) \<Rightarrow> (status + 'c) \<times> (string \<rightharpoonup> 'c)" where
  "channel endpoint address cache =
     (case cache address of
        Some c \<Rightarrow> (Inr c, cache)
      | None \<Rightarrow>
          (case endpoint address of
             Inl e \<Rightarrow>
               (Inl (invalid NODE_UNREACHABLE
                 [Lit ''node address '', Lit address, Lit '' is not a valid endpoint: '', Lit e]), cache)
           | Inr c \<Rightarrow> (Inr c, cache(address \<mapsto> c))))"

definition made_by :: "(string \<Rightarrow> string + 'c) \<Rightarrow> (string \<rightharpoonup> 'c) \<Rightarrow> bool" where
  "made_by endpoint cache \<longleftrightarrow> (\<forall>a c. cache a = Some c \<longrightarrow> endpoint a = Inr c)"

lemma channel_fresh:
  "made_by endpoint cache \<Longrightarrow> fst (channel endpoint address cache) = fst (channel endpoint address Map.empty)"
  by (auto simp: channel_def made_by_def split: option.splits sum.splits)

lemma made_by_channel: "made_by endpoint cache \<Longrightarrow> made_by endpoint (snd (channel endpoint address cache))"
  by (auto simp: channel_def made_by_def split: option.splits sum.splits)

fun channels ::
    "(string \<Rightarrow> string + 'c) \<Rightarrow> string list \<Rightarrow> (string \<rightharpoonup> 'c) \<Rightarrow> (status + 'c) list \<times> (string \<rightharpoonup> 'c)" where
  "channels endpoint [] cache = ([], cache)"
| "channels endpoint (a # as) cache =
     (case channel endpoint a cache of (r, cache') \<Rightarrow>
        (case channels endpoint as cache' of (rs, cache'') \<Rightarrow> (r # rs, cache'')))"

text \<open>Whatever was dialed before, every answer is the one of the address alone.\<close>

lemma channels_by_address:
  "made_by endpoint cache \<Longrightarrow>
     fst (channels endpoint as cache) = map (\<lambda>a. fst (channel endpoint a Map.empty)) as"
proof (induction "as" arbitrary: cache)
  case Nil
  then show ?case by simp
next
  case (Cons a as')
  obtain r cache' where "channel endpoint a cache = (r, cache')" by fastforce
  with channel_fresh [OF Cons.prems, of a] made_by_channel [OF Cons.prems, of a] Cons.IH [of cache'] show ?case
    by (simp add: case_prod_beta)
qed

end
