(* ===== verification/Node_Surfaces.thy ===== *)
theory Node_Surfaces
  imports Node_Scan Observability
begin

text \<open>
  The two capability surfaces a node offers (\<^verbatim>\<open>TurboVecQuery\<close> and \<^verbatim>\<open>TurboVecAdmin\<close> in
  \<^verbatim>\<open>src/src/service.rs\<close>): each method delegates to the handler of the same name. The query surface only
  reads, so a history of calls has the effect of its administrative part.
\<close>

text \<open>\<open>search_stream\<close>: the results of \<open>search\<close>, one message each.\<close>

definition search_stream ::
    "service_limits \<Rightarrow> ('q, 'm) engine \<Rightarrow> search_request \<Rightarrow> ('q, 'm) index_store \<Rightarrow> world
     \<Rightarrow> ('q, 'm, (status + query_result) list) handled" where
  "search_stream limits eng req st w = replying (map Inr) (node_search limits eng req st w)"

datatype query_call =
    QueryIndexInfo string
  | QueryListIndexes
  | QuerySearch search_request
  | QuerySearchStream search_request
  | QueryStreamSearch "stream_search_request option option"
  | QueryCalibration string

datatype ('q, 'm) query_reply =
    Answered node_reply
  | Streamed "(status + query_result) list"
  | ScanOpened start_stream_search "('q, 'm) index" "u64 list option" f32

fun query_service ::
    "service_limits \<Rightarrow> ('q, 'm) engine \<Rightarrow> query_call \<Rightarrow> ('q, 'm) index_store \<Rightarrow> world
     \<Rightarrow> ('q, 'm, ('q, 'm) query_reply) handled" where
  "query_service limits eng (QueryIndexInfo sid) st w =
     replying (\<lambda>info. Answered (Described info)) (get_index_info eng sid st w)"
| "query_service limits eng QueryListIndexes st w = replying (\<lambda>infos. Answered (Listed infos)) (list_indexes eng st w)"
| "query_service limits eng (QuerySearch req) st w =
     replying (\<lambda>rs. Answered (Found rs)) (node_search limits eng req st w)"
| "query_service limits eng (QuerySearchStream req) st w = replying Streamed (search_stream limits eng req st w)"
| "query_service limits eng (QueryStreamSearch first) st w =
     (answer_of (checked (map_sum id (\<lambda>(start, ix, labels, floor). ScanOpened start ix labels floor)
        (stream_start limits st first))), st, w)"
| "query_service limits eng (QueryCalibration sid) st w =
     replying (\<lambda>c. Answered (CalibrationPair c)) (get_calibration eng sid st w)"

text \<open>What the administrative surface offers; it lacks the others.\<close>

fun administrative :: "node_call \<Rightarrow> bool" where
  "administrative (GetIndexInfo _) = False"
| "administrative ListIndexes = False"
| "administrative (SearchRows _) = False"
| "administrative (GetCalibration _) = False"
| "administrative _ = True"

definition admin_service ::
    "service_limits \<Rightarrow> shard_env \<Rightarrow> ('q, 'm) codec \<Rightarrow> ('q, 'm) engine \<Rightarrow> node_call
     \<Rightarrow> ('q, 'm) index_store \<Rightarrow> world \<Rightarrow> ('q, 'm, node_reply) handled option" where
  "admin_service limits env cod eng call st w =
     (if administrative call then Some (node_step limits env cod eng call st w) else None)"

lemma query_reads_only: "snd (query_service limits eng call st w) = (st, w)"
  by (cases "(limits, eng, call, st, w)" rule: query_service.cases)
    (simp_all add: get_index_info_def list_indexes_def node_search_def search_stream_def get_calibration_def)

lemma answer_of_lives: "answer_of r \<noteq> Died"
  by (cases r rule: answer_of.cases) simp_all

lemma map_answer_Died: "map_answer f a = Died \<longleftrightarrow> a = Died"
  by (cases a) simp_all

lemma query_lives: "fst (query_service limits eng call st w) \<noteq> Died"
  by (cases "(limits, eng, call, st, w)" rule: query_service.cases)
    (simp_all add: get_index_info_def list_indexes_def node_search_def search_stream_def get_calibration_def
      answer_of_lives map_answer_Died)

text \<open>Calls on both surfaces, until the process dies: the answers of the administrative ones, and the end state.\<close>

fun surfaces_run ::
    "service_limits \<Rightarrow> ('q, 'm) codec \<Rightarrow> ('q, 'm) engine \<Rightarrow> (query_call + shard_env \<times> node_call) list
     \<Rightarrow> ('q, 'm) index_store \<Rightarrow> world \<Rightarrow> node_reply answer list \<times> ('q, 'm) index_store \<times> world" where
  "surfaces_run limits cod eng [] st w = ([], st, w)"
| "surfaces_run limits cod eng (Inl q # calls) st w =
     (case query_service limits eng q st w of
        (Died, rest) \<Rightarrow> ([], rest)
      | (_, st', w') \<Rightarrow> surfaces_run limits cod eng calls st' w')"
| "surfaces_run limits cod eng (Inr (env, call) # calls) st w =
     (case admin_service limits env cod eng call st w of
        None \<Rightarrow> surfaces_run limits cod eng calls st w
      | Some (Died, rest) \<Rightarrow> ([Died], rest)
      | Some (a, st', w') \<Rightarrow>
          (case surfaces_run limits cod eng calls st' w' of (as, rest) \<Rightarrow> (a # as, rest)))"

definition admin_part :: "(query_call + shard_env \<times> node_call) list \<Rightarrow> (shard_env \<times> node_call) list" where
  "admin_part calls = concat (map (\<lambda>c. case c of Inl _ \<Rightarrow> [] | Inr (env, call) \<Rightarrow>
     if administrative call then [(env, call)] else []) calls)"

text \<open>
  The query surface cannot interfere: whatever calls arrive on the two surfaces in whatever order, the
  administrative callers get the answers, and the registry and the disk end in the state, of the history in
  which the query calls were never made.
\<close>

theorem query_surface_never_interferes:
  shows "surfaces_run limits cod eng calls st w = node_run limits cod eng (admin_part calls) st w"
proof (induction calls arbitrary: st w)
  case Nil
  then show ?case by (simp add: admin_part_def)
next
  case (Cons c calls)
  show ?case
  proof (cases c)
    case (Inl q)
    obtain a where "query_service limits eng q st w = (a, st, w)" "a \<noteq> Died"
      using query_reads_only [of limits eng q st w] query_lives [of limits eng q st w] by (metis prod.collapse)
    with Cons.IH Inl show ?thesis by (cases a) (simp_all add: admin_part_def)
  next
    case (Inr x)
    obtain env call where x: "x = (env, call)" by (cases x)
    with Cons.IH Inr show ?thesis
      by (auto simp: admin_part_def admin_service_def split: answer.splits prod.splits)
  qed
qed

section \<open>What a scan counts\<close>

text \<open>
  The counters at the end of a streamed scan: a completed summary and a failed scan count, a protocol error
  ends the stream before either does. The guard of the active scan is dropped with the blocking task.
\<close>

definition count_scan :: "status option \<Rightarrow> status + stream_search_summary \<Rightarrow> metrics \<Rightarrow> metrics" where
  "count_scan protocol_error outcome m =
     (case protocol_error of
        Some _ \<Rightarrow> scan_dropped m
      | None \<Rightarrow>
          (case outcome of
             Inr s \<Rightarrow> node_search_finished (summary_emitted s) (summary_blocks_scanned s) (scan_dropped m)
           | Inl _ \<Rightarrow> search_failed (scan_dropped m)))"

lemma scan_gauge_balanced: "mt_active_scans (count_scan e outcome (scan_started m)) = mt_active_scans m"
  by (simp add: count_scan_def scan_started_def scan_dropped_def node_search_finished_def search_failed_def
      split: option.splits sum.splits)

text \<open>A stream that ends with the error of a NaN floor leaves the error counter as it was.\<close>

lemma protocol_error_not_counted:
  "mt_search_errors (count_scan (Some e) outcome (scan_started m)) = mt_search_errors m"
  by (simp add: count_scan_def scan_started_def scan_dropped_def)

text \<open>
  The counters of a unary search that was admitted: its rows are added to the candidates of the streamed
  scans, and a search that ends with an error is not counted.
\<close>

definition count_search :: "status failure + query_result list \<Rightarrow> metrics \<Rightarrow> metrics" where
  "count_search outcome m =
     (case outcome of
        Inl _ \<Rightarrow> scan_dropped m
      | Inr results \<Rightarrow>
          node_search_finished (sum_list (map (\<lambda>r. as_u64 (length (qr_scores r))) results)) 0 (scan_dropped m))"

lemma unary_search_counts:
  "mt_search_errors (count_search outcome (scan_started m)) = mt_search_errors m"
  "mt_candidates_emitted (count_search (Inr results) (scan_started m)) =
     mt_candidates_emitted m + sum_list (map (\<lambda>r. as_u64 (length (qr_scores r))) results)"
  by (simp_all add: count_search_def scan_started_def scan_dropped_def node_search_finished_def
      split: sum.splits)

end
