(* ===== verification/Host.thy ===== *)
theory Host
  imports Config
begin

text \<open>
  What the two executables (\<^verbatim>\<open>src/src/main.rs\<close>, \<^verbatim>\<open>src/src/coordinator_main.rs\<close>) ask of the machine they
  start on: environment variables, socket addresses, the metrics listener and the number of processors.
\<close>

text \<open>\<open>std::env::var(name).unwrap_or_else(|_| ...)\<close>.\<close>

definition env_or :: "environment \<Rightarrow> string \<Rightarrow> string \<Rightarrow> string" where
  "env_or env name fallback = (case env name of Present s \<Rightarrow> s | _ \<Rightarrow> fallback)"

text \<open>
  The machine: socket addresses of type \<open>'a\<close>, the error of binding the metrics listener, and the raw text of
  a variable that is not Unicode.
\<close>

record 'a host =
  parse_socket :: "string \<Rightarrow> string + 'a"
  show_socket :: "'a \<Rightarrow> string"
  unspecified_ip :: "'a \<Rightarrow> bool"
  bind_error :: "'a \<Rightarrow> string option"
  raw_value :: "string \<Rightarrow> string"
  processors :: "nat option"

text \<open>\<open>std::env::var_os\<close>.\<close>

definition env_os :: "'a host \<Rightarrow> environment \<Rightarrow> string \<Rightarrow> string option" where
  "env_os h env name =
     (case env name of Present s \<Rightarrow> Some s | NotPresent \<Rightarrow> None | NotUnicode _ \<Rightarrow> Some (raw_value h name))"

definition socket_address :: "'a host \<Rightarrow> string \<Rightarrow> message + 'a" where
  "socket_address h s = (case parse_socket h s of Inl e \<Rightarrow> Inl [Lit e] | Inr a \<Rightarrow> Inr a)"

definition start_metrics :: "'a host \<Rightarrow> environment \<Rightarrow> message + unit" where
  "start_metrics h env =
     (case env_os h env ''TURBOVEC_METRICS_ADDR'' of
        None \<Rightarrow> Inr ()
      | Some s \<Rightarrow>
          rbind (socket_address h s) (\<lambda>a.
            case bind_error h a of Some e \<Rightarrow> Inl [Lit e] | None \<Rightarrow> Inr ()))"

definition DEFAULT_MAX_MESSAGE_BYTES :: nat where
  "DEFAULT_MAX_MESSAGE_BYTES = 16 * 1024 * 1024"

definition max_message_bytes :: "environment \<Rightarrow> message + nat" where
  "max_message_bytes env = positive_usize env ''TURBOVEC_MAX_MESSAGE_BYTES'' DEFAULT_MAX_MESSAGE_BYTES"

end
