(* ===== verification/Node_Lifecycle.thy ===== *)
theory Node_Lifecycle
  imports Host Node_Properties
begin

text \<open>
  The node executable (\<^verbatim>\<open>src/src/main.rs\<close>): what it needs to start, the address it announces, and its orderly
  end, which persists every shard. The lemmas follow the registry through an orderly end and the next start.
\<close>

section \<open>Starting\<close>

text \<open>
  The data root is opened, or the operator has asked for a node that keeps nothing.
\<close>

definition open_data_dir ::
    "'a host \<Rightarrow> environment \<Rightarrow> bool \<Rightarrow> shard_env \<Rightarrow> ('q, 'm) codec \<Rightarrow> ('q, 'm) engine \<Rightarrow> ('q, 'm) index_store action" where
  "open_data_dir h env ephemeral senv cod eng =
     (case env_os h env ''TURBOVEC_DATA_DIR'' of
        Some root \<Rightarrow> store_open senv cod eng root
      | None \<Rightarrow>
          if ephemeral then done_with (empty_store None)
          else fail_with [Lit ''TURBOVEC_DATA_DIR is required; set TURBOVEC_ALLOW_EPHEMERAL=true only for demos''])"

definition advertise_address :: "'a host \<Rightarrow> environment \<Rightarrow> 'a \<Rightarrow> message + string" where
  "advertise_address h env listen =
     (case env ''TURBOVEC_ADVERTISE_ADDR'' of
        Present s \<Rightarrow>
          if trim s = [] then Inl [Lit ''TURBOVEC_ADVERTISE_ADDR is set but empty''] else Inr (trim s)
      | _ \<Rightarrow>
          if unspecified_ip h listen then
            Inl [Lit ''cannot self-register: the listen address '', Lit (show_socket h listen),
              Lit '' is unspecified, so it is not a name the coordinator can dial back; set TURBOVEC_ADVERTISE_ADDR to this node's reachable host:port'']
          else Inr (show_socket h listen))"

text \<open>The coordinator to announce to, the address announced, and the period.\<close>

definition announcement :: "'a host \<Rightarrow> environment \<Rightarrow> 'a \<Rightarrow> message + (string \<times> string \<times> nat) option" where
  "announcement h env listen =
     (case env ''TURBOVEC_COORD_ADDR'' of
        Present coordinator \<Rightarrow>
          rbind (advertise_address h env listen) (\<lambda>advertise.
          rbind (positive_usize env ''TURBOVEC_REGISTER_INTERVAL_MS'' 30000) (\<lambda>interval.
          Inr (Some (with_scheme coordinator, advertise, interval))))
      | _ \<Rightarrow> Inr None)"

record ('q, 'm) node =
  nd_store :: "('q, 'm) index_store"
  nd_limits :: service_limits
  nd_message_bytes :: nat
  nd_announces :: "(string \<times> string \<times> nat) option"

text \<open>The start, in the order of \<open>main\<close>; a failed assertion on the limits takes the process with it.\<close>

definition node_start ::
    "'a host \<Rightarrow> environment \<Rightarrow> shard_env \<Rightarrow> ('q, 'm) codec \<Rightarrow> ('q, 'm) engine \<Rightarrow> ('q, 'm) node action" where
  "node_start h env senv cod eng =
     and_then (lift_result (socket_address h (env_or env ''TURBOVEC_GRPC_ADDR'' ''0.0.0.0:50051''))) (\<lambda>listen.
     and_then (lift_result (enabled env ''TURBOVEC_ALLOW_EPHEMERAL'')) (\<lambda>ephemeral.
     and_then (open_data_dir h env ephemeral senv cod eng) (\<lambda>st.
     and_then (lift_result (limits_from_env env (processors h))) (\<lambda>limits.
     and_then (lift_result (max_message_bytes env)) (\<lambda>n_bytes.
     and_then (lift_result (start_metrics h env)) (\<lambda>_.
     and_then (case with_limits_and_metrics limits of Inl _ \<Rightarrow> (\<lambda>w. (Crashed, w)) | Inr lims \<Rightarrow> done_with lims) (\<lambda>lims.
     and_then (lift_result (announcement h env listen)) (\<lambda>announces.
     done_with \<lparr>nd_store = st, nd_limits = lims, nd_message_bytes = n_bytes, nd_announces = announces\<rparr>))))))))"

section \<open>The orderly end\<close>

text \<open>
  After the server has stopped: every shard of a persistent node is persisted; a failure of that comes
  before the server's own. \<open>served\<close> is the result of serving.
\<close>

definition node_shutdown ::
    "shard_env \<Rightarrow> ('q, 'm) codec \<Rightarrow> ('q, 'm) engine \<Rightarrow> (string \<Rightarrow> string \<times> string) \<Rightarrow> message + unit
     \<Rightarrow> ('q, 'm) index_store \<Rightarrow> world \<Rightarrow> unit run \<times> ('q, 'm) index_store \<times> world" where
  "node_shutdown senv cod eng uuids served st w =
     (let result = (case served of Inl e \<Rightarrow> Error e | Inr _ \<Rightarrow> Done ()) in
      if reg_root st = None then (result, st, w)
      else
        (case persist_all senv cod eng uuids st w of
           (Done _, rest) \<Rightarrow> (result, rest)
         | (Error m, rest) \<Rightarrow> (Error m, rest)
         | (Crashed, rest) \<Rightarrow> (Crashed, rest)))"

section \<open>Persisting every shard\<close>

text \<open>What a registry knows of one shard, its generation apart.\<close>

abbreviation shard_data ::
    "('q, 'm) index_store \<Rightarrow> string \<Rightarrow> ('q, 'm) index option \<times> u64 list option \<times> ingest_record option" where
  "shard_data st s \<equiv> (store_get s st, store_labels s st, store_ingest s st)"

definition on_disk ::
    "('q, 'm) codec \<Rightarrow> ('q, 'm) engine \<Rightarrow> ('q, 'm) index_store \<Rightarrow> files \<Rightarrow> string \<Rightarrow> bool" where
  "on_disk cod eng st fs s \<longleftrightarrow>
     is_shard_dir s fs \<and>
     (\<exists>ix g. store_get s st = Some ix \<and> store_generation s st = Some g \<and>
        stored_shard cod eng fs s = Some (g, ix, store_labels s st, store_ingest s st))"

lemma persist_each_Done:
  assumes "persist_each env cod eng uuids sids st w = (Done gs, st', w')"
    and "codec_law cod" and "\<forall>s \<in> set sids. label_table_fits (store_labels s st)" and "distinct sids"
  shows "(\<forall>s. shard_data st' s = shard_data st s) \<and> (\<forall>s \<in> set sids. on_disk cod eng st' (w_files w') s) \<and>
    (\<forall>s. s \<notin> set sids \<longrightarrow> store_generation s st' = store_generation s st \<and>
       stored_shard cod eng (w_files w') s = stored_shard cod eng (w_files w) s) \<and>
    (\<forall>s. is_shard_dir s (w_files w) \<longrightarrow> is_shard_dir s (w_files w'))"
  using assms
proof (induction sids arbitrary: st w gs)
  case Nil
  then show ?case by simp
next
  case (Cons sid sids)
  from Cons.prems(1) obtain g st1 w1 gs1 where
    P: "persist env cod eng (fst (uuids sid)) (snd (uuids sid)) sid st w = (Done (g, st1), w1)"
    and rest: "persist_each env cod eng uuids sids st1 w1 = (Done gs1, st', w')"
    by (auto split: prod.splits run.splits)
  have fits: "label_table_fits (store_labels sid st)" using Cons.prems(3) by simp
  from persist_Done [OF Cons.prems(2) fits P] obtain ix where
    D: "store_get sid st = Some ix" "st1 = set_generation sid g st"
      "persist_done cod eng (w_files w) sid (g, ix, store_labels sid st, store_ingest sid st) (w_files w1)"
    by blast
  have IH: "(\<forall>s. shard_data st' s = shard_data st1 s) \<and> (\<forall>s \<in> set sids. on_disk cod eng st' (w_files w') s) \<and>
      (\<forall>s. s \<notin> set sids \<longrightarrow> store_generation s st' = store_generation s st1 \<and>
         stored_shard cod eng (w_files w') s = stored_shard cod eng (w_files w1) s) \<and>
      (\<forall>s. is_shard_dir s (w_files w1) \<longrightarrow> is_shard_dir s (w_files w'))"
    using Cons.prems(2-4) D(2) by (intro Cons.IH [OF rest]) simp_all
  have dirs: "is_shard_dir sid (w_files w1)" "is_shard_dir s (w_files w) \<Longrightarrow> is_shard_dir s (w_files w1)" for s
    using persist_dir [OF P] persist_other_dir [OF P] by blast+
  have others: "stored_shard cod eng (w_files w1) s = stored_shard cod eng (w_files w) s" if "s \<noteq> sid" for s
    using D(3) that same_content_stored unfolding persist_done_def by blast
  have "on_disk cod eng st' (w_files w') sid"
    using IH D dirs(1) Cons.prems(4) by (auto simp: on_disk_def persist_done_def)
  then show ?case
    using IH D(2) dirs(2) others by auto
qed

lemma node_start_store:
  assumes "node_start h env senv cod eng w = (Done node, w')" and "env_os h env ''TURBOVEC_DATA_DIR'' = Some root"
  obtains w1 where "store_open senv cod eng root w = (Done (nd_store node), w1)"
  using assms
  by (auto simp: node_start_def open_data_dir_def split: sum.splits failure.splits elim!: and_then_DoneE)

lemma names_of_registry:
  assumes "distinct (map fst (reg_inner st))"
  shows "distinct (sort_names (map fst (reg_inner st)))"
    and "s \<in> set (sort_names (map fst (reg_inner st))) \<longleftrightarrow> store_get s st \<noteq> None"
  using assms by (auto simp: sort_names_def store_get_def map_of_eq_None_iff)

text \<open>
  C40. An orderly end loses nothing: when a persistent node ends without an error, the next start on a file
  system that does not fail serves every index of the old registry with the same rows, labels and ingest
  record, under the generation the end gave it; whatever else it serves was on disk before.
\<close>

theorem graceful_restart:
  assumes "codec_law cod" and "reg_root st = Some root" and "distinct (map fst (reg_inner st))"
    and "\<forall>s. store_get s st \<noteq> None \<longrightarrow> \<not> tombstoned s \<and> label_table_fits (store_labels s st)"
    and "node_shutdown senv cod eng uuids served st w = (Done (), st', w')"
    and "node_start h env quiet cod eng (w'\<lparr>w_calls := 0\<rparr>) = (Done node, w'')"
    and "env_os h env ''TURBOVEC_DATA_DIR'' = Some root"
  shows "\<forall>s. (store_get s st \<noteq> None \<longrightarrow> shard_data (nd_store node) s = shard_data st s \<and>
        store_generation s (nd_store node) = store_generation s st') \<and>
      (store_get s st = None \<and> store_get s (nd_store node) \<noteq> None \<longrightarrow> stored_shard cod eng (w_files w) s \<noteq> None)"
proof -
  let ?sids = "sort_names (map fst (reg_inner st))"
  obtain gs where "persist_each senv cod eng uuids ?sids st w = (Done gs, st', w')"
    using assms(2,5) by (auto simp: node_shutdown_def persist_all_def Let_def split: prod.splits run.splits sum.splits)
  from persist_each_Done [OF this assms(1)] have P:
    "\<forall>s. shard_data st' s = shard_data st s" "\<forall>s \<in> set ?sids. on_disk cod eng st' (w_files w') s"
    "\<forall>s. s \<notin> set ?sids \<longrightarrow> stored_shard cod eng (w_files w') s = stored_shard cod eng (w_files w) s"
    using assms(3,4) names_of_registry [OF assms(3)] by simp_all
  obtain w1 where O: "store_open quiet cod eng root (w'\<lparr>w_calls := 0\<rparr>) = (Done (nd_store node), w1)"
    by (rule node_start_store [OF assms(6,7)])
  have M: "mirrors_shard cod eng (w_files w') (nd_store node) s" for s
    using store_open_Done(1) [OF O] by (simp add: mirrors_def)
  show ?thesis
  proof (intro allI conjI impI)
    fix s
    assume s: "store_get s st \<noteq> None"
    then have D: "on_disk cod eng st' (w_files w') s" using P(2) names_of_registry [OF assms(3)] by simp
    then have "node_at (w_files w') [s, CURRENT_FILE] \<noteq> None"
      by (auto simp: on_disk_def stored_shard_def current_generation_def file_at_def split: option.splits)
    then have "store_get s (nd_store node) \<noteq> None"
      using store_open_Done(3) [OF O refl, of s] D assms(4) s by (simp add: on_disk_def)
    then have "shard_data (nd_store node) s = shard_data st' s \<and>
        store_generation s (nd_store node) = store_generation s st'"
      using D M [of s] by (auto simp: on_disk_def mirrors_shard_def split: option.splits)
    then show "shard_data (nd_store node) s = shard_data st s" "store_generation s (nd_store node) = store_generation s st'"
      using P(1) by simp_all
  next
    fix s
    assume s: "store_get s st = None \<and> store_get s (nd_store node) \<noteq> None"
    then have "stored_shard cod eng (w_files w') s \<noteq> None"
      using M [of s] by (auto simp: mirrors_shard_def split: option.splits)
    then show "stored_shard cod eng (w_files w) s \<noteq> None"
      using P(3) s names_of_registry [OF assms(3)] by simp
  qed
qed

end
