(* ===== verification/Lifecycle_Examples.thy ===== *)
theory Lifecycle_Examples
  imports Node_Lifecycle Shard_Examples
begin

text \<open>A node with one labelled shard that ends in order and starts again on the same data root.\<close>

definition demo_host :: "string host" where
  "demo_host =
     \<lparr>parse_socket = Inr, show_socket = (\<lambda>a. a), unspecified_ip = (\<lambda>a. a = ''0.0.0.0:50051''), bind_error = (\<lambda>_. None),
      raw_value = (\<lambda>name. name), processors = Some 4\<rparr>"

definition demo_environment :: environment where
  "demo_environment = (\<lambda>name. if name = ''TURBOVEC_DATA_DIR'' then Present ''/d'' else NotPresent)"

definition demo_shutdown :: "unit run \<times> (bytes, unit) index_store \<times> world" where
  "demo_shutdown = node_shutdown quiet demo_codec demo_engine (\<lambda>_. (''t'', ''c'')) (Inr ()) demo_store no_files"

definition demo_start :: "(bytes, unit) node action" where
  "demo_start = node_start demo_host demo_environment quiet demo_codec demo_engine"

lemma demo_shut: "fst demo_shutdown = Done () \<and> fst (snd demo_shutdown) = persisted_store"
  by code_simp

lemma demo_reopened: "fst (demo_open quiet ((snd (snd demo_shutdown))\<lparr>w_calls := 0\<rparr>)) = Done persisted_store"
  by code_simp

lemma demo_starts:
  assumes "demo_open quiet w = (Done st, w')"
  shows "\<exists>node. demo_start w = (Done node, w') \<and> nd_store node = st"
  using assms
  by (simp add: demo_start_def node_start_def demo_open_def demo_host_def demo_environment_def env_or_def env_os_def
      socket_address_def enabled_def open_data_dir_def limits_from_env_def default_service_limits_def positive_usize_def
      env_value_def with_limits_and_metrics_def max_message_bytes_def DEFAULT_MAX_MESSAGE_BYTES_def start_metrics_def
      announcement_def and_then_def lift_result_def done_with_def Let_def)

theorem graceful_restart_witness:
  "\<exists>node w. demo_start ((snd (snd demo_shutdown))\<lparr>w_calls := 0\<rparr>) = (Done node, w) \<and>
     shard_data (nd_store node) ''s'' = (Some (Positional [7, 9]), Some [1, 2], None)"
proof -
  let ?w = "(snd (snd demo_shutdown))\<lparr>w_calls := 0\<rparr>"
  obtain w' where "demo_open quiet ?w = (Done persisted_store, w')"
    using demo_reopened by (metis prod.collapse)
  from demo_starts [OF this] obtain node where start: "demo_start ?w = (Done node, w')" by blast
  have shut: "node_shutdown quiet demo_codec demo_engine (\<lambda>_. (''t'', ''c'')) (Inr ()) demo_store no_files =
      (Done (), persisted_store, snd (snd demo_shutdown))"
    using demo_shut by (metis demo_shutdown_def prod.collapse)
  have names: "\<forall>s. store_get s demo_store \<noteq> None \<longrightarrow> \<not> tombstoned s \<and> label_table_fits (store_labels s demo_store)"
    by (auto simp: store_get_def store_labels_def demo_store_def tombstoned_def label_table_fits_def)
  have root: "reg_root demo_store = Some ''/d''" "distinct (map fst (reg_inner demo_store))"
    "env_os demo_host demo_environment ''TURBOVEC_DATA_DIR'' = Some ''/d''"
    by (simp_all add: demo_store_def env_os_def demo_environment_def)
  have "shard_data (nd_store node) ''s'' = shard_data demo_store ''s''"
    using graceful_restart [OF demo_codec_law root(1,2) names shut start [unfolded demo_start_def] root(3)]
    by (auto simp: store_get_def demo_store_def)
  also have "\<dots> = (Some (Positional [7, 9]), Some [1, 2], None)"
    by (simp add: store_get_def store_labels_def store_ingest_def demo_store_def)
  finally show ?thesis using start by blast
qed

end
