(* ===== verification/Coordinator_Start.thy ===== *)
theory Coordinator_Start
  imports Host Topology Observability
begin

text \<open>
  The coordinator executable (\<^verbatim>\<open>src/src/coordinator_main.rs\<close>) and its limits: where the node table comes from,
  which topology is served, and what a coordinator that has started has been given. The announcements a
  node sends it (\<open>self_register\<close> of \<^verbatim>\<open>src/src/main.rs\<close>) follow.
\<close>

section \<open>The environment\<close>

definition coordinator_limits_from_env :: "environment \<Rightarrow> message + limits" where
  "coordinator_limits_from_env env =
     rbind (positive_usize env ''TURBOVEC_QUERY_TIMEOUT_MS'' (query_timeout_ms default_limits)) (\<lambda>timeout.
     rbind (positive_usize env ''TURBOVEC_MAX_K'' (max_k default_limits)) (\<lambda>k.
     rbind (positive_usize env ''TURBOVEC_MAX_QUERIES'' (max_queries_per_request default_limits)) (\<lambda>q.
     rbind (positive_usize env ''TURBOVEC_MAX_CONCURRENT_QUERIES'' (max_concurrent_queries default_limits)) (\<lambda>c.
     Inr \<lparr>max_k = k, max_queries_per_request = q, max_concurrent_queries = c, query_timeout_ms = timeout\<rparr>))))"

text \<open>\<open>read_file\<close> is \<open>std::fs::read_to_string\<close>.\<close>

definition node_table_from_env :: "environment \<Rightarrow> (string \<Rightarrow> string + string) \<Rightarrow> message failure + node_table" where
  "node_table_from_env env read_file =
     (case env ''TURBOVEC_COORD_NODES'' of
        Present (CHR ''@'' # path) \<Rightarrow>
          (case read_file path of
             Inl e \<Rightarrow> Inl (Failed [Lit ''cannot read the node table at '', Lit path, Lit '': '', Lit e])
           | Inr text \<Rightarrow> parse text)
      | Present configured \<Rightarrow> parse configured
      | _ \<Rightarrow> Inl (Failed [Lit ''TURBOVEC_COORD_NODES is not set: the coordinator needs a node table, either inline ('host:port,host:port') or as '@/path/to/file'', Lit [CHR 0x27]]))"

section \<open>Starting\<close>

text \<open>The topology served: the one of the state file, or a demo's.\<close>

definition open_topology ::
    "'a host \<Rightarrow> environment \<Rightarrow> durable_env \<Rightarrow> node_table \<Rightarrow> limits \<Rightarrow> disk \<Rightarrow> (message failure + coordinator) \<times> disk" where
  "open_topology h env denv table lims d =
     (case env_os h env ''TURBOVEC_COORD_STATE'' of
        Some path \<Rightarrow> with_state_file denv table path lims d
      | None \<Rightarrow>
          (case enabled env ''TURBOVEC_ALLOW_EPHEMERAL'' of
             Inl e \<Rightarrow> (Inl (Failed e), d)
           | Inr True \<Rightarrow> (with_limits table lims, d)
           | Inr False \<Rightarrow>
               (Inl (Failed [Lit ''TURBOVEC_COORD_STATE is required; set TURBOVEC_ALLOW_EPHEMERAL=true only for demos'']), d)))"

definition coordinator_start ::
    "'a host \<Rightarrow> environment \<Rightarrow> (string \<Rightarrow> string + string) \<Rightarrow> durable_env \<Rightarrow> disk
     \<Rightarrow> (message failure + coordinator) \<times> disk" where
  "coordinator_start h env read_file denv d =
     (case rbind (checked (socket_address h (env_or env ''TURBOVEC_COORD_ADDR'' ''0.0.0.0:50050''))) (\<lambda>_.
           rbind (node_table_from_env env read_file) (\<lambda>table.
           rbind (checked (coordinator_limits_from_env env)) (\<lambda>lims.
           rbind (checked (max_message_bytes env)) (\<lambda>_.
           rbind (checked (start_metrics h env)) (\<lambda>_.
           Inr (table, lims)))))) of
        Inl e \<Rightarrow> (Inl e, d)
      | Inr (table, lims) \<Rightarrow> open_topology h env denv table lims d)"

lemma coordinator_limits_valid:
  "coordinator_limits_from_env env = Inr lims \<Longrightarrow>
     0 < max_k lims \<and> 0 < max_queries_per_request lims \<and> 0 < max_concurrent_queries lims \<and> query_timeout_ms lims \<noteq> 0"
  by (auto simp: coordinator_limits_from_env_def dest!: positive_usize_Inr)

lemma from_topology_ok:
  assumes "coordinator_limits_from_env env = Inr lims"
  shows "\<exists>co. from_topology g table spares path lims = Inr co \<and> co_generation co = g \<and> co_shards co = table_shards table \<and>
    co_path co = path \<and> co_limits co = lims"
  using coordinator_limits_valid [OF assms] by (simp add: from_topology_def)

lemma node_table_from_env_ok:
  "node_table_from_env env read_file \<noteq> Inl Panic"
  "node_table_from_env env read_file = Inr table \<Longrightarrow> table_shards table \<noteq> [] \<and> list_all config_ok (table_shards table)"
  using parse_no_panic parse_ok
  by (auto simp: node_table_from_env_def split: env_var.splits list.splits char.splits bool.splits sum.splits)

lemma open_topology_Inr:
  assumes "coordinator_limits_from_env env = Inr lims"
  shows "fst (open_topology h env denv table lims d) \<noteq> Inl Panic"
    and "fst (open_topology h env denv table lims d) = Inr co \<Longrightarrow> co_limits co = lims \<and>
      (case env_os h env ''TURBOVEC_COORD_STATE'' of
         Some path \<Rightarrow> co_path co = Some path \<and> (\<forall>shard \<in> set (co_shards co). cfg_required_generation shard \<noteq> None)
       | None \<Rightarrow> enabled env ''TURBOVEC_ALLOW_EPHEMERAL'' = Inr True \<and> co_path co = None \<and>
           co_generation co = 1 \<and> co_shards co = table_shards table)"
  using coordinator_limits_valid [OF assms]
  by (auto simp: open_topology_def with_state_file_def with_limits_def from_topology_def list_ex_iff
      split: option.splits sum.splits bool.splits prod.splits if_splits)

text \<open>
  A coordinator starts only in one of two ways, and never by a panic: from a state file, which it then
  keeps, with an index and generation required of every shard; or without one because the operator asked
  for a demo, and then it serves exactly the nonempty table it was given as generation 1.
\<close>

theorem coordinator_start_contract:
  shows "case fst (coordinator_start h env read_file denv d) of
      Inl e \<Rightarrow> e \<noteq> Panic
    | Inr co \<Rightarrow>
        coordinator_limits_from_env env = Inr (co_limits co) \<and>
        (case env_os h env ''TURBOVEC_COORD_STATE'' of
           Some path \<Rightarrow> co_path co = Some path \<and> (\<forall>shard \<in> set (co_shards co). cfg_required_generation shard \<noteq> None)
         | None \<Rightarrow> enabled env ''TURBOVEC_ALLOW_EPHEMERAL'' = Inr True \<and> co_path co = None \<and> co_generation co = 1 \<and>
             (\<exists>table. node_table_from_env env read_file = Inr table \<and> table_shards table \<noteq> [] \<and>
                co_shards co = table_shards table))"
proof (cases "coordinator_start h env read_file denv d")
  case (Pair r d')
  show ?thesis
  proof (cases "\<exists>table lims. node_table_from_env env read_file = Inr table \<and> coordinator_limits_from_env env = Inr lims \<and>
      coordinator_start h env read_file denv d = open_topology h env denv table lims d")
    case True
    then obtain table lims where T: "node_table_from_env env read_file = Inr table"
      "coordinator_limits_from_env env = Inr lims"
      "coordinator_start h env read_file denv d = open_topology h env denv table lims d" by blast
    show ?thesis
      using open_topology_Inr [OF T(2), of h denv table d] node_table_from_env_ok(2) [OF T(1)] T(1,2)
      unfolding T(3) by (auto split: sum.splits option.splits)
  next
    case False
    then have "\<exists>e. fst (coordinator_start h env read_file denv d) = Inl e \<and> e \<noteq> Panic"
      using node_table_from_env_ok(1) [of env read_file]
      by (auto simp: coordinator_start_def rbind_def checked_def split: sum.splits)
    then show ?thesis by auto
  qed
qed

section \<open>Announcements\<close>

text \<open>
  One turn of \<open>self_register\<close>: the call reaches the coordinator or not, its answer arrives or not
  (\<open>arrives\<close>). What is left is whether the node counts itself registered, which only decides what it logs.
\<close>

definition announce ::
    "durable_env \<Rightarrow> node_rpc \<Rightarrow> string \<Rightarrow> bool \<Rightarrow> bool \<Rightarrow> coordinator \<Rightarrow> disk \<Rightarrow> bool \<times> coordinator \<times> disk" where
  "announce denv rpc advertise reaches arrives co d =
     (if \<not> reaches then (False, co, d)
      else (case register_node denv rpc advertise co d of
              (Inr _, rest) \<Rightarrow> (arrives, rest)
            | (Inl _, rest) \<Rightarrow> (False, rest)))"

definition knows :: "coordinator \<Rightarrow> string \<Rightarrow> bool" where
  "knows co address \<longleftrightarrow> list_ex (\<lambda>shard. serves_address shard address) (co_shards co) \<or> address \<in> set (co_spares co)"

lemma announce_known:
  "trim advertise \<noteq> [] \<Longrightarrow> knows co (with_scheme (trim advertise)) \<Longrightarrow>
     snd (announce denv rpc advertise reaches arrives co d) = (co, d)"
  by (auto simp: announce_def register_node_def knows_def Let_def split: sum.splits)

lemma announce_registers:
  assumes "announce denv rpc advertise reaches arrives co d = (True, co', d')"
  shows "knows co' (with_scheme (trim advertise)) \<and> trim advertise \<noteq> []"
  using assms
  by (auto simp: announce_def register_node_def knows_def Let_def split: sum.splits if_splits prod.splits)

fun announcements ::
    "node_rpc \<Rightarrow> string \<Rightarrow> (durable_env \<times> bool \<times> bool) list \<Rightarrow> bool \<Rightarrow> coordinator \<Rightarrow> disk \<Rightarrow> bool \<times> coordinator \<times> disk" where
  "announcements rpc advertise [] registered co d = (registered, co, d)"
| "announcements rpc advertise ((denv, reaches, arrives) # ticks) registered co d =
     (case announce denv rpc advertise reaches arrives co d of
        (registered', co', d') \<Rightarrow> announcements rpc advertise ticks registered' co' d')"

lemma announcements_settled:
  assumes "trim advertise \<noteq> []" and "knows co (with_scheme (trim advertise))"
  shows "snd (announcements rpc advertise ticks registered co d) = (co, d)"
  using assms
proof (induction ticks arbitrary: registered)
  case Nil
  then show ?case by simp
next
  case (Cons tick ticks)
  obtain denv reaches arrives where tick: "tick = (denv, reaches, arrives)" by (cases tick)
  from announce_known [OF Cons.prems, of denv rpc reaches arrives d] obtain b where
    "announce denv rpc advertise reaches arrives co d = (b, co, d)" by (metis prod.collapse)
  with Cons show ?case by (simp add: tick)
qed

text \<open>
  Announcing is repeatable: once one answer has arrived the coordinator knows the node, as a member or as
  a spare, and however often the node announces itself again, and whatever is lost, neither the
  coordinator nor its state file changes any more.
\<close>

theorem announcing_is_idempotent:
  assumes "announce denv rpc advertise reaches arrives co d = (True, co', d')"
  shows "knows co' (with_scheme (trim advertise)) \<and>
    snd (announcements rpc' advertise ticks True co' d') = (co', d')"
  using announce_registers [OF assms] announcements_settled by blast

end
