(* ===== verification/Benchmark.thy ===== *)
theory Benchmark
  imports Node_Service Collection_Search Topology
begin

text \<open>
  The benchmark client (\<^verbatim>\<open>examples/vibe-bench\<close>) apart from its clock, its files and its transport: the command
  line, the calibration sample, the subsetting of a data set, the frames of the ingest, the choice of the
  coordinator's shard, and the recall against the published ground truth. \<open>None\<close> is a panic (an index out
  of range, a division by zero, a failed assertion). Lengths are \<open>nat\<close>: their products are lengths of
  arrays in memory. A ground-truth entry is an \<open>i64\<close>, kept as its 64 bits and read with \<open>sint\<close>.
\<close>

section \<open>The command line\<close>

datatype bench_mode = LocalMode | NodeMode | CoordinatorMode

record bench_args =
  ba_dataset :: string
  ba_cache_dir :: string
  ba_mode :: bench_mode
  ba_node_addr :: string
  ba_coordinator_addr :: string
  ba_k :: nat
  ba_max_train :: "nat option"
  ba_max_queries :: "nat option"
  ba_calibration_sample :: nat
  ba_provision :: bool
  ba_out :: "string option"

text \<open>\<open>usage\<close> ends the process; every other end is an error of \<open>main\<close>.\<close>

datatype args_end = Usage | BadArgs message

fun mode_name :: "bench_mode \<Rightarrow> string" where
  "mode_name LocalMode = ''local''"
| "mode_name NodeMode = ''node''"
| "mode_name CoordinatorMode = ''coordinator''"

definition parse_mode :: "string \<Rightarrow> args_end + bench_mode" where
  "parse_mode v =
     (if v = ''local'' then Inr LocalMode
      else if v = ''node'' then Inr NodeMode
      else if v = ''coordinator'' then Inr CoordinatorMode
      else Inl (BadArgs [Lit ''unknown --mode '', Dbg v]))"

definition count_arg :: "string \<Rightarrow> args_end + nat" where
  "count_arg v = (case parse_usize_text v of Inl e \<Rightarrow> Inl (BadArgs [Lit e]) | Inr n \<Rightarrow> Inr n)"

definition default_args :: "string \<Rightarrow> bench_args" where
  "default_args home =
     \<lparr>ba_dataset = [], ba_cache_dir = path_join home ''.cache/turbovec-vibe'', ba_mode = LocalMode,
      ba_node_addr = ''127.0.0.1:50051'', ba_coordinator_addr = ''127.0.0.1:50050'', ba_k = 10,
      ba_max_train = None, ba_max_queries = None, ba_calibration_sample = 25000, ba_provision = False,
      ba_out = None\<rparr>"

text \<open>A flag with its value; \<open>None\<close> when the flag takes none.\<close>

definition set_flag :: "string \<Rightarrow> string \<Rightarrow> bench_args \<Rightarrow> (args_end + bench_args) option" where
  "set_flag flag v a =
     (if flag = ''--dataset'' then Some (Inr (a\<lparr>ba_dataset := v\<rparr>))
      else if flag = ''--cache-dir'' then Some (Inr (a\<lparr>ba_cache_dir := v\<rparr>))
      else if flag = ''--mode'' then Some (rbind (parse_mode v) (\<lambda>m. Inr (a\<lparr>ba_mode := m\<rparr>)))
      else if flag = ''--node-addr'' then Some (Inr (a\<lparr>ba_node_addr := v\<rparr>))
      else if flag = ''--coordinator-addr'' then Some (Inr (a\<lparr>ba_coordinator_addr := v\<rparr>))
      else if flag = ''--k'' then Some (rbind (count_arg v) (\<lambda>n. Inr (a\<lparr>ba_k := n\<rparr>)))
      else if flag = ''--max-train'' then Some (rbind (count_arg v) (\<lambda>n. Inr (a\<lparr>ba_max_train := Some n\<rparr>)))
      else if flag = ''--max-queries'' then Some (rbind (count_arg v) (\<lambda>n. Inr (a\<lparr>ba_max_queries := Some n\<rparr>)))
      else if flag = ''--calibration-sample'' then
        Some (rbind (count_arg v) (\<lambda>n. Inr (a\<lparr>ba_calibration_sample := n\<rparr>)))
      else if flag = ''--out'' then Some (Inr (a\<lparr>ba_out := Some v\<rparr>))
      else None)"

fun parse_flags :: "string list \<Rightarrow> bench_args \<Rightarrow> args_end + bench_args" where
  "parse_flags [] a = Inr a"
| "parse_flags (flag # rest) a =
     (if flag = ''--provision'' then parse_flags rest (a\<lparr>ba_provision := True\<rparr>)
      else if set_flag flag [] a = None then Inl Usage
      else (case rest of
              [] \<Rightarrow> Inl (BadArgs [Lit flag, Lit '' needs a value''])
            | v # rest' \<Rightarrow>
                (case set_flag flag v a of
                   Some (Inr a') \<Rightarrow> parse_flags rest' a'
                 | Some (Inl e) \<Rightarrow> Inl e
                 | None \<Rightarrow> Inl Usage)))"

definition parse_args :: "string option \<Rightarrow> string list \<Rightarrow> args_end + bench_args" where
  "parse_args home words =
     (case home of
        None \<Rightarrow> Inl (BadArgs [Lit ''HOME is not set''])
      | Some h \<Rightarrow>
          rbind (parse_flags words (default_args h)) (\<lambda>a.
            if ba_dataset a = [] then Inl Usage
            else if ba_k a = 0 then Inl (BadArgs [Lit ''--k must be at least 1''])
            else Inr a))"

text \<open>Every set of arguments that the program accepts can be written on its command line.\<close>

definition args_words :: "bench_args \<Rightarrow> string list" where
  "args_words a =
     [''--dataset'', ba_dataset a, ''--cache-dir'', ba_cache_dir a, ''--mode'', mode_name (ba_mode a),
      ''--node-addr'', ba_node_addr a, ''--coordinator-addr'', ba_coordinator_addr a, ''--k'', show_nat (ba_k a)]
     @ (case ba_max_train a of None \<Rightarrow> [] | Some n \<Rightarrow> [''--max-train'', show_nat n])
     @ (case ba_max_queries a of None \<Rightarrow> [] | Some n \<Rightarrow> [''--max-queries'', show_nat n])
     @ [''--calibration-sample'', show_nat (ba_calibration_sample a)]
     @ (if ba_provision a then [''--provision''] else [])
     @ (case ba_out a of None \<Rightarrow> [] | Some p \<Rightarrow> [''--out'', p])"

lemma count_arg_show_nat: "n < 2 ^ 64 \<Longrightarrow> count_arg (show_nat n) = Inr n"
  by (simp add: count_arg_def parse_usize_text_def parse_u64_show_nat unat_as_u64)

lemma parse_mode_name: "parse_mode (mode_name m) = Inr m"
  by (cases m) (simp_all add: parse_mode_def)

definition args_fit :: "bench_args \<Rightarrow> bool" where
  "args_fit a \<longleftrightarrow> ba_k a < 2 ^ 64 \<and> ba_calibration_sample a < 2 ^ 64 \<and>
     pred_option (\<lambda>n. n < 2 ^ 64) (ba_max_train a) \<and> pred_option (\<lambda>n. n < 2 ^ 64) (ba_max_queries a)"

lemma parse_args_words:
  assumes "args_fit a" and "ba_dataset a \<noteq> []" and "0 < ba_k a"
  shows "parse_args (Some home) (args_words a) = Inr a"
  using assms
  by (cases a)
    (auto simp: parse_args_def args_words_def args_fit_def set_flag_def default_args_def count_arg_show_nat parse_mode_name
      split: option.splits)

lemma parse_args_accepts: "parse_args home words = Inr a \<Longrightarrow> ba_dataset a \<noteq> [] \<and> 0 < ba_k a"
  by (auto simp: parse_args_def split: option.splits if_splits)

section \<open>Data sets\<close>

record dataset =
  ds_name :: string
  ds_distance :: string
  ds_dim :: nat
  ds_train :: "f32 list"
  ds_n_train :: nat
  ds_queries :: "f32 list"
  ds_neighbors :: "u64 list"
  ds_gt_depth :: nat

definition row_slice :: "nat \<Rightarrow> nat \<Rightarrow> 'a list \<Rightarrow> 'a list option" where
  "row_slice width i xs = slice (i * width) ((i + 1) * width) xs"

text \<open>\<open>ds.queries.len() / ds.dim\<close>\<close>

definition query_count :: "dataset \<Rightarrow> nat option" where
  "query_count ds = (if ds_dim ds = 0 then None else Some (length (ds_queries ds) div ds_dim ds))"

definition calibration_sample :: "f32 list \<Rightarrow> nat \<Rightarrow> nat \<Rightarrow> nat \<Rightarrow> f32 list option" where
  "calibration_sample train n_train dim want =
     (let wanted = min want n_train in
      map_option concat (those (map (\<lambda>i. row_slice dim (i * n_train div wanted) train) [0..<wanted])))"

text \<open>The loop over the queries of \<open>subset\<close>: the kept queries, their ground truth, the number dropped.\<close>

fun keep_queries :: "dataset \<Rightarrow> u64 \<Rightarrow> nat list \<Rightarrow> f32 list \<times> u64 list \<times> nat \<Rightarrow> (f32 list \<times> u64 list \<times> nat) option" where
  "keep_queries ds past [] kept = Some kept"
| "keep_queries ds past (q # qs) (kept_queries, kept_neighbors, dropped) =
     (case row_slice (ds_gt_depth ds) q (ds_neighbors ds) of
        None \<Rightarrow> None
      | Some gt \<Rightarrow>
          if list_ex (\<lambda>row. sint past \<le> sint row) gt then
            keep_queries ds past qs (kept_queries, kept_neighbors, dropped + 1)
          else
            (case row_slice (ds_dim ds) q (ds_queries ds) of
               None \<Rightarrow> None
             | Some v \<Rightarrow> keep_queries ds past qs (kept_queries @ v, kept_neighbors @ gt, dropped)))"

definition cut_train :: "nat \<Rightarrow> dataset \<Rightarrow> (dataset \<times> nat) option" where
  "cut_train max_train ds =
     (let n = min max_train (ds_n_train ds);
          ds' = ds\<lparr>ds_train := take (n * ds_dim ds) (ds_train ds), ds_n_train := n\<rparr> in
      case query_count ds' of
        None \<Rightarrow> None
      | Some nq \<Rightarrow>
          map_option (\<lambda>(qs, ns, dropped). (ds'\<lparr>ds_queries := qs, ds_neighbors := ns\<rparr>, dropped))
            (keep_queries ds' (as_u64 n) [0..<nq] ([], [], 0)))"

definition cut_queries :: "nat \<Rightarrow> dataset \<Rightarrow> dataset option" where
  "cut_queries max_queries ds =
     map_option (\<lambda>nq. let m = min max_queries nq in
         ds\<lparr>ds_queries := take (m * ds_dim ds) (ds_queries ds),
           ds_neighbors := take (m * ds_gt_depth ds) (ds_neighbors ds)\<rparr>) (query_count ds)"

definition subset_dataset :: "bench_args \<Rightarrow> dataset \<Rightarrow> (dataset \<times> nat) option" where
  "subset_dataset args ds =
     (case (case ba_max_train args of None \<Rightarrow> Some (ds, 0) | Some n \<Rightarrow> cut_train n ds) of
        None \<Rightarrow> None
      | Some (ds', dropped) \<Rightarrow>
          map_option (\<lambda>ds''. (ds'', dropped))
            (case ba_max_queries args of None \<Rightarrow> Some ds' | Some m \<Rightarrow> cut_queries m ds'))"

section \<open>Recall\<close>

definition recall_depths :: "nat \<Rightarrow> nat \<Rightarrow> nat list" where
  "recall_depths k gt_depth = remdups_adj (sort [1, k, gt_depth])"

text \<open>The hits of every query; \<open>recall_at\<close> averages them over \<open>r\<close> and the queries.\<close>

definition recall_hits :: "u64 list list \<Rightarrow> u64 list \<Rightarrow> nat \<Rightarrow> nat \<Rightarrow> nat list option" where
  "recall_hits returned neighbors gt_depth r =
     those (map (\<lambda>(qi, ids).
         map_option (\<lambda>gt. length (filter (\<lambda>i. i \<in> set gt) (take r ids)))
           (slice (qi * gt_depth) (qi * gt_depth + r) neighbors))
       (enumerate 0 returned))"

definition score_recalls :: "bench_args \<Rightarrow> dataset \<Rightarrow> u64 list list \<Rightarrow> (nat \<times> nat list) list option" where
  "score_recalls args ds returned =
     (case query_count ds of
        None \<Rightarrow> None
      | Some nq \<Rightarrow>
          if length returned \<noteq> nq then None
          else
            (let fetch = max (ba_k args) (ds_gt_depth ds) in
             those (map (\<lambda>r. map_option (Pair r) (recall_hits returned (ds_neighbors ds) (ds_gt_depth ds) r))
               (recall_depths (min (ba_k args) fetch) (min (ds_gt_depth ds) fetch)))))"

text \<open>Nearest-rank percentile over sorted latencies.\<close>

definition percentile :: "nat list \<Rightarrow> nat \<Rightarrow> nat option" where
  "percentile latencies p = nth_opt latencies (min (length latencies * p div 100) (length latencies - 1))"

section \<open>The calls to the servers\<close>

definition BIT_WIDTH :: nat where
  "BIT_WIDTH = 4"

definition ADD_FRAME_FLOATS :: nat where
  "ADD_FRAME_FLOATS = 2 ^ 20"

text \<open>The frames of \<open>ingest_node\<close>, each one \<open>Add\<close> call; they are sent until one is refused.\<close>

function ingest_frames :: "string \<Rightarrow> dataset \<Rightarrow> nat \<Rightarrow> add_request list option" where
  "ingest_frames index_id ds base =
     (if ds_dim ds = 0 then None
      else if ds_n_train ds \<le> base then Some []
      else
        (let rows = min (max (ADD_FRAME_FLOATS div ds_dim ds) 1) (ds_n_train ds - base) in
         case slice (base * ds_dim ds) ((base + rows) * ds_dim ds) (ds_train ds) of
           None \<Rightarrow> None
         | Some vectors \<Rightarrow>
             map_option (\<lambda>frames.
                 \<lparr>ad_index_id = index_id, ad_dim = word_of_nat (ds_dim ds), ad_vectors = vectors, ad_ids = [],
                  ad_operation_id = [], ad_expected_len = None, ad_expected_rows = 0\<rparr> # frames)
               (ingest_frames index_id ds (base + rows))))"
  by pat_completeness auto

termination
  by (relation "measure (\<lambda>(_, ds, base). ds_n_train ds - base)") auto

declare ingest_frames.simps [simp del]

definition search_requests :: "string \<Rightarrow> bench_args \<Rightarrow> dataset \<Rightarrow> search_request list option" where
  "search_requests index_id args ds =
     (case query_count ds of
        None \<Rightarrow> None
      | Some nq \<Rightarrow>
          those (map (\<lambda>q. map_option (\<lambda>v. \<lparr>se_index_id = index_id, se_queries = v,
              se_k = word_of_nat (max (ba_k args) (ds_gt_depth ds)), se_allowlist = []\<rparr>)
            (row_slice (ds_dim ds) q (ds_queries ds))) [0..<nq]))"

text \<open>The first result of an answer.\<close>

definition answered_ids :: "query_result list \<Rightarrow> message + u64 list" where
  "answered_ids results =
     (case results of [] \<Rightarrow> Inl [Lit ''search returned no result row''] | r # _ \<Rightarrow> Inr (qr_ids r))"

definition neighbour_ids :: "neighbour list \<Rightarrow> u64 list" where
  "neighbour_ids ns = map (\<lambda>n. case nb_label n of Some l \<Rightarrow> l | None \<Rightarrow> nb_slot n) ns"

text \<open>The shard that \<open>run_coordinator\<close> fills: the only one, reachable, empty and of the data set's shape.\<close>

definition coordinator_shard :: "list_nodes_response \<Rightarrow> dataset \<Rightarrow> message + (string \<times> string)" where
  "coordinator_shard listing ds =
     (case ln_shards listing of
        [shard] \<Rightarrow>
          (case ss_info shard of
             None \<Rightarrow> Inl ([Lit ''shard node '', Lit (ref_address (ss_shard shard)), Lit '' is unreachable: ''] @ ss_error shard)
           | Some info \<Rightarrow>
               if info_len info \<noteq> 0 then
                 Inl [Lit ''shard '', Lit (ref_index_id (ss_shard shard)), Lit '' on '', Lit (ref_address (ss_shard shard)),
                   Lit '' already holds '', num64 (info_len info),
                   Lit '' rows; coordinator mode ingests only into an empty collection'']
               else if info_dim info \<noteq> word_of_nat (ds_dim ds) \<or> info_bit_width info \<noteq> word_of_nat BIT_WIDTH then
                 Inl [Lit ''shard index is dim '', num (unat (info_dim info)), Lit '' bit width '',
                   num (unat (info_bit_width info)), Lit ''; dataset '', Lit (ds_name ds), Lit '' needs dim '',
                   num (ds_dim ds), Lit '' bit width '', num BIT_WIDTH]
               else Inr (ref_address (ss_shard shard), info_index_id info))
      | shards \<Rightarrow>
          Inl [Lit ''coordinator mode expects a one-shard collection before ingest; found '', num (length shards),
            Lit '' shards (a split collection is labelled and refuses adds)''])"

text \<open>\<open>--provision\<close>: an index to create, or nothing to do.\<close>

definition provision :: "index_info list \<Rightarrow> dataset \<Rightarrow> message + create_index_request option" where
  "provision existing ds =
     (case existing of
        [] \<Rightarrow> Inr (Some \<lparr>ci_dim = word_of_nat (ds_dim ds), ci_bit_width = word_of_nat BIT_WIDTH,
                ci_kind = INDEX_KIND_POSITIONAL, ci_lazy = False\<rparr>)
      | [_] \<Rightarrow> Inr None
      | _ \<Rightarrow> Inl [Lit ''--provision expects the node to hold at most one index; it holds '', num (length existing)])"

end
