(* ===== verification/Benchmark_Properties.thy ===== *)
theory Benchmark_Properties
  imports Benchmark
begin

text \<open>
  What the benchmark client relies on before it reports a number: the calibration sample is evenly spread over
  distinct rows, subsetting keeps exactly the queries whose ground truth is still indexed, the frames of the
  ingest are the training rows in order, and recall is defined exactly up to the depth of the ground truth.
\<close>

section \<open>Rows of flat arrays\<close>

lemma those_map_Some: "\<forall>x \<in> set xs. f x = Some (g x) \<Longrightarrow> those (map f xs) = Some (map g xs)"
  by (induction xs) auto

lemma those_None: "those xs = None \<longleftrightarrow> None \<in> set xs"
  by (induction xs) (auto split: option.splits)

definition flat_row :: "nat \<Rightarrow> nat \<Rightarrow> 'a list \<Rightarrow> 'a list" where
  "flat_row width i xs = take width (drop (i * width) xs)"

lemma row_slice_flat:
  assumes "length xs = n * width" and "i < n"
  shows "row_slice width i xs = Some (flat_row width i xs)"
proof -
  have "(i + 1) * width \<le> n * width" using assms(2) by (intro mult_right_mono) simp_all
  then show ?thesis by (simp add: row_slice_def slice_def flat_row_def assms(1))
qed

section \<open>The calibration sample\<close>

lemma spread_rows:
  assumes "0 < n" and "wanted \<le> n" and "i < j" and "j < wanted"
  shows "i * n div wanted < j * n div wanted \<and> j * n div wanted < (n :: nat)"
proof
  have "i * n + wanted \<le> j * n"
  proof -
    have "(i + 1) * n \<le> j * n" using assms(3) by (intro mult_right_mono) simp_all
    then show ?thesis using assms(2) by simp
  qed
  then have "(i * n + wanted) div wanted \<le> j * n div wanted" by (rule div_le_mono)
  then show "i * n div wanted < j * n div wanted"
    using assms(4) div_add_self2 [of wanted "i * n"] by simp
  have "j * n < n * wanted" using assms(1,4) by (simp add: mult.commute)
  then show "j * n div wanted < n" by (rule less_mult_imp_div_less)
qed

text \<open>The sample: \<open>min want n\<close> distinct rows of the training set, in order, at the regular stride.\<close>

theorem calibration_sample_spread:
  assumes "length train = n * dim"
  shows "\<exists>picks. calibration_sample train n dim want = Some (concat (map (\<lambda>i. flat_row dim i train) picks)) \<and>
    length picks = min want n \<and> sorted_wrt (<) picks \<and> (\<forall>i \<in> set picks. i < n)"
proof -
  let ?w = "min want n"
  let ?picks = "map (\<lambda>i. i * n div ?w) [0..<?w]"
  have below: "i * n div ?w < n" if "i < ?w" for i
  proof -
    have "i * n < n * ?w" using that by (simp add: mult.commute)
    then show ?thesis by (rule less_mult_imp_div_less)
  qed
  have "those (map (\<lambda>i. row_slice dim (i * n div ?w) train) [0..<?w]) =
      Some (map (\<lambda>i. flat_row dim (i * n div ?w) train) [0..<?w])"
    using below by (intro those_map_Some) (simp add: row_slice_flat [OF assms])
  moreover have "sorted_wrt (<) ?picks"
    using spread_rows [of n ?w] by (fastforce simp: sorted_wrt_map sorted_wrt_iff_nth_less)
  ultimately show ?thesis
    using below by (intro exI [of _ ?picks]) (simp add: calibration_sample_def Let_def comp_def)
qed

section \<open>The frames of the ingest\<close>

lemma slice_append:
  "a \<le> b \<Longrightarrow> b \<le> length xs \<Longrightarrow> slice a b xs = Some v \<Longrightarrow> v @ drop b xs = drop a xs"
  by (simp add: slice_def) (metis append_take_drop_id drop_drop le_add_diff_inverse2)

text \<open>Every row is sent once, in order, in frames of whole rows that stay below the frame bound.\<close>

theorem ingest_frames_cover:
  assumes "length (ds_train ds) = ds_n_train ds * ds_dim ds" and "0 < ds_dim ds"
  shows "\<exists>frames. ingest_frames index_id ds base = Some frames \<and>
    concat (map ad_vectors frames) = drop (base * ds_dim ds) (ds_train ds) \<and>
    (\<forall>f \<in> set frames. ad_vectors f \<noteq> [] \<and> ds_dim ds dvd length (ad_vectors f) \<and>
       length (ad_vectors f) \<le> max ADD_FRAME_FLOATS (ds_dim ds) \<and> ad_index_id f = index_id)"
  using assms
proof (induction index_id ds base rule: ingest_frames.induct)
  case (1 index_id ds base)
  let ?d = "ds_dim ds"
  show ?case
  proof (cases "ds_n_train ds \<le> base")
    case True
    then have "ds_n_train ds * ?d \<le> base * ?d" by (rule mult_right_mono) simp
    with True 1(2,3) show ?thesis by (simp add: ingest_frames.simps [of index_id ds base])
  next
    case False
    define rows where "rows = min (max (ADD_FRAME_FLOATS div ?d) 1) (ds_n_train ds - base)"
    have pos: "0 < rows" and fits: "base + rows \<le> ds_n_train ds" using False by (auto simp: rows_def)
    have small: "rows * ?d \<le> max ADD_FRAME_FLOATS ?d"
    proof -
      have "rows * ?d \<le> max (ADD_FRAME_FLOATS div ?d) 1 * ?d" by (simp add: rows_def)
      also have "\<dots> = max (ADD_FRAME_FLOATS div ?d * ?d) ?d" by (simp add: max_def)
      also have "\<dots> \<le> max ADD_FRAME_FLOATS ?d" by (rule max.mono) (simp_all add: div_times_less_eq_dividend)
      finally show ?thesis .
    qed
    have bounds: "base * ?d \<le> (base + rows) * ?d" "(base + rows) * ?d \<le> length (ds_train ds)"
      unfolding 1(2) using fits by (simp_all add: mult_right_mono)
    obtain v where v: "slice (base * ?d) ((base + rows) * ?d) (ds_train ds) = Some v" "length v = rows * ?d"
      using bounds by (simp add: slice_def add_mult_distrib)
    obtain frames where IH: "ingest_frames index_id ds (base + rows) = Some frames"
      "concat (map ad_vectors frames) = drop ((base + rows) * ?d) (ds_train ds)"
      "\<forall>f \<in> set frames. ad_vectors f \<noteq> [] \<and> ?d dvd length (ad_vectors f) \<and>
         length (ad_vectors f) \<le> max ADD_FRAME_FLOATS ?d \<and> ad_index_id f = index_id"
      using 1(1) [OF _ False rows_def v(1) 1(2,3)] 1(3) by auto
    have "v @ drop ((base + rows) * ?d) (ds_train ds) = drop (base * ?d) (ds_train ds)"
      by (rule slice_append [OF bounds v(1)])
    moreover have "v \<noteq> []" using v(2) pos 1(3) by auto
    moreover obtain f where "ingest_frames index_id ds base = Some (f # frames)" "ad_vectors f = v" "ad_index_id f = index_id"
      unfolding ingest_frames.simps [of index_id ds base] rows_def [symmetric] Let_def using False 1(3) IH(1) v(1) by simp
    ultimately show ?thesis using IH(2,3) v(2) small by simp
  qed
qed

section \<open>Subsetting\<close>

definition rectangular :: "dataset \<Rightarrow> nat \<Rightarrow> bool" where
  "rectangular ds nq \<longleftrightarrow> 0 < ds_dim ds \<and> length (ds_train ds) = ds_n_train ds * ds_dim ds \<and>
     length (ds_queries ds) = nq * ds_dim ds \<and> length (ds_neighbors ds) = nq * ds_gt_depth ds"

text \<open>The queries of a data set with their ground truth.\<close>

definition query_rows :: "dataset \<Rightarrow> nat \<Rightarrow> (f32 list \<times> u64 list) list" where
  "query_rows ds nq = map (\<lambda>q. (flat_row (ds_dim ds) q (ds_queries ds), flat_row (ds_gt_depth ds) q (ds_neighbors ds))) [0..<nq]"

definition within :: "u64 \<Rightarrow> f32 list \<times> u64 list \<Rightarrow> bool" where
  "within past q \<longleftrightarrow> (\<forall>i \<in> set (snd q). sint i < sint past)"

lemma query_count_shaped: "rectangular ds nq \<Longrightarrow> query_count ds = Some nq"
  by (simp add: rectangular_def query_count_def)

lemma keep_queries_filter:
  assumes "length (ds_queries ds) = nq * ds_dim ds" and "length (ds_neighbors ds) = nq * ds_gt_depth ds"
    and "\<forall>q \<in> set qs. q < nq"
  shows "keep_queries ds past qs (kq, kn, dropped) =
    (let rows = map (\<lambda>q. (flat_row (ds_dim ds) q (ds_queries ds), flat_row (ds_gt_depth ds) q (ds_neighbors ds))) qs;
         kept = filter (within past) rows
     in Some (kq @ concat (map fst kept), kn @ concat (map snd kept), dropped + (length rows - length kept)))"
  using assms(3)
proof (induction qs arbitrary: kq kn dropped)
  case (Cons q qs)
  let ?at = "\<lambda>q. (flat_row (ds_dim ds) q (ds_queries ds), flat_row (ds_gt_depth ds) q (ds_neighbors ds))"
  let ?gt = "flat_row (ds_gt_depth ds) q (ds_neighbors ds)"
  have "list_ex (\<lambda>i. sint past \<le> sint i) ?gt \<longleftrightarrow> \<not> within past (?at q)"
    by (auto simp: within_def list_ex_iff not_less)
  moreover have "length (filter (within past) (map ?at qs)) \<le> length qs"
    using length_filter_le [of "within past" "map ?at qs"] by simp
  ultimately show ?case
    using Cons by (simp add: row_slice_flat [OF assms(1)] row_slice_flat [OF assms(2)] Let_def Suc_diff_le)
qed simp

lemma rows_of_concat:
  assumes "list_all (\<lambda>xs. length xs = width) xss"
  shows "length (concat xss) = length xss * width \<and> (\<forall>i < length xss. flat_row width i (concat xss) = xss ! i)"
  using assms
proof (induction xss)
  case (Cons xs xss)
  have "flat_row width i (concat (xs # xss)) = (xs # xss) ! i" if "i < length (xs # xss)" for i
    using Cons that by (cases i) (simp_all add: flat_row_def)
  with Cons show ?case by simp
qed simp

lemma query_rows_concat:
  assumes "list_all (\<lambda>(v, gt). length v = ds_dim ds \<and> length gt = ds_gt_depth ds) qs"
    and "ds_queries ds = concat (map fst qs)" and "ds_neighbors ds = concat (map snd qs)"
  shows "length (ds_queries ds) = length qs * ds_dim ds \<and> length (ds_neighbors ds) = length qs * ds_gt_depth ds \<and>
    query_rows ds (length qs) = qs"
proof -
  have "list_all (\<lambda>xs. length xs = ds_dim ds) (map fst qs)" "list_all (\<lambda>xs. length xs = ds_gt_depth ds) (map snd qs)"
    using assms(1) by (auto simp: list_all_iff)
  from rows_of_concat [OF this(1)] rows_of_concat [OF this(2)] show ?thesis
    by (auto simp: assms(2,3) query_rows_def intro!: nth_equalityI)
qed

lemma flat_row_length: "length xs = n * width \<Longrightarrow> i < n \<Longrightarrow> length (flat_row width i xs) = width"
  using mult_le_mono1 [of "Suc i" n width] by (simp add: flat_row_def)

lemma query_rows_shape:
  "rectangular ds nq \<Longrightarrow> list_all (\<lambda>(v, gt). length v = ds_dim ds \<and> length gt = ds_gt_depth ds) (query_rows ds nq)"
  by (auto simp: list_all_iff query_rows_def rectangular_def intro: flat_row_length [of _ nq])

lemma list_all_filter: "list_all P xs \<Longrightarrow> list_all P (filter Q xs)"
  by (simp add: list_all_iff)

definition indexed :: "nat \<Rightarrow> f32 list \<times> u64 list \<Rightarrow> bool" where
  "indexed n q \<longleftrightarrow> (\<forall>i \<in> set (snd q). sint i < int n)"

lemma within_indexed: "n < 2 ^ 63 \<Longrightarrow> within (as_u64 n) = indexed n"
proof -
  assume "n < 2 ^ 63"
  then have "sint (as_u64 n) = int n"
    by (simp add: signed_of_nat signed_take_bit_int_eq_self)
  then show ?thesis by (simp add: within_def indexed_def fun_eq_iff)
qed

lemma cut_train_keeps:
  fixes m :: nat
  assumes shaped: "rectangular ds nq" and small: "ds_n_train ds < 2 ^ 63"
  defines "n \<equiv> min m (ds_n_train ds)" and "kept \<equiv> filter (indexed (min m (ds_n_train ds))) (query_rows ds nq)"
  shows "\<exists>ds'. cut_train m ds = Some (ds', nq - length kept) \<and> rectangular ds' (length kept) \<and>
    ds_n_train ds' = n \<and> query_rows ds' (length kept) = kept"
proof -
  let ?ds = "ds\<lparr>ds_train := take (n * ds_dim ds) (ds_train ds), ds_n_train := n\<rparr>"
  let ?ds' = "?ds\<lparr>ds_queries := concat (map fst kept), ds_neighbors := concat (map snd kept)\<rparr>"
  have "keep_queries ?ds (as_u64 n) [0..<nq] ([], [], 0) =
      Some (concat (map fst kept), concat (map snd kept), nq - length kept)"
    using shaped small keep_queries_filter [of ?ds nq "[0..<nq]" "as_u64 n" "[]" "[]" 0]
    by (simp add: rectangular_def kept_def n_def within_indexed query_rows_def Let_def)
  moreover have "query_count ?ds = Some nq"
    using shaped by (simp add: query_count_def rectangular_def)
  ultimately have "cut_train m ds = Some (?ds', nq - length kept)"
    by (simp add: cut_train_def n_def [symmetric] Let_def)
  moreover have rows: "length (ds_queries ?ds') = length kept * ds_dim ?ds' \<and>
      length (ds_neighbors ?ds') = length kept * ds_gt_depth ?ds' \<and> query_rows ?ds' (length kept) = kept"
    using query_rows_shape [OF shaped] unfolding kept_def
    by (intro query_rows_concat) (simp_all add: list_all_filter)
  moreover have "n * ds_dim ds \<le> ds_n_train ds * ds_dim ds" by (simp add: n_def)
  ultimately show ?thesis
    using shaped by (intro exI [of _ ?ds']) (simp add: rectangular_def)
qed

lemma flat_row_take: "i < n \<Longrightarrow> flat_row width i (take (n * width) xs) = flat_row width i xs"
  using mult_le_mono1 [of "Suc i" n width] by (simp add: flat_row_def take_drop [symmetric] drop_take min_def le_diff_conv)

lemma take_upt_min: "take m [0..<n] = [0..<min m n]"
  by (cases "m \<le> n") (simp_all add: take_upt min_def)

lemma cut_queries_keeps:
  assumes "rectangular ds nq"
  shows "\<exists>ds'. cut_queries m ds = Some ds' \<and> rectangular ds' (min m nq) \<and> ds_n_train ds' = ds_n_train ds \<and>
    query_rows ds' (min m nq) = take m (query_rows ds nq)"
proof -
  let ?n = "min m nq"
  let ?ds = "ds\<lparr>ds_queries := take (?n * ds_dim ds) (ds_queries ds), ds_neighbors := take (?n * ds_gt_depth ds) (ds_neighbors ds)\<rparr>"
  have "?n * w \<le> nq * w" for w by simp
  then have "rectangular ?ds ?n" using assms by (simp add: rectangular_def)
  moreover have "query_rows ?ds ?n = take m (query_rows ds nq)"
    by (simp add: query_rows_def take_map flat_row_take take_upt_min)
  ultimately show ?thesis
    by (intro exI [of _ ?ds]) (simp add: cut_queries_def query_count_shaped [OF assms] Let_def)
qed

text \<open>
  The queries that are measured: those whose whole ground truth is indexed, in order, cut at \<open>--max-queries\<close>;
  the number reported as dropped is exact.
\<close>

theorem subset_keeps_indexed_queries:
  assumes "rectangular ds nq" and "ds_n_train ds < 2 ^ 63"
  shows "\<exists>ds' nq'.
    let kept = (case ba_max_train args of
          None \<Rightarrow> query_rows ds nq | Some m \<Rightarrow> filter (indexed (min m (ds_n_train ds))) (query_rows ds nq)) in
      subset_dataset args ds = Some (ds', nq - length kept) \<and> rectangular ds' nq' \<and>
      ds_n_train ds' = (case ba_max_train args of None \<Rightarrow> ds_n_train ds | Some m \<Rightarrow> min m (ds_n_train ds)) \<and>
      query_rows ds' nq' = (case ba_max_queries args of None \<Rightarrow> kept | Some m \<Rightarrow> take m kept)"
proof -
  let ?kept = "case ba_max_train args of
    None \<Rightarrow> query_rows ds nq | Some m \<Rightarrow> filter (indexed (min m (ds_n_train ds))) (query_rows ds nq)"
  obtain ds1 where first: "(case ba_max_train args of None \<Rightarrow> Some (ds, 0) | Some n \<Rightarrow> cut_train n ds) =
      Some (ds1, nq - length ?kept)" "rectangular ds1 (length ?kept)" "query_rows ds1 (length ?kept) = ?kept"
    "ds_n_train ds1 = (case ba_max_train args of None \<Rightarrow> ds_n_train ds | Some m \<Rightarrow> min m (ds_n_train ds))"
    using assms cut_train_keeps [OF assms] by (cases "ba_max_train args") (auto simp: query_rows_def)
  show ?thesis
  proof (cases "ba_max_queries args")
    case None
    with first show ?thesis
      by (intro exI [of _ ds1] exI [of _ "length ?kept"]) (simp add: subset_dataset_def Let_def)
  next
    case (Some m)
    with first cut_queries_keeps [OF first(2), of m] show ?thesis
      by (auto simp: subset_dataset_def Let_def)
  qed
qed

section \<open>Recall\<close>

lemma those_exists: "those xs \<noteq> None \<longleftrightarrow> (\<forall>x \<in> set xs. x \<noteq> None)"
  by (metis those_None)

lemma set_enumerate: "set (enumerate 0 xs) = (\<lambda>q. (q, xs ! q)) ` {..<length xs}"
  by (auto simp: in_set_enumerate_eq image_iff)

lemma recall_depths_set: "set (recall_depths k gt_depth) = {1, k, gt_depth}"
  by (simp only: recall_depths_def remdups_adj_set set_sort list.set)

lemma recall_hits_defined:
  assumes "length neighbors = length returned * gt_depth" and "returned \<noteq> []"
  shows "recall_hits returned neighbors gt_depth r \<noteq> None \<longleftrightarrow> r \<le> gt_depth"
proof -
  have "recall_hits returned neighbors gt_depth r \<noteq> None \<longleftrightarrow>
      (\<forall>qi < length returned. qi * gt_depth + r \<le> length returned * gt_depth)"
    unfolding recall_hits_def those_exists by (auto simp add: set_enumerate slice_def assms(1))
  also have "\<dots> \<longleftrightarrow> r \<le> gt_depth"
  proof
    assume "\<forall>qi < length returned. qi * gt_depth + r \<le> length returned * gt_depth"
    then have "(length returned - 1) * gt_depth + r \<le> length returned * gt_depth" using assms(2) by simp
    moreover have "length returned * gt_depth = (length returned - 1) * gt_depth + gt_depth"
      using assms(2) by (cases returned) simp_all
    ultimately show "r \<le> gt_depth" by simp
  next
    assume r: "r \<le> gt_depth"
    have "qi * gt_depth + r \<le> length returned * gt_depth" if "qi < length returned" for qi
      using mult_le_mono1 [of "Suc qi" "length returned" gt_depth] that r by simp
    then show "\<forall>qi < length returned. qi * gt_depth + r \<le> length returned * gt_depth" by blast
  qed
  finally show ?thesis .
qed

text \<open>
  A finished run is scored exactly when \<open>--k\<close> does not exceed the depth of the published ground truth; with a
  deeper \<open>--k\<close> the slice of the last query runs past the table and the program panics after the search.
\<close>

theorem score_defined_iff:
  assumes "rectangular ds nq" and "0 < nq" and "length returned = nq" and "0 < ba_k args"
  shows "score_recalls args ds returned \<noteq> None \<longleftrightarrow> ba_k args \<le> ds_gt_depth ds"
proof -
  have "length (ds_neighbors ds) = length returned * ds_gt_depth ds" "returned \<noteq> []"
    using assms by (auto simp: rectangular_def)
  note defined = recall_hits_defined [OF this]
  let ?at = "recall_hits returned (ds_neighbors ds) (ds_gt_depth ds)"
  have "score_recalls args ds returned =
      those (map (\<lambda>r. map_option (Pair r) (?at r)) (recall_depths (ba_k args) (ds_gt_depth ds)))"
    using assms(3) by (simp add: score_recalls_def query_count_shaped [OF assms(1)] Let_def)
  also have "\<dots> \<noteq> None \<longleftrightarrow> (\<forall>r \<in> {1, ba_k args, ds_gt_depth ds}. ?at r \<noteq> None)"
    unfolding those_exists by (simp add: recall_depths_set)
  finally show ?thesis using assms(4) unfolding defined by auto
qed

text \<open>No recall exceeds one, and full recall of distinct answers finds the true neighbours.\<close>

lemma recall_hits_bound:
  "recall_hits returned neighbors gt_depth r = Some hits \<Longrightarrow> \<forall>h \<in> set hits. h \<le> r"
proof -
  have hit: "length (filter P (take r xs)) \<le> r" for P and xs :: "u64 list"
    using length_filter_le [of P "take r xs"] by simp
  have all: "list_all (pred_option (\<lambda>h. h \<le> r)) xs \<Longrightarrow> those xs = Some ys \<Longrightarrow> \<forall>h \<in> set ys. h \<le> r" for xs ys
    by (induction xs arbitrary: ys) (auto split: option.splits)
  assume "recall_hits returned neighbors gt_depth r = Some hits"
  then show ?thesis
    unfolding recall_hits_def by (rule all [rotated]) (auto simp: list_all_iff hit slice_def)
qed

section \<open>Percentiles\<close>

lemma percentile_mono:
  assumes "sorted xs" and "percentile xs p = Some a" and "percentile xs q = Some b" and "p \<le> q"
  shows "a \<le> b"
proof -
  have "length xs * p div 100 \<le> length xs * q div 100" using assms(4) by (intro div_le_mono mult_le_mono2)
  then have "min (length xs * p div 100) (length xs - 1) \<le> min (length xs * q div 100) (length xs - 1)" by (rule min.mono) simp
  from sorted_nth_mono [OF assms(1) this] show ?thesis using assms(2,3) by (auto simp: percentile_def nth_opt_Some)
qed

lemma percentile_defined: "percentile xs p = None \<longleftrightarrow> xs = []"
  by (cases xs) (auto simp: percentile_def nth_opt_def)

end
