(* ===== verification/Spec2Isabelle.thy ===== *)
theory Spec2Isabelle
  imports Topology Row_Transfer Label_Filter Shard_Examples Reshape_Examples Collection_Search
    Candidate_Floors Score_Space Channels Node_Surfaces Lifecycle_Examples Coordinator_Start
    Benchmark_Properties
begin

text \<open>
  A verification library for the turbovec gRPC servers (the crate under \<^verbatim>\<open>src/src\<close>).

  \<^bold>\<open>The program.\<close> A \<^emph>\<open>node\<close> (\<^verbatim>\<open>service.rs\<close>, \<^verbatim>\<open>store.rs\<close>) serves vector indexes: it adds, searches and
  removes rows, streams the candidates of a scan, moves encoded rows in and out, and writes every index
  as a durable shard generation. A \<^emph>\<open>coordinator\<close> (\<^verbatim>\<open>coordinator/mod.rs\<close>, \<^verbatim>\<open>nodes.rs\<close>,
  \<^verbatim>\<open>autoscale.rs\<close>) holds a table of shards, binds them to one collection, answers a query by one
  streamed scan per shard with a shared rising score floor, and reshapes the collection by moving rows
  between nodes. The two talk only through the calls of \<^verbatim>\<open>proto/turbovec/v1\<close>.

  \<^bold>\<open>What is a parameter.\<close> The turbovec crate is the record \<open>engine\<close> of functions over abstract indexes,
  the file formats and the checksum are the record \<open>codec\<close>, protobuf encoding of the state file is in
  \<open>durable_env\<close>, the file system decides the outcome of every call (\<open>shard_env\<close>, \<open>fs_env\<close>), and the
  network decides which calls are lost. What is relied on is named: \<open>engine_laws\<close> (searches answer with
  slots of the mask in their documented shape, \<open>from_parts\<close> keeps its parts, lengths fit 64 bits),
  \<open>add_law\<close>, \<open>codec_law\<close>, \<open>reliable\<close>. Each is instantiated by a concrete engine or format in the witnesses.

  \<^bold>\<open>The theories, in the order of the code.\<close>

  \<^item> \<open>TV_Prelude\<close>: machine integers, checked arithmetic, panics, text. \<open>F32\<close>: single precision by bits, with
    the numeric comparisons of the floors and the total order of the ranks. \<open>Wire\<close>: the messages.
  \<^item> \<open>Errors\<close> (\<^verbatim>\<open>errors.rs\<close>): statuses and the closed list of refusal names. \<open>Config\<close> (\<^verbatim>\<open>config.rs\<close>).
  \<^item> \<open>Node_Table\<close>, \<open>Topology_File\<close> (\<^verbatim>\<open>nodes.rs\<close>): the node table and its parser; the state file, replaced
    atomically. Lemmas: parsing inverts rendering, no fault or crash leaves a torn state file.
  \<^item> \<open>Binding\<close>, \<open>Topology\<close> (\<^verbatim>\<open>coordinator/mod.rs\<close>): \<open>bind\<close> and split planning; the coordinator's state and
    each operation on it. Lemmas: the generation only grows and names one topology, a restart serves what was
    served, spares never serve, replicas only of the required generation, the binding follows the topology
    unless a rebind overtakes a binder.
  \<^item> \<open>Candidates\<close>, \<open>Stream_Query\<close>, \<open>Stream_Exact\<close>, \<open>Stream_Properties\<close>: the collector of one query and its
    exactness for every interleaving of shard events; the binary heap enters through the locale \<open>max_heap\<close>.
  \<^item> \<open>Engine\<close>, \<open>Shard_Files\<close>, \<open>Shard_Store\<close>, \<open>Shard_Durability\<close>, \<open>Shard_Restore\<close>, \<open>Shard_Properties\<close>,
    \<open>Shard_Examples\<close> (\<^verbatim>\<open>store.rs\<close>): the registry, its file operations as sequences of system calls that may
    fail or be the last one, and the abstract content \<open>stored_shard\<close> that persisting, deleting and opening refine.
  \<^item> \<open>Row_Transfer\<close>, \<open>Label_Filter\<close>, \<open>Node_Index\<close>, \<open>Node_Service\<close>, \<open>Node_Scan\<close> (\<^verbatim>\<open>service.rs\<close>): the handlers,
    branch by branch, and the streamed scan with its control pump. \<open>Node_Properties\<close>: no history of calls makes
    a handler panic or breaks the registry. \<open>Exactly_Once\<close>, \<open>Node_Examples\<close>: a retry-safe \<open>Add\<close> is applied once
    across crashes; what dropping the call does to the retry.
  \<^item> \<open>Cluster\<close>, \<open>Cluster_Properties\<close>, \<open>Collection_Search\<close>: the collector composed with one scan per pinned shard,
    as a step relation; it refines one search over the rows of all shards. The \<open>Search\<close> call over several queries.
  \<^item> \<open>Fleet\<close>, \<open>Reshape\<close>, \<open>Reshape_Properties\<close>, \<open>Reshape_Examples\<close>: \<open>Split\<close>, \<open>Join\<close>, \<open>FitCalibration\<close> and the
    autoscaler's tick over nodes that run the handlers above. What a call to a node keeps is the contract
    \<open>keeping_handler\<close>, which every handler the coordinator calls is shown to satisfy.
  \<^item> \<open>Candidate_Stream\<close>, \<open>Fixed_Width\<close>, \<open>Candidate_Properties\<close>, \<open>Candidate_Floors\<close>, \<open>Score_Space\<close>: the
    collection-level candidate stream (\<open>run_candidate_stream\<close>), its \<open>select!\<close> loop as a step on the event it takes. Lemmas: a certified
    stream delivered exactly what every shard offered before completing once, the caller reads whole records
    and one terminal message, no panic; every unfinished shard sees the greatest floor the caller asked for, so
    with honest shards a certificate means that no row at or above it is missing; the scoring fingerprint is injective. Arrays of fixed-width values
    (packed records, coordinates, hexadecimal digests) are instances of the locale \<open>fixed_width\<close>.
  \<^item> \<open>Observability\<close> (\<^verbatim>\<open>observability.rs\<close>): the counters and the exposition text, read back by a scraper.
    \<open>Node_Surfaces\<close> (\<^verbatim>\<open>service.rs\<close>): the query and the administrative service; the first never interferes.
    \<open>Channels\<close>: the coordinator's channel cache answers by address alone.
  \<^item> \<open>Host\<close>, \<open>Node_Lifecycle\<close>, \<open>Lifecycle_Examples\<close>, \<open>Coordinator_Start\<close> (\<^verbatim>\<open>main.rs\<close>,
    \<^verbatim>\<open>coordinator_main.rs\<close>): start, orderly end and self-registration. Lemmas: an orderly end and the next start
    lose nothing; a coordinator starts from its state file or as an explicit demo; announcing is idempotent.
  \<^item> \<open>Benchmark\<close>, \<open>Benchmark_Properties\<close> (\<^verbatim>\<open>examples/vibe-bench\<close>): the parts of the benchmark client that
    decide what a reported number means: arguments, calibration sample, subsetting, ingest frames, recall.

  \<^bold>\<open>State and concurrency.\<close> What the source does under a lock is one step. Calls that wait (\<open>collection\<close>, the
  reshaping calls, \<open>stream_query\<close>, the candidate stream) are split where they wait: other operations run between \<open>BindBegin\<close> and
  \<open>BindFinish\<close>, or enter as an arbitrary function \<open>during\<close> on the coordinator; the collector consumes an
  arbitrary sequence of shard events, the candidate stream one of shard, caller and timer events; the scans and the collector take steps in any order. A panic is the value
  \<open>Panic\<close> and a process that dies is \<open>Died\<close> or \<open>Crashed\<close>, with the memory lost and the disk as it was.

  \<^bold>\<open>Bounds.\<close> There is no fuel: every loop is a structural recursion or a \<open>function\<close> with its measure (the
  export loop, the task loop of \<open>Search\<close>), and the unbounded parts are event sequences and step relations.
  64-bit counters are words, so overflow is visible: requested row counts wrap in their sum
  (\<open>plan_counts_overflow_accepted\<close>), which \<open>split_moves_every_row\<close> shows to be harmless because the nodes check
  every range; the completion of a candidate stream counts exactly below 2 to the 64 records; \<open>usize\<close> values are \<open>nat\<close> below \<open>usize_limit\<close>, with the checked operations of the source.

  \<^bold>\<open>Abstractions to know about.\<close> A call of the coordinator to a node is atomic in \<open>Fleet\<close>: it is lost before or
  after it ran. The producer of a transfer runs before the target reads; a target that stops early is the case of
  a refused import. In \<open>Node_Scan\<close> the transport error of the very first message of a stream is not modelled, and
  in \<open>Cluster\<close> a fault may strike a shard at any step, which covers more runs than the transport allows.

  The order in which \<open>select!\<close> prefers its arms is not used: every order of events is a run. Bounded channels only
  delay a sender, so they appear as the order of events and as a receiver that has gone.

  \<^bold>\<open>Not modelled.\<close> What tonic and tokio do for the executables: the gRPC server, health and reflection services,
  TLS, signals, sockets, timers; log lines; the crate root \<^verbatim>\<open>lib.rs\<close>, \<^verbatim>\<open>build.rs\<close> and the generated protobuf
  code; the client examples, and of the benchmark its clock, its data files, the floating-point normalisation of
  rows, the averages of the report and its text.
\<close>

end
